(* ===== verification/Prelude.thy ===== *)
theory Prelude
  imports Main "HOL-Library.Word" "HOL-Library.Monad_Syntax"
begin

text \<open>
  Shared vocabulary of the development: the Rust integer types as words, byte buffers,
  \<open>Result\<close> as a sum type, panics as \<^const>\<open>None\<close>, in-memory byte streams for the code that
  reads from a socket, and the list and word lemmas that the component theories use.
  The lemma collection \<open>codec\<close> holds the facts that evaluate a reader on the output of
  the matching writer.
\<close>

unbundle bit_operations_syntax

named_theorems codec \<open>evaluation of readers on encoded input\<close>

section \<open>Integer and buffer types\<close>

type_synonym u8 = "8 word"
type_synonym u16 = "16 word"
type_synonym u32 = "32 word"
type_synonym u64 = "64 word"
type_synonym bytes = "u8 list"

text \<open>
  \<open>usize\<close> values are lengths and indices of buffers that exist in memory, so they are
  natural numbers; the target is a 64-bit one, where \<open>as usize\<close> on a \<open>u64\<close> keeps the value.
  Arithmetic that can leave the range is written with the two functions below: a build
  with overflow checks panics (\<^const>\<open>None\<close>), a build without them wraps.
\<close>

definition usize_sub :: "bool \<Rightarrow> nat \<Rightarrow> nat \<Rightarrow> nat option" where
  "usize_sub checks a b =
     (if b \<le> a then Some (a - b) else if checks then None else Some (2 ^ 64 + a - b))"

definition usize_add :: "bool \<Rightarrow> nat \<Rightarrow> nat \<Rightarrow> nat option" where
  "usize_add checks a b =
     (if a + b < 2 ^ 64 then Some (a + b) else if checks then None else Some ((a + b) mod 2 ^ 64))"

definition u8_inc :: "bool \<Rightarrow> u8 \<Rightarrow> u8 option" where
  "u8_inc checks a = (if a = 255 \<and> checks then None else Some (a + 1))"

definition saturating_mul64 :: "u64 \<Rightarrow> u64 \<Rightarrow> u64" where
  "saturating_mul64 a b = (if unat a * unat b < 2 ^ 64 then a * b else 0xFFFFFFFFFFFFFFFF)"

definition saturating_add64 :: "u64 \<Rightarrow> u64 \<Rightarrow> u64" where
  "saturating_add64 a b = (if unat a + unat b < 2 ^ 64 then a + b else 0xFFFFFFFFFFFFFFFF)"

definition div_ceil :: "nat \<Rightarrow> nat \<Rightarrow> nat" where
  "div_ceil a b = (a + b - 1) div b"

lemma usize_sub_le [simp]: "b \<le> a \<Longrightarrow> usize_sub checks a b = Some (a - b)"
  by (simp add: usize_sub_def)

lemma unat_saturating_mul64: "unat (saturating_mul64 a b) = min (unat a * unat b) (2 ^ 64 - 1)"
proof (cases "unat a * unat b < 2 ^ 64")
  case True
  then have "unat (a * b) = unat a * unat b"
    by (simp add: unat_word_ariths)
  with True show ?thesis by (simp add: saturating_mul64_def)
next
  case False
  moreover have "unat (0xFFFFFFFFFFFFFFFF :: u64) = 2 ^ 64 - 1"
    by simp
  ultimately show ?thesis by (simp add: saturating_mul64_def)
qed

lemma unat_saturating_add64: "unat (saturating_add64 a b) = min (unat a + unat b) (2 ^ 64 - 1)"
proof (cases "unat a + unat b < 2 ^ 64")
  case True
  then have "unat (a + b) = unat a + unat b"
    by (simp add: unat_word_ariths)
  with True show ?thesis by (simp add: saturating_add64_def)
next
  case False
  moreover have "unat (0xFFFFFFFFFFFFFFFF :: u64) = 2 ^ 64 - 1"
    by simp
  ultimately show ?thesis by (simp add: saturating_add64_def)
qed

lemma div_ceil_bounds:
  assumes "0 < b"
  shows "a \<le> div_ceil a b * b" and "0 < a \<Longrightarrow> (div_ceil a b - 1) * b < a"
proof -
  have eq: "div_ceil a b * b + (a + b - 1) mod b = a + b - 1"
    by (simp add: div_ceil_def)
  have less: "(a + b - 1) mod b < b"
    using assms by simp
  from eq less show "a \<le> div_ceil a b * b" by linarith
  assume "0 < a"
  then have "(div_ceil a b - 1) * b = div_ceil a b * b - b"
    by (simp add: diff_mult_distrib)
  with eq less \<open>0 < a\<close> show "(div_ceil a b - 1) * b < a" by linarith
qed

lemma div_ceil_eqI:
  assumes "0 < b" and "k * b < a" and "a \<le> Suc k * b"
  shows "div_ceil a b = Suc k"
  unfolding div_ceil_def
proof (rule div_nat_eqI)
  show "b * Suc k \<le> a + b - 1" using assms by (simp add: mult.commute)
  show "a + b - 1 < b * Suc (Suc k)" using assms by (simp add: mult.commute)
qed

lemma unat_drop_bit_div: "unat (drop_bit n w) = unat w div 2 ^ n" for w :: "'a::len word"
  unfolding unsigned_drop_bit_eq
  by (simp add: drop_bit_eq_div take_bit_nat_eq_self[OF unsigned_less])

lemma unat_ucast_u8: "unat (ucast w :: u8) = unat w mod 256" for w :: "'a::len word"
  unfolding unsigned_ucast_eq by (simp add: take_bit_eq_mod)

lemma take_bit_word_self:
  fixes w :: "'a::len word"
  assumes "unat w < 2 ^ m" and "m \<le> n"
  shows "take_bit n w = w"
proof (rule unsigned_word_eqI[where ?'a = nat])
  have "unat w < 2 ^ n"
    using assms by (meson less_le_trans one_le_numeral power_increasing)
  then show "unat (take_bit n w) = unat w"
    by (simp add: unsigned_take_bit_eq take_bit_nat_eq_self)
qed

section \<open>Results\<close>

abbreviation Ok :: "'a \<Rightarrow> 'e + 'a" where
  "Ok \<equiv> Inr"

abbreviation Err :: "'e \<Rightarrow> 'e + 'a" where
  "Err \<equiv> Inl"

text \<open>The \<open>?\<close> operator, \<open>map_err\<close> and \<open>ok\<close>.\<close>

fun and_then :: "'e + 'a \<Rightarrow> ('a \<Rightarrow> 'e + 'b) \<Rightarrow> 'e + 'b" where
  "and_then (Inl e) f = Inl e"
| "and_then (Inr x) f = f x"

fun map_err :: "('e \<Rightarrow> 'f) \<Rightarrow> 'e + 'a \<Rightarrow> 'f + 'a" where
  "map_err g (Inl e) = Inl (g e)"
| "map_err g (Inr x) = Inr x"

fun res_ok :: "'e + 'a \<Rightarrow> 'a option" where
  "res_ok (Inl e) = None"
| "res_ok (Inr x) = Some x"

text \<open>The \<open>?\<close> operator after a call that may also panic.\<close>

fun chain :: "('e + 'a) option \<Rightarrow> ('a \<Rightarrow> ('e + 'b) option) \<Rightarrow> ('e + 'b) option" where
  "chain None f = None"
| "chain (Some (Inl e)) f = Some (Inl e)"
| "chain (Some (Inr x)) f = f x"

lemma and_then_Ok_iff: "and_then m f = Inr y \<longleftrightarrow> (\<exists>x. m = Inr x \<and> f x = Inr y)"
  by (cases m) auto

lemma and_then_Err_iff: "and_then m f = Inl e \<longleftrightarrow> m = Inl e \<or> (\<exists>x. m = Inr x \<and> f x = Inl e)"
  by (cases m) auto

lemma map_err_Ok_iff [simp]: "map_err g m = Inr x \<longleftrightarrow> m = Inr x"
  by (cases m) auto

lemma map_err_and_then: "map_err g (and_then m f) = and_then (map_err g m) (\<lambda>x. map_err g (f x))"
  by (cases m) auto

lemma res_ok_Some_iff [simp]: "res_ok m = Some x \<longleftrightarrow> m = Inr x"
  by (cases m) auto

lemma and_then_cong [fundef_cong]:
  "m = m' \<Longrightarrow> (\<And>x. m' = Inr x \<Longrightarrow> f x = f' x) \<Longrightarrow> and_then m f = and_then m' f'"
  by (cases m') auto

text \<open>
  How far an asynchronous function got: it returned, it is still waiting when the inputs of
  the run are used up, or it panicked.
\<close>

datatype 'a run = Returned 'a | Blocked | Panicked

text \<open>The result of a poll function.\<close>

datatype 'a poll = Pending | Ready 'a

section \<open>Slices\<close>

text \<open>
  \<open>buf[i..j]\<close> and \<open>buf[i..i + src.len()].copy_from_slice(src)\<close>: out-of-range bounds panic.
\<close>

definition slice :: "nat \<Rightarrow> nat \<Rightarrow> 'a list \<Rightarrow> 'a list option" where
  "slice i j xs = (if i \<le> j \<and> j \<le> length xs then Some (take (j - i) (drop i xs)) else None)"

definition copy_at :: "nat \<Rightarrow> 'a list \<Rightarrow> 'a list \<Rightarrow> 'a list option" where
  "copy_at i src buf =
     (if i + length src \<le> length buf
      then Some (take i buf @ src @ drop (i + length src) buf) else None)"

lemma copy_at_length: "copy_at i src buf = Some buf' \<Longrightarrow> length buf' = length buf"
  by (auto simp: copy_at_def split: if_splits)

text \<open>Writing right behind a prefix that is already in place.\<close>

lemma copy_at_prefix [codec]:
  assumes "i = length pre" and "length src \<le> length rest"
  shows "copy_at i src (pre @ rest) = Some ((pre @ src) @ drop (length src) rest)"
  using assms by (simp add: copy_at_def)

lemma copy_at_zero [codec]:
  "length src \<le> length rest \<Longrightarrow> copy_at 0 src rest = Some (src @ drop (length src) rest)"
  by (simp add: copy_at_def)

text \<open>\<open>buf[i] = x\<close>.\<close>

definition store_at :: "nat \<Rightarrow> 'a \<Rightarrow> 'a list \<Rightarrow> 'a list option" where
  "store_at i x xs = (if i < length xs then Some (xs[i := x]) else None)"

definition load_at :: "nat \<Rightarrow> 'a list \<Rightarrow> 'a option" where
  "load_at i xs = (if i < length xs then Some (xs ! i) else None)"

section \<open>Chunks\<close>

text \<open>Cutting a list into pieces of at most \<open>n\<close> elements.\<close>

function chunks :: "nat \<Rightarrow> 'a list \<Rightarrow> 'a list list" where
  "chunks n xs = (if n = 0 \<or> xs = [] then [] else take n xs # chunks n (drop n xs))"
  by auto
termination
  by (relation "measure (\<lambda>(_, xs). length xs)") auto

declare chunks.simps [simp del]

lemma chunks_Nil [simp]: "chunks n [] = []"
  by (simp add: chunks.simps)

lemma chunks_step: "0 < n \<Longrightarrow> xs \<noteq> [] \<Longrightarrow> chunks n xs = take n xs # chunks n (drop n xs)"
  by (subst chunks.simps) simp

lemma concat_chunks: "0 < n \<Longrightarrow> concat (chunks n xs) = xs"
proof (induction n xs rule: chunks.induct)
  case (1 n xs)
  then show ?case by (cases "xs = []") (simp_all add: chunks_step)
qed

lemma div_ceil_step: "0 < n \<Longrightarrow> 0 < k \<Longrightarrow> div_ceil k n = Suc (div_ceil (k - n) n)"
proof (cases "n \<le> k")
  case True
  assume "0 < n"
  moreover have "k + n - 1 = (k - n + n - 1) + n" using True \<open>0 < n\<close> by simp
  ultimately show ?thesis by (simp only: div_ceil_def div_add_self2 Suc_eq_plus1)
next
  case False
  assume "0 < n" "0 < k"
  then have "(k + n - 1) div n = 1" and "(n - 1) div n = 0"
    using False by (auto intro!: div_nat_eqI)
  with False show ?thesis by (simp add: div_ceil_def)
qed

lemma div_ceil_two: "0 < n \<Longrightarrow> n < k \<Longrightarrow> 2 \<le> div_ceil k n"
  using div_ceil_step[of n k] div_ceil_step[of n "k - n"] by simp

lemma length_chunks: "0 < n \<Longrightarrow> length (chunks n xs) = div_ceil (length xs) n"
proof (induction n xs rule: chunks.induct)
  case (1 n xs)
  show ?case
  proof (cases "xs = []")
    case True
    with 1 show ?thesis by (simp add: div_ceil_def)
  next
    case False
    with 1 show ?thesis by (simp add: chunks_step div_ceil_step)
  qed
qed

lemma chunks_bounds: "c \<in> set (chunks n xs) \<Longrightarrow> c \<noteq> [] \<and> length c \<le> n"
proof (induction n xs rule: chunks.induct)
  case (1 n xs)
  then show ?case by (cases "n = 0 \<or> xs = []") (auto simp: chunks.simps[of n xs])
qed

section \<open>Components that cannot panic\<close>

text \<open>
  A component is driven by a sequence of inputs; its step returns an output and the next
  state, or \<^const>\<open>None\<close> when it panics. The contract its users rely on is an invariant that
  holds initially and that every step keeps without panicking.
\<close>

fun run_steps :: "('s \<Rightarrow> 'i \<Rightarrow> ('o \<times> 's) option) \<Rightarrow> 's \<Rightarrow> 'i list \<Rightarrow> ('o list \<times> 's) option" where
  "run_steps step s [] = Some ([], s)"
| "run_steps step s (x # xs) = do {
     (y, s') \<leftarrow> step s x;
     (ys, s'') \<leftarrow> run_steps step s' xs;
     Some (y # ys, s'')
   }"

locale panic_free =
  fixes init :: 's
    and step :: "'s \<Rightarrow> 'i \<Rightarrow> ('o \<times> 's) option"
    and inv :: "'s \<Rightarrow> bool"
  assumes inv_init: "inv init"
    and step_total: "inv s \<Longrightarrow> \<exists>y s'. step s x = Some (y, s') \<and> inv s'"
begin

lemma run_total: "inv s \<Longrightarrow> \<exists>ys s'. run_steps step s xs = Some (ys, s') \<and> length ys = length xs \<and> inv s'"
proof (induction xs arbitrary: s)
  case Nil
  then show ?case by simp
next
  case (Cons x xs)
  obtain y s' where "step s x = Some (y, s')" and "inv s'"
    using step_total[OF Cons.prems] by blast
  with Cons.IH[of s'] show ?case by auto
qed

lemma run_init: "\<exists>ys s'. run_steps step init xs = Some (ys, s') \<and> length ys = length xs \<and> inv s'"
  by (rule run_total[OF inv_init])

end

lemma run_steps_append:
  "run_steps step s (xs @ ys) = do {
     (us, s') \<leftarrow> run_steps step s xs;
     (vs, s'') \<leftarrow> run_steps step s' ys;
     Some (us @ vs, s'')
   }"
  by (induction xs arbitrary: s) (auto split: bind_splits prod.splits)

end
