(* ===== verification/Rust_Std.thy ===== *)
theory Rust_Std
  imports Prelude
begin

text \<open>
  The parts of the Rust standard library the components call: I/O errors and in-memory
  byte sources for \<open>Read::read_exact\<close> and \<open>AsyncReadExt::read_exact\<close>, big-endian integer
  conversions, UTF-8 validation and \<open>String::from_utf8_lossy\<close>. A Rust \<open>String\<close> is the list of its UTF-8 bytes, each as a
  \<^typ>\<open>char\<close>; \<open>as_bytes\<close> and \<open>str_of\<close> convert.
\<close>

section \<open>I/O errors and byte sources\<close>

datatype error_kind =
    EkUnexpectedEof | EkConnectionReset | EkConnectionAborted | EkBrokenPipe
  | EkInvalidData | EkInvalidInput | EkWriteZero | EkTimedOut | EkOther

datatype io_error = IoError (io_kind: error_kind) (io_message: string)

text \<open>
  A source is what a peer delivers on one stream: the bytes still to be read and how the
  stream ends after them. \<open>read_exact\<close> either fills the buffer or fails with the way the
  stream ends; \<open>sync_eof\<close> and \<open>async_eof\<close> are the end-of-file errors of the standard
  library and of tokio.
\<close>

datatype stream_end = AtEof | AtError io_error

record source =
  pending :: bytes
  ending :: stream_end

definition sync_eof :: io_error where
  "sync_eof = IoError EkUnexpectedEof ''failed to fill whole buffer''"

definition async_eof :: io_error where
  "async_eof = IoError EkUnexpectedEof ''early eof''"

definition read_exact :: "io_error \<Rightarrow> nat \<Rightarrow> source \<Rightarrow> io_error + (bytes \<times> source)" where
  "read_exact eof n s =
     (if n \<le> length (pending s)
      then Ok (take n (pending s), s\<lparr>pending := drop n (pending s)\<rparr>)
      else Err (case ending s of AtEof \<Rightarrow> eof | AtError e \<Rightarrow> e))"

abbreviation feed_front :: "bytes \<Rightarrow> source \<Rightarrow> source" where
  "feed_front bs s \<equiv> s\<lparr>pending := bs @ pending s\<rparr>"

lemma read_exact_Ok_iff:
  "read_exact eof n s = Ok (bs, s') \<longleftrightarrow> s = feed_front bs s' \<and> length bs = n"
  by (cases s; cases s') (auto simp: read_exact_def split: if_splits)

lemma read_exact_front [codec]:
  "length bs = n \<Longrightarrow> read_exact eof n (s\<lparr>pending := bs @ rest\<rparr>) = Ok (bs, s\<lparr>pending := rest\<rparr>)"
  by (simp add: read_exact_def)

lemma read_exact_Cons [codec]:
  "read_exact eof (Suc 0) (s\<lparr>pending := b # rest\<rparr>) = Ok ([b], s\<lparr>pending := rest\<rparr>)"
  by (simp add: read_exact_def)

lemma read_exact_short:
  "length (pending s) < n \<Longrightarrow> ending s = AtEof \<Longrightarrow> read_exact eof n s = Err eof"
  by (simp add: read_exact_def)

text \<open>
  A sink is what a writer has accepted, and, when it is going to fail, after how many
  more bytes and with which error. \<open>write_all\<close> delivers the prefix that still fits before
  it fails.
\<close>

record sink =
  written :: bytes
  failing :: "(nat \<times> io_error) option"

definition write_all :: "bytes \<Rightarrow> sink \<Rightarrow> (io_error + unit) \<times> sink" where
  "write_all bs w =
     (case failing w of
        None \<Rightarrow> (Ok (), w\<lparr>written := written w @ bs\<rparr>)
      | Some (n, e) \<Rightarrow>
          if length bs \<le> n
          then (Ok (), w\<lparr>written := written w @ bs, failing := Some (n - length bs, e)\<rparr>)
          else (Err e, w\<lparr>written := written w @ take n bs, failing := Some (0, e)\<rparr>))"

text \<open>A \<open>Vec<u8>\<close> as a writer never fails.\<close>

definition new_vec :: sink where
  "new_vec = \<lparr>written = [], failing = None\<rparr>"

lemma write_all_healthy [simp]:
  "failing w = None \<Longrightarrow> write_all bs w = (Ok (), w\<lparr>written := written w @ bs\<rparr>)"
  by (simp add: write_all_def)

section \<open>Big-endian bytes of machine integers\<close>

text \<open>\<open>to_be_bytes\<close> and \<open>from_be_bytes\<close>: byte \<open>i\<close> of \<open>n\<close> holds the bits from \<open>8 * (n - 1 - i)\<close>.\<close>

definition be_bytes :: "nat \<Rightarrow> 'a::len word \<Rightarrow> bytes" where
  "be_bytes n w = map (\<lambda>i. ucast (drop_bit (8 * (n - 1 - i)) w)) [0..<n]"

definition be_word :: "bytes \<Rightarrow> 'a::len word" where
  "be_word bs = foldl (\<lambda>acc b. push_bit 8 acc OR ucast b) 0 bs"

lemma length_be_bytes [simp]: "length (be_bytes n w) = n"
  by (simp add: be_bytes_def)

text \<open>
  Both sides are compared bit by bit: bit \<open>k\<close> of a folded word comes from byte
  \<open>length bs - 1 - k div 8\<close>.
\<close>

lemma bit_be_fold:
  fixes acc :: "'a::len word"
  shows "bit (foldl (\<lambda>acc b. push_bit 8 acc OR ucast (b :: u8)) acc bs) k \<longleftrightarrow>
    k < LENGTH('a) \<and>
    (if k < 8 * length bs then bit (bs ! (length bs - 1 - k div 8)) (k mod 8)
     else bit acc (k - 8 * length bs))"
proof (induction bs arbitrary: acc k)
  case Nil
  then show ?case by (auto dest: bit_imp_le_length)
next
  case (Cons b bs)
  let ?n = "length bs"
  have "bit (push_bit 8 acc OR ucast b) j \<longleftrightarrow>
      j < LENGTH('a) \<and> (if j < 8 then bit b j else bit acc (j - 8))" for j
    by (auto simp: bit_simps dest: bit_imp_le_length)
  note step = this
  consider "k < 8 * ?n" | "8 * ?n \<le> k" "k < 8 * Suc ?n" | "8 * Suc ?n \<le> k"
    by linarith
  then show ?case
  proof cases
    case 1
    then have "k div 8 < ?n" by linarith
    with 1 show ?thesis by (simp add: Cons.IH nth_Cons' Suc_diff_le)
  next
    case 2
    then obtain r where "k = 8 * ?n + r" and "r < 8"
      by (metis add_diff_inverse_nat leD less_diff_conv2 mult_Suc_right add.commute)
    then show ?thesis by (auto simp: Cons.IH step)
  next
    case 3
    then have "k - 8 * ?n - 8 = k - 8 * Suc ?n" by simp
    with 3 show ?thesis by (auto simp: Cons.IH step)
  qed
qed

lemma be_word_be_bytes_take:
  fixes w :: "'a::len word"
  shows "be_word (be_bytes n w) = take_bit (8 * n) w"
proof (rule bit_word_eqI)
  fix k
  assume k: "k < LENGTH('a)"
  show "bit (be_word (be_bytes n w) :: 'a word) k = bit (take_bit (8 * n) w) k"
  proof (cases "k < 8 * n")
    case True
    then have "k div 8 < n" by linarith
    then have "be_bytes n w ! (n - 1 - k div 8) = ucast (drop_bit (8 * (k div 8)) w)"
      by (simp add: be_bytes_def)
    moreover have "bit (ucast (drop_bit (8 * (k div 8)) w) :: u8) (k mod 8) = bit w k"
      by (simp add: bit_simps mult.commute)
    ultimately show ?thesis
      using True k by (simp add: be_word_def bit_be_fold bit_simps)
  next
    case False
    then show ?thesis by (simp add: be_word_def bit_be_fold bit_simps)
  qed
qed

lemma be_word_be_bytes:
  fixes w :: "'a::len word"
  assumes "LENGTH('a) = 8 * n"
  shows "be_word (be_bytes n w) = w"
  using assms by (simp add: be_word_be_bytes_take take_bit_word_eq_self)

lemma be_bytes_be_word:
  assumes "LENGTH('a) = 8 * length bs"
  shows "be_bytes (length bs) (be_word bs :: 'a::len word) = bs"
proof (rule nth_equalityI)
  show "length (be_bytes (length bs) (be_word bs :: 'a word)) = length bs" by simp
next
  fix i
  assume "i < length (be_bytes (length bs) (be_word bs :: 'a word))"
  then have i: "i < length bs" by simp
  show "be_bytes (length bs) (be_word bs :: 'a word) ! i = bs ! i"
  proof (rule bit_word_eqI)
    fix k assume "k < LENGTH(8)"
    then have k: "k < 8" by simp
    let ?j = "8 * (length bs - 1 - i) + k"
    have "?j < 8 * length bs" and "?j div 8 = length bs - 1 - i" and "?j mod 8 = k"
      using i k by (auto simp: div_mult_self1 less_eq_Suc_le)
    moreover have "length bs - 1 - (length bs - 1 - i) = i"
      using i by simp
    ultimately show "bit (be_bytes (length bs) (be_word bs :: 'a word) ! i) k = bit (bs ! i) k"
      using i k assms by (simp add: be_bytes_def be_word_def bit_simps bit_be_fold)
  qed
qed

section \<open>UTF-8\<close>

text \<open>
  \<open>utf8_step\<close> inspects the front of a non-empty byte list the way the chunk iterator of
  \<open>core::str\<close> does: the number of bytes it consumes and whether they are one well-formed
  scalar value. On a malformed sequence it consumes the lead byte and the continuation
  bytes it had already accepted. Reading past the end yields 0, which is no continuation
  byte.
\<close>

definition is_cont :: "u8 \<Rightarrow> bool" where
  "is_cont b \<longleftrightarrow> b AND 0xC0 = 0x80"

definition safe_get :: "bytes \<Rightarrow> nat \<Rightarrow> u8" where
  "safe_get bs i = (if i < length bs then bs ! i else 0)"

definition utf8_char_width :: "u8 \<Rightarrow> nat" where
  "utf8_char_width b =
     (if b < 0x80 then 1
      else if 0xC2 \<le> b \<and> b \<le> 0xDF then 2
      else if 0xE0 \<le> b \<and> b \<le> 0xEF then 3
      else if 0xF0 \<le> b \<and> b \<le> 0xF4 then 4
      else 0)"

definition second_of_three :: "u8 \<Rightarrow> u8 \<Rightarrow> bool" where
  "second_of_three b c \<longleftrightarrow>
     b = 0xE0 \<and> 0xA0 \<le> c \<and> c \<le> 0xBF \<or>
     0xE1 \<le> b \<and> b \<le> 0xEC \<and> 0x80 \<le> c \<and> c \<le> 0xBF \<or>
     b = 0xED \<and> 0x80 \<le> c \<and> c \<le> 0x9F \<or>
     0xEE \<le> b \<and> b \<le> 0xEF \<and> 0x80 \<le> c \<and> c \<le> 0xBF"

definition second_of_four :: "u8 \<Rightarrow> u8 \<Rightarrow> bool" where
  "second_of_four b c \<longleftrightarrow>
     b = 0xF0 \<and> 0x90 \<le> c \<and> c \<le> 0xBF \<or>
     0xF1 \<le> b \<and> b \<le> 0xF3 \<and> 0x80 \<le> c \<and> c \<le> 0xBF \<or>
     b = 0xF4 \<and> 0x80 \<le> c \<and> c \<le> 0x8F"

definition utf8_step :: "u8 \<Rightarrow> bytes \<Rightarrow> nat \<times> bool" where
  "utf8_step b bs =
     (let w = utf8_char_width b in
      if w = 1 then (1, True)
      else if w = 2 then (if is_cont (safe_get bs 0) then (2, True) else (1, False))
      else if w = 3 then
        (if second_of_three b (safe_get bs 0)
         then (if is_cont (safe_get bs 1) then (3, True) else (2, False))
         else (1, False))
      else if w = 4 then
        (if second_of_four b (safe_get bs 0)
         then (if is_cont (safe_get bs 1)
               then (if is_cont (safe_get bs 2) then (4, True) else (3, False))
               else (2, False))
         else (1, False))
      else (1, False))"

definition replacement_char :: bytes where
  "replacement_char = [0xEF, 0xBF, 0xBD]"

fun utf8_valid :: "bytes \<Rightarrow> bool" where
  "utf8_valid [] = True"
| "utf8_valid (b # bs) =
     (case utf8_step b bs of (n, ok) \<Rightarrow> ok \<and> utf8_valid (drop (n - 1) bs))"

fun utf8_repair :: "bytes \<Rightarrow> bytes" where
  "utf8_repair [] = []"
| "utf8_repair (b # bs) =
     (case utf8_step b bs of (n, ok) \<Rightarrow>
        (if ok then b # take (n - 1) bs else replacement_char) @ utf8_repair (drop (n - 1) bs))"

definition as_bytes :: "string \<Rightarrow> bytes" where
  "as_bytes s = map of_char s"

definition str_of :: "bytes \<Rightarrow> string" where
  "str_of bs = map (\<lambda>b. char_of (unat b)) bs"

definition from_utf8_lossy :: "bytes \<Rightarrow> string" where
  "from_utf8_lossy bs = str_of (utf8_repair bs)"

definition from_utf8 :: "bytes \<Rightarrow> string option" where
  "from_utf8 bs = (if utf8_valid bs then Some (str_of bs) else None)"

text \<open>What every Rust \<open>str\<close> satisfies.\<close>

definition str_ok :: "string \<Rightarrow> bool" where
  "str_ok s \<longleftrightarrow> utf8_valid (as_bytes s)"

lemma of_char_char_of [simp]: "of_char (char_of (unat b)) = (b :: u8)"
proof -
  have "(of_char (char_of (unat b)) :: u8) = of_nat (of_char (char_of (unat b)))"
    by (simp only: of_nat_of_char)
  also have "\<dots> = of_nat (unat b mod 256)"
    by (simp only: of_char_of)
  also have "\<dots> = b"
    using unsigned_less[where ?'a = nat, of b] by simp
  finally show ?thesis .
qed

lemma unat_of_char: "unat (of_char c :: u8) = of_char c"
proof -
  have "unat (of_char c :: u8) = unat (of_nat (of_char c) :: u8)"
    by (simp only: of_nat_of_char)
  also have "\<dots> = of_char c"
    by (simp add: unat_of_nat)
  finally show ?thesis .
qed

lemma char_of_of_char [simp]: "char_of (unat (of_char c :: u8)) = c"
  by (simp add: unat_of_char)

lemma as_bytes_str_of [simp]: "as_bytes (str_of bs) = bs"
  by (simp add: as_bytes_def str_of_def comp_def)

lemma str_of_as_bytes [simp]: "str_of (as_bytes s) = s"
  by (simp add: as_bytes_def str_of_def comp_def)

lemma length_as_bytes [simp]: "length (as_bytes s) = length s"
  by (simp add: as_bytes_def)

lemma length_str_of [simp]: "length (str_of bs) = length bs"
  by (simp add: str_of_def)

lemma as_bytes_append [simp]: "as_bytes (s @ t) = as_bytes s @ as_bytes t"
  by (simp add: as_bytes_def)

lemma as_bytes_Nil [simp]: "as_bytes [] = []"
  by (simp add: as_bytes_def)

lemma as_bytes_inject [simp]: "as_bytes s = as_bytes t \<longleftrightarrow> s = t"
  by (metis str_of_as_bytes)

lemma not_is_cont_zero [simp]: "\<not> is_cont 0"
  by (simp add: is_cont_def)

lemma second_zero [simp]: "\<not> second_of_three b 0" "\<not> second_of_four b 0"
  by (simp_all add: second_of_three_def second_of_four_def)

text \<open>A well-formed step stays inside the list and is decided by the bytes it consumes.\<close>

lemma utf8_step_bounds:
  assumes "utf8_step b bs = (n, ok)"
  shows "1 \<le> n" and "n - 1 \<le> length bs"
  using assms
  by (auto simp: utf8_step_def Let_def safe_get_def Suc_le_eq not_less_eq_eq
      split: if_splits)

lemma safe_get_append: "safe_get bs i \<noteq> 0 \<Longrightarrow> safe_get (bs @ cs) i = safe_get bs i"
  by (auto simp: safe_get_def nth_append split: if_splits)

lemma utf8_step_append:
  assumes "utf8_step b bs = (n, True)"
  shows "utf8_step b (bs @ cs) = (n, True)"
proof -
  have "is_cont (safe_get bs i) \<Longrightarrow> is_cont (safe_get (bs @ cs) i)" for i
    by (metis not_is_cont_zero safe_get_append)
  moreover have "second_of_three b (safe_get bs i) \<Longrightarrow> second_of_three b (safe_get (bs @ cs) i)" for i
    by (metis second_zero(1) safe_get_append)
  moreover have "second_of_four b (safe_get bs i) \<Longrightarrow> second_of_four b (safe_get (bs @ cs) i)" for i
    by (metis second_zero(2) safe_get_append)
  ultimately show ?thesis
    using assms by (auto simp: utf8_step_def Let_def split: if_splits)
qed

lemma utf8_valid_append:
  "utf8_valid bs \<Longrightarrow> utf8_valid cs \<Longrightarrow> utf8_valid (bs @ cs)"
proof (induction bs rule: utf8_valid.induct)
  case 1
  then show ?case by simp
next
  case (2 b bs)
  obtain n where n: "utf8_step b bs = (n, True)" and rest: "utf8_valid (drop (n - 1) bs)"
    using "2.prems"(1) by (auto split: prod.splits)
  with "2.IH"[OF n[symmetric]] "2.prems"(2)
  have "utf8_valid (drop (n - 1) bs @ cs)" by simp
  with utf8_step_append[OF n, of cs] utf8_step_bounds(2)[OF n] show ?case by simp
qed

lemma utf8_repair_valid [simp]: "utf8_valid bs \<Longrightarrow> utf8_repair bs = bs"
  by (induction bs rule: utf8_valid.induct) (auto split: prod.splits)

lemma from_utf8_lossy_valid [simp]: "str_ok s \<Longrightarrow> from_utf8_lossy (as_bytes s) = s"
  by (simp add: from_utf8_lossy_def str_ok_def)

lemma from_utf8_lossy_Nil [simp]: "from_utf8_lossy [] = []"
  by (simp add: from_utf8_lossy_def str_of_def)

lemma utf8_valid_step:
  assumes "utf8_step b bs = (n, True)"
  shows "utf8_valid (b # take (n - 1) bs)"
proof -
  have get: "safe_get (take m bs) i = safe_get bs i" if "i < m" for m i
    using that by (simp add: safe_get_def)
  have "utf8_step b (take (n - 1) bs) = (n, True)"
    using assms by (auto simp: utf8_step_def Let_def get split: if_splits)
  with utf8_step_bounds(2)[OF assms] show ?thesis by simp
qed

lemma utf8_valid_replacement: "utf8_valid replacement_char"
  by code_simp

lemma utf8_valid_repair: "utf8_valid (utf8_repair bs)"
proof (induction bs rule: utf8_repair.induct)
  case 1
  then show ?case by simp
next
  case (2 b bs)
  obtain n ok where step: "utf8_step b bs = (n, ok)" by fastforce
  have "utf8_valid (if ok then b # take (n - 1) bs else replacement_char)"
    using utf8_valid_step[of b bs n] utf8_valid_replacement step by (cases ok) simp_all
  with "2.IH"[OF step[symmetric]] step show ?case
    by (simp add: utf8_valid_append)
qed

lemma str_ok_from_utf8_lossy [simp]: "str_ok (from_utf8_lossy bs)"
  by (simp add: str_ok_def from_utf8_lossy_def utf8_valid_repair)

lemma utf8_valid_ascii: "(\<And>b. b \<in> set bs \<Longrightarrow> b < 0x80) \<Longrightarrow> utf8_valid bs"
  by (induction bs) (auto simp: utf8_step_def utf8_char_width_def)

lemma str_ok_Nil [simp]: "str_ok []"
  by (simp add: str_ok_def)

lemma str_ok_append: "str_ok s \<Longrightarrow> str_ok t \<Longrightarrow> str_ok (s @ t)"
  by (simp add: str_ok_def utf8_valid_append)

end
