(* ===== verification/Errors.thy ===== *)
theory Errors
  imports Rust_Std
begin

text \<open>
  The error types of the core crate (\<open>core/src/errors.rs\<close>) and the conversions that the
  \<open>?\<close> operator inserts. The displayed text of an error that belongs to another crate
  (quinn, http, h3, rustls) is a parameter: the conversions take its \<open>to_string\<close>.
\<close>

datatype ProtocolError =
    InvalidAddressLength
  | InvalidMessageLength
  | InvalidPaddingLength
  | VarintOverflow
  | UnexpectedEof
  | InvalidHeaderValue
  | Io string

definition protocol_from_io :: "io_error \<Rightarrow> ProtocolError" where
  "protocol_from_io e =
     (if io_kind e = EkUnexpectedEof then UnexpectedEof else Io (io_message e))"

datatype CoreError =
    Protocol ProtocolError
  | Config string
  | Closed string
  | Connect string
  | Transport string
  | Authentication u16
  | Dial string
  | UnexpectedFrameType u64
  | Tls string

definition core_from_io :: "io_error \<Rightarrow> CoreError" where
  "core_from_io e = Transport (io_message e)"

definition core_from_http :: "('e \<Rightarrow> string) \<Rightarrow> 'e \<Rightarrow> CoreError" where
  "core_from_http to_string e = Transport (to_string e)"

definition core_from_connect :: "('e \<Rightarrow> string) \<Rightarrow> 'e \<Rightarrow> CoreError" where
  "core_from_connect to_string e = Connect (to_string e)"

definition core_from_connection :: "('e \<Rightarrow> string) \<Rightarrow> 'e \<Rightarrow> CoreError" where
  "core_from_connection to_string e = Transport (to_string e)"

definition core_from_stream :: "('e \<Rightarrow> string) \<Rightarrow> 'e \<Rightarrow> CoreError" where
  "core_from_stream to_string e = Transport (to_string e)"

definition core_from_rustls :: "('e \<Rightarrow> string) \<Rightarrow> 'e \<Rightarrow> CoreError" where
  "core_from_rustls to_string e = Tls (to_string e)"

definition core_from_h3 :: "('e \<Rightarrow> string) \<Rightarrow> 'e \<Rightarrow> CoreError" where
  "core_from_h3 to_string e = Transport (to_string e)"

type_synonym 'a CoreResult = "CoreError + 'a"

text \<open>The two end-of-file errors both become \<^const>\<open>UnexpectedEof\<close> in the protocol crate.\<close>

lemma protocol_from_eof [simp]:
  "protocol_from_io sync_eof = UnexpectedEof"
  "protocol_from_io async_eof = UnexpectedEof"
  by (simp_all add: protocol_from_io_def sync_eof_def async_eof_def)

end
