(* ===== verification/Varint.thy ===== *)
theory Varint
  imports Errors
begin

text \<open>
  QUIC variable-length integers (\<open>core/src/varint.rs\<close>): the length function with its
  assertion, the writer into a caller's buffer, the stream reader and the slice reader.
  The lemmas relate all of them to one reference encoding: \<open>n\<close> big-endian bytes whose two
  top bits hold the logarithm of \<open>n\<close>.
\<close>

section \<open>The code\<close>

definition MAX_VARINT :: u64 where
  "MAX_VARINT = 0x3fffffffffffffff"

text \<open>\<^const>\<open>None\<close> is the failed assertion.\<close>

definition varint_len :: "u64 \<Rightarrow> nat option" where
  "varint_len v =
     (if v \<le> MAX_VARINT
      then Some (if v \<le> 63 then 1 else if v \<le> 16383 then 2 else if v \<le> 1073741823 then 4 else 8)
      else None)"

text \<open>
  The writer updates the buffer in place; on an error the buffer is unchanged. The outer
  \<^const>\<open>None\<close> stands for a panic.
\<close>

definition varint_write :: "bytes \<Rightarrow> u64 \<Rightarrow> (ProtocolError + nat \<times> bytes) option" where
  "varint_write buf v =
     (if v > MAX_VARINT then Some (Err VarintOverflow)
      else do {
        needed \<leftarrow> varint_len v;
        if length buf < needed then Some (Err UnexpectedEof)
        else do {
          buf' \<leftarrow>
            (if needed = 1 then copy_at 0 [ucast v] buf
             else if needed = 2 then
               copy_at 0 [ucast (drop_bit 8 v) OR 0x40, ucast v] buf
             else if needed = 4 then
               copy_at 0 [ucast (drop_bit 24 v) OR 0x80, ucast (drop_bit 16 v),
                          ucast (drop_bit 8 v), ucast v] buf
             else if needed = 8 then
               copy_at 0 [ucast (drop_bit 56 v) OR 0xc0, ucast (drop_bit 48 v),
                          ucast (drop_bit 40 v), ucast (drop_bit 32 v),
                          ucast (drop_bit 24 v), ucast (drop_bit 16 v),
                          ucast (drop_bit 8 v), ucast v] buf
             else None);
          Some (Ok (needed, buf'))
        }
      })"

definition varint_needed :: "u8 \<Rightarrow> nat" where
  "varint_needed first = push_bit (unat (drop_bit 6 first)) 1"

definition varint_value :: "u8 \<Rightarrow> bytes \<Rightarrow> u64" where
  "varint_value first rest =
     foldl (\<lambda>v b. push_bit 8 v OR ucast b) (ucast (first AND 0x3f)) rest"

definition varint_read :: "source \<Rightarrow> ProtocolError + (u64 \<times> source)" where
  "varint_read s =
     and_then (map_err protocol_from_io (read_exact sync_eof 1 s)) (\<lambda>(first, s).
     let needed = varint_needed (first ! 0) in
     and_then (if needed > 1 then map_err protocol_from_io (read_exact sync_eof (needed - 1) s)
               else Ok ([], s)) (\<lambda>(rest, s).
     Ok (varint_value (first ! 0) rest, s)))"

fun varint_read_slice :: "bytes \<Rightarrow> ProtocolError + (u64 \<times> nat)" where
  "varint_read_slice [] = Err UnexpectedEof"
| "varint_read_slice (first # buf) =
     (let needed = varint_needed first in
      if length (first # buf) < needed then Err UnexpectedEof
      else Ok (varint_value first (take (needed - 1) buf), needed))"

section \<open>The reference encoding\<close>

definition varint_tag :: "nat \<Rightarrow> u8" where
  "varint_tag n = (if n = 1 then 0 else if n = 2 then 0x40 else if n = 4 then 0x80 else 0xc0)"

definition varint_size :: "u64 \<Rightarrow> nat" where
  "varint_size v = (if v \<le> 63 then 1 else if v \<le> 16383 then 2 else if v \<le> 1073741823 then 4 else 8)"

definition varint_bytes :: "u64 \<Rightarrow> bytes" where
  "varint_bytes v =
     (case be_bytes (varint_size v) v of
        [] \<Rightarrow> []
      | b # bs \<Rightarrow> (b OR varint_tag (varint_size v)) # bs)"

lemma varint_size_cases: "varint_size v \<in> {1, 2, 4, 8}"
  by (simp add: varint_size_def)

lemma varint_size_pos [simp]: "0 < varint_size v"
  by (simp add: varint_size_def)

lemma varint_size_le: "varint_size v \<le> 8"
  by (simp add: varint_size_def)

lemma length_varint_bytes [simp]: "length (varint_bytes v) = varint_size v"
proof -
  have "length (be_bytes (varint_size v) v) = varint_size v" by simp
  then show ?thesis
    unfolding varint_bytes_def by (cases "be_bytes (varint_size v) v") auto
qed

lemma varint_len_size: "v \<le> MAX_VARINT \<Longrightarrow> varint_len v = Some (varint_size v)"
  by (simp add: varint_len_def varint_size_def)

lemma varint_size_bound:
  assumes "v \<le> MAX_VARINT"
  shows "unat v < 2 ^ (8 * varint_size v - 2)"
  using assms
  by (auto simp: varint_size_def MAX_VARINT_def word_le_nat_alt)

lemma varint_write_eq [codec]:
  assumes "v \<le> MAX_VARINT" and "varint_size v \<le> length buf"
  shows "varint_write buf v =
    Some (Ok (varint_size v, varint_bytes v @ drop (varint_size v) buf))"
proof -
  consider "varint_size v = 1" | "varint_size v = 2" | "varint_size v = 4" | "varint_size v = 8"
    using varint_size_cases[of v] by auto
  then show ?thesis
    using assms
    by cases (auto simp: varint_write_def varint_len_size varint_bytes_def be_bytes_def
        copy_at_zero varint_tag_def upt_rec not_less eval_nat_numeral)
qed

lemma varint_needed_tag:
  assumes "x < (64 :: u8)" and "n \<in> {1, 2, 4, 8}"
  shows "varint_needed (x OR varint_tag n) = n" and "(x OR varint_tag n) AND 0x3f = x"
proof -
  have "unat x < 64" using assms(1) by (simp add: word_less_nat_alt)
  then have d: "drop_bit 6 x = 0"
    by (simp add: drop_bit_eq_div word_arith_nat_div)
  have "x AND 0x3f = take_bit 6 x"
    by (simp add: take_bit_eq_mask mask_eq_exp_minus_1)
  also have "\<dots> = x"
    using \<open>unat x < 64\<close> by (simp add: take_bit_eq_mod word_arith_nat_mod)
  finally have x: "x AND 0x3f = x" .
  have "drop_bit 6 (x OR varint_tag n) = drop_bit 6 (varint_tag n)"
    by (simp add: d)
  then show "varint_needed (x OR varint_tag n) = n"
    using assms(2) by (auto simp: varint_needed_def varint_tag_def drop_bit_eq_div)
  show "(x OR varint_tag n) AND 0x3f = x"
    using assms(2) by (auto simp: varint_tag_def bit.conj_disj_distrib2 x)
qed

lemma varint_value_be_word: "varint_value b rest = be_word ((b AND 0x3f) # rest)"
  by (simp add: varint_value_def be_word_def)

text \<open>The shape of an encoding: the first byte carries the tag and six bits of the value.\<close>

lemma varint_bytes_Cons:
  assumes "v \<le> MAX_VARINT"
  obtains b bs where "varint_bytes v = (b OR varint_tag (varint_size v)) # bs"
    and "be_bytes (varint_size v) v = b # bs" and "b < 64" and "length bs = varint_size v - 1"
proof -
  let ?n = "varint_size v"
  have "length (be_bytes ?n v) = ?n" by simp
  then obtain b bs where bb: "be_bytes ?n v = b # bs"
    using varint_size_pos[of v] by (cases "be_bytes ?n v") auto
  then have len: "length bs = ?n - 1"
    by (metis length_be_bytes length_tl list.sel(3))
  have "b = be_bytes ?n v ! 0" using bb by simp
  also have "\<dots> = ucast (drop_bit (8 * (?n - 1)) v)"
    using varint_size_pos[of v] by (simp add: be_bytes_def)
  finally have "unat b = unat v div 2 ^ (8 * (?n - 1)) mod 256"
    by (simp add: unat_ucast_u8 unat_drop_bit_div)
  moreover have "unat v < 2 ^ (8 * (?n - 1)) * 64"
    using varint_size_bound[OF assms] varint_size_cases[of v] by auto
  ultimately have "unat b < 64"
    by (metis less_mult_imp_div_less mod_less_eq_dividend mult.commute order_le_less_trans)
  then have "b < 64" by (simp add: word_less_nat_alt)
  with bb len that show ?thesis by (simp add: varint_bytes_def)
qed

lemma varint_decode:
  assumes "v \<le> MAX_VARINT" and "varint_bytes v = c # cs"
  shows "varint_needed c = varint_size v" and "varint_value c cs = v"
proof -
  obtain b bs where vb: "varint_bytes v = (b OR varint_tag (varint_size v)) # bs"
    and bb: "be_bytes (varint_size v) v = b # bs" and b: "b < 64"
    using varint_bytes_Cons[OF assms(1)] .
  have c: "c = b OR varint_tag (varint_size v)" "cs = bs"
    using assms(2) vb by simp_all
  show "varint_needed c = varint_size v"
    unfolding c by (rule varint_needed_tag(1)[OF b varint_size_cases])
  have "varint_value c cs = be_word (be_bytes (varint_size v) v)"
    unfolding c varint_value_be_word varint_needed_tag(2)[OF b varint_size_cases] bb ..
  also have "\<dots> = take_bit (8 * varint_size v) v"
    by (rule be_word_be_bytes_take)
  also have "\<dots> = v"
    using varint_size_bound[OF assms(1)] by (rule take_bit_word_self) simp
  finally show "varint_value c cs = v" .
qed

lemma varint_read_slice_bytes [codec]:
  assumes "v \<le> MAX_VARINT"
  shows "varint_read_slice (varint_bytes v @ rest) = Ok (v, varint_size v)"
proof -
  obtain c cs where c: "varint_bytes v = c # cs" and len: "length cs = varint_size v - 1"
    by (metis varint_bytes_Cons[OF assms])
  with varint_decode[OF assms c] show ?thesis by (simp add: Let_def)
qed

lemma varint_read_bytes [codec]:
  assumes "v \<le> MAX_VARINT"
  shows "varint_read (s\<lparr>pending := varint_bytes v @ rest\<rparr>) = Ok (v, s\<lparr>pending := rest\<rparr>)"
proof -
  obtain c cs where c: "varint_bytes v = c # cs" and len: "length cs = varint_size v - 1"
    by (metis varint_bytes_Cons[OF assms])
  with varint_decode[OF assms c] varint_size_pos[of v] show ?thesis
    by (auto simp: varint_read_def Let_def read_exact_Cons read_exact_front)
qed

section \<open>Readers on arbitrary input\<close>

lemma varint_needed_cases: "varint_needed b \<in> {1, 2, 4, 8}"
proof -
  have "unat (drop_bit 6 b) < 4"
    using unsigned_less[where ?'a = nat, of b] by (simp add: unat_drop_bit_div)
  then have "unat (drop_bit 6 b) \<in> {0, 1, 2, 3}" by auto
  then show ?thesis by (auto simp: varint_needed_def)
qed

lemma varint_value_bound:
  assumes "n = length rest + 1"
  shows "unat (varint_value b rest) < 2 ^ (8 * n - 2)"
proof -
  have "bit (varint_value b rest) k \<longrightarrow> k < 8 * n - 2" for k
  proof
    assume bit: "bit (varint_value b rest) k"
    show "k < 8 * n - 2"
    proof (rule ccontr)
      assume "\<not> k < 8 * n - 2"
      then have k: "8 * length rest + 6 \<le> k" using assms by simp
      then have "bit (ucast (b AND 0x3f) :: u64) (k - 8 * length rest)"
        using bit by (simp add: varint_value_def bit_be_fold)
      then have "bit (0x3f :: u8) (k - 8 * length rest)"
        by (simp add: bit_simps)
      moreover have "(0x3f :: u8) = mask 6" by (simp add: mask_eq_exp_minus_1)
      ultimately show False using k by (auto simp: bit_simps)
    qed
  qed
  then have "take_bit (8 * n - 2) (varint_value b rest) = varint_value b rest"
    by (intro bit_word_eqI) (auto simp: bit_simps)
  then show ?thesis
    by (metis take_bit_nat_less_exp unsigned_take_bit_eq)
qed

lemma varint_read_slice_bounds:
  assumes "varint_read_slice bs = Ok (v, n)"
  shows "n \<in> {1, 2, 4, 8}" and "n \<le> length bs" and "unat v < 2 ^ (8 * n - 2)"
    and "v \<le> MAX_VARINT"
proof -
  obtain b bs' where bs: "bs = b # bs'" using assms by (cases bs) auto
  then have n: "n = varint_needed b" and le: "n \<le> length bs"
    and v: "v = varint_value b (take (n - 1) bs')"
    using assms by (auto simp: Let_def split: if_splits)
  show n4: "n \<in> {1, 2, 4, 8}" using n varint_needed_cases by simp
  show "n \<le> length bs" by (rule le)
  show bound: "unat v < 2 ^ (8 * n - 2)"
    unfolding v using n4 le bs by (intro varint_value_bound) auto
  have "(2::nat) ^ (8 * n - 2) \<le> 2 ^ 62"
    using n4 by (intro power_increasing) auto
  with bound show "v \<le> MAX_VARINT"
    by (simp add: MAX_VARINT_def word_le_nat_alt)
qed

lemma varint_read_slice_Err: "varint_read_slice bs = Err e \<Longrightarrow> e = UnexpectedEof"
  by (cases bs) (auto simp: Let_def split: if_splits)

text \<open>The stream reader is the slice reader on the bytes of the stream.\<close>

lemma varint_read_conv:
  "varint_read s =
     (case varint_read_slice (pending s) of
        Inr (v, n) \<Rightarrow> Ok (v, s\<lparr>pending := drop n (pending s)\<rparr>)
      | Inl _ \<Rightarrow> Err (protocol_from_io (case ending s of AtEof \<Rightarrow> sync_eof | AtError e \<Rightarrow> e)))"
proof (cases "pending s")
  case Nil
  then show ?thesis by (simp add: varint_read_def read_exact_def)
next
  case (Cons b bs)
  have "varint_needed b \<in> {1, 2, 4, 8}" by (rule varint_needed_cases)
  then show ?thesis
    using Cons
    by (auto simp: varint_read_def read_exact_def Let_def drop_Cons' Suc_le_eq split: if_splits)
qed

lemma varint_size_least:
  assumes "unat v < 2 ^ (8 * n - 2)" and "n \<in> {1, 2, 4, 8}"
  shows "varint_size v \<le> n"
  using assms by (auto simp: varint_size_def word_le_nat_alt)

text \<open>\<open>varint::write(&mut buf[index..], value)\<close>, as the frame writers call it.\<close>

definition varint_write_at :: "nat \<Rightarrow> u64 \<Rightarrow> bytes \<Rightarrow> (ProtocolError + nat \<times> bytes) option" where
  "varint_write_at index v buf =
     (if index \<le> length buf
      then map_option (map_sum id (\<lambda>(n, tail). (n, take index buf @ tail)))
             (varint_write (drop index buf) v)
      else None)"

lemma varint_write_at_prefix [codec]:
  assumes "v \<le> MAX_VARINT" and "index = length pre" and "varint_size v \<le> length rest"
  shows "varint_write_at index v (pre @ rest) =
    Some (Ok (varint_size v, (pre @ varint_bytes v) @ drop (varint_size v) rest))"
  using assms by (simp add: varint_write_at_def varint_write_eq)

lemma varint_write_at_zero [codec]:
  assumes "v \<le> MAX_VARINT" and "varint_size v \<le> length rest"
  shows "varint_write_at 0 v rest =
    Some (Ok (varint_size v, varint_bytes v @ drop (varint_size v) rest))"
  using assms by (simp add: varint_write_at_def varint_write_eq)

lemma of_nat_le_MAX_VARINT: "n \<le> 2 ^ 62 - 1 \<Longrightarrow> (of_nat n :: u64) \<le> MAX_VARINT"
  by (simp add: MAX_VARINT_def word_le_nat_alt unat_of_nat)

lemma unat_of_nat_u64: "n < 2 ^ 64 \<Longrightarrow> unat (of_nat n :: u64) = n"
  by (simp add: unat_of_nat)

section \<open>Properties\<close>

text \<open>
  C3: Writing any value of at most 62 bits into a buffer with room succeeds, touches only
  the first \<open>len(value)\<close> bytes, and both readers return the value and stop right behind it.
\<close>

theorem varint_roundtrip:
  assumes "v \<le> MAX_VARINT" and "varint_len v = Some n" and "n \<le> length buf"
  shows "\<exists>buf'. varint_write buf v = Some (Ok (n, buf')) \<and> length buf' = length buf \<and>
    drop n buf' = drop n buf \<and>
    varint_read_slice buf' = Ok (v, n) \<and>
    varint_read (s\<lparr>pending := buf'\<rparr>) = Ok (v, s\<lparr>pending := drop n buf\<rparr>)"
proof -
  have "n = varint_size v"
    using assms by (simp add: varint_len_size)
  with assms show ?thesis
    by (simp add: varint_write_eq varint_read_slice_bytes varint_read_bytes)
qed

theorem varint_roundtrip_witness:
  "\<exists>buf'. varint_write [9, 9, 9] 300 = Some (Ok (2, buf')) \<and> length buf' = length [9, 9, 9 :: u8] \<and>
    drop 2 buf' = drop 2 [9, 9, 9] \<and> varint_read_slice buf' = Ok (300, 2) \<and>
    varint_read (\<lparr>pending = [], ending = AtEof\<rparr>\<lparr>pending := buf'\<rparr>) =
      Ok (300, \<lparr>pending = [], ending = AtEof\<rparr>\<lparr>pending := drop 2 [9, 9, 9]\<rparr>)"
  by (rule varint_roundtrip) (simp_all add: MAX_VARINT_def varint_len_def)

text \<open>
  No encoding that the slice reader accepts is shorter than what the writer emits, the
  decoded value always fits 62 bits, the reader never reads past the buffer, and the
  stream reader agrees with it on every input.
\<close>

lemma varint_read_canonical:
  assumes "varint_read_slice bs = Ok (v, n)"
  shows "v \<le> MAX_VARINT \<and> n \<le> length bs \<and> (\<exists>m \<le> n. varint_len v = Some m) \<and>
    varint_read \<lparr>pending = bs, ending = e\<rparr> = Ok (v, \<lparr>pending = drop n bs, ending = e\<rparr>)"
proof -
  note b = varint_read_slice_bounds[OF assms]
  have "varint_size v \<le> n" using b(1,3) by (intro varint_size_least)
  then show ?thesis
    using b(2,4) assms by (auto simp: varint_len_size varint_read_conv)
qed

end
