(* ===== verification/Protocol.thy ===== *)
theory Protocol
  imports Varint
begin

text \<open>
  The wire formats of \<open>core/src/protocol/proxy.rs\<close> and the padding of
  \<open>core/src/protocol/padding.rs\<close>: UDP messages in datagrams, TCP requests and responses on
  streams. The lemmas evaluate every reader on the output of the matching writer and show
  that the datagram parser is total on arbitrary input.
\<close>

section \<open>Padding\<close>

text \<open>
  The random number generator belongs to the rand crate. One call site's draws are a
  record of two functions; \<open>rng_ok\<close> is what the crate documents about them: the drawn
  length lies in the half-open range, the string has that many ASCII letters and digits.
\<close>

record rng =
  random_range :: "nat \<Rightarrow> nat \<Rightarrow> nat"
  sample_string :: "nat \<Rightarrow> string"

definition alphanumeric :: "char \<Rightarrow> bool" where
  "alphanumeric c \<longleftrightarrow>
     (let n = of_char c :: u8 in
      48 \<le> n \<and> n \<le> 57 \<or> 65 \<le> n \<and> n \<le> 90 \<or> 97 \<le> n \<and> n \<le> 122)"

definition rng_ok :: "rng \<Rightarrow> bool" where
  "rng_ok g \<longleftrightarrow>
     (\<forall>lo hi. lo < hi \<longrightarrow> lo \<le> random_range g lo hi \<and> random_range g lo hi < hi) \<and>
     (\<forall>n. length (sample_string g n) = n \<and> list_all alphanumeric (sample_string g n))"

record PaddingRange =
  pr_min :: nat
  pr_max :: nat

definition sample :: "rng \<Rightarrow> PaddingRange \<Rightarrow> string" where
  "sample g r = (let n = random_range g (pr_min r) (pr_max r) in sample_string g n)"

definition AUTH_REQUEST_PADDING :: PaddingRange where
  "AUTH_REQUEST_PADDING = \<lparr>pr_min = 256, pr_max = 2048\<rparr>"

definition AUTH_RESPONSE_PADDING :: PaddingRange where
  "AUTH_RESPONSE_PADDING = \<lparr>pr_min = 256, pr_max = 2048\<rparr>"

definition TCP_REQUEST_PADDING :: PaddingRange where
  "TCP_REQUEST_PADDING = \<lparr>pr_min = 64, pr_max = 512\<rparr>"

definition TCP_RESPONSE_PADDING :: PaddingRange where
  "TCP_RESPONSE_PADDING = \<lparr>pr_min = 128, pr_max = 1024\<rparr>"

definition auth_request_padding :: "rng \<Rightarrow> string" where
  "auth_request_padding g = sample g AUTH_REQUEST_PADDING"

definition auth_response_padding :: "rng \<Rightarrow> string" where
  "auth_response_padding g = sample g AUTH_RESPONSE_PADDING"

definition tcp_request_padding :: "rng \<Rightarrow> string" where
  "tcp_request_padding g = sample g TCP_REQUEST_PADDING"

definition tcp_response_padding :: "rng \<Rightarrow> string" where
  "tcp_response_padding g = sample g TCP_RESPONSE_PADDING"

section \<open>UDP messages\<close>

definition FRAME_TYPE_TCP_REQUEST :: u64 where
  "FRAME_TYPE_TCP_REQUEST = 0x401"

definition MAX_ADDRESS_LENGTH :: nat where
  "MAX_ADDRESS_LENGTH = 2048"

definition MAX_MESSAGE_LENGTH :: nat where
  "MAX_MESSAGE_LENGTH = 2048"

definition MAX_PADDING_LENGTH :: nat where
  "MAX_PADDING_LENGTH = 4096"

definition MAX_DATAGRAM_FRAME_SIZE :: nat where
  "MAX_DATAGRAM_FRAME_SIZE = 1200"

definition MAX_UDP_SIZE :: nat where
  "MAX_UDP_SIZE = 4096"

record UDPMessage =
  m_session_id :: u32
  m_packet_id :: u16
  m_frag_id :: u8
  m_frag_count :: u8
  m_addr :: string
  m_data :: bytes

text \<open>\<^const>\<open>None\<close> is the assertion of \<open>varint::len\<close>.\<close>

definition header_size :: "UDPMessage \<Rightarrow> nat option" where
  "header_size m = do {
     n \<leftarrow> varint_len (of_nat (length (m_addr m)));
     Some (4 + 2 + 1 + 1 + n + length (m_addr m))
   }"

definition message_size :: "UDPMessage \<Rightarrow> nat option" where
  "message_size m = do {
     h \<leftarrow> header_size m;
     Some (h + length (m_data m))
   }"

text \<open>The returned \<open>Option<usize>\<close> and the updated buffer; the outer \<^const>\<open>None\<close> is a panic.\<close>

definition serialize :: "UDPMessage \<Rightarrow> bytes \<Rightarrow> (nat option \<times> bytes) option" where
  "serialize m buf = do {
     size \<leftarrow> message_size m;
     if length buf < size then Some (None, buf)
     else do {
       buf \<leftarrow> copy_at 0 (be_bytes 4 (m_session_id m)) buf;
       buf \<leftarrow> copy_at 4 (be_bytes 2 (m_packet_id m)) buf;
       buf \<leftarrow> copy_at 6 [m_frag_id m] buf;
       buf \<leftarrow> copy_at 7 [m_frag_count m] buf;
       res \<leftarrow> varint_write_at 8 (of_nat (length (m_addr m))) buf;
       (case res of
          Inl _ \<Rightarrow> Some (None, buf)
        | Inr (n, buf) \<Rightarrow> do {
            let index = 8 + n;
            buf \<leftarrow> copy_at index (as_bytes (m_addr m)) buf;
            let index = index + length (m_addr m);
            buf \<leftarrow> copy_at index (m_data m) buf;
            let index = index + length (m_data m);
            Some (Some index, buf)
          })
     }
   }"

definition parse_udp_message :: "bytes \<Rightarrow> (ProtocolError + UDPMessage) option" where
  "parse_udp_message buf =
     (if length buf < 8 then Some (Err UnexpectedEof)
      else do {
        sid \<leftarrow> slice 0 4 buf;
        pid \<leftarrow> slice 4 6 buf;
        let fid = buf ! 6;
        let fcount = buf ! 7;
        chain (Some (varint_read_slice (drop 8 buf))) (\<lambda>(addr_len, addr_len_size).
        if addr_len = 0 \<or> addr_len > of_nat MAX_MESSAGE_LENGTH
        then Some (Err InvalidAddressLength)
        else do {
          let addr_start = 8 + addr_len_size;
          let addr_end = addr_start + unat addr_len;
          if length buf < addr_end then Some (Err InvalidMessageLength)
          else do {
            a \<leftarrow> slice addr_start addr_end buf;
            d \<leftarrow> slice addr_end (length buf) buf;
            Some (Ok \<lparr>m_session_id = be_word sid, m_packet_id = be_word pid, m_frag_id = fid,
                      m_frag_count = fcount, m_addr = from_utf8_lossy a, m_data = d\<rparr>)
          }
        })
      })"

section \<open>TCP requests and responses\<close>

text \<open>The reads of the standard library, with the conversion of \<open>?\<close>.\<close>

definition sync_read :: "nat \<Rightarrow> source \<Rightarrow> ProtocolError + (bytes \<times> source)" where
  "sync_read n s = map_err protocol_from_io (read_exact sync_eof n s)"

definition read_tcp_request :: "source \<Rightarrow> ProtocolError + (string \<times> source)" where
  "read_tcp_request s =
     and_then (varint_read s) (\<lambda>(addr_len, s).
     let addr_len = unat addr_len in
     if addr_len = 0 \<or> addr_len > MAX_ADDRESS_LENGTH then Err InvalidAddressLength
     else
     and_then (sync_read addr_len s) (\<lambda>(a, s).
     and_then (varint_read s) (\<lambda>(padding_len, s).
     let padding_len = unat padding_len in
     if padding_len > MAX_PADDING_LENGTH then Err InvalidPaddingLength
     else
     and_then (if padding_len > 0 then sync_read padding_len s else Ok ([], s)) (\<lambda>(discard, s).
     Ok (from_utf8_lossy a, s)))))"

definition tcp_request_frame :: "string \<Rightarrow> string \<Rightarrow> (ProtocolError + bytes) option" where
  "tcp_request_frame padding addr = do {
     let addr_len = length addr;
     let padding_len = length padding;
     n1 \<leftarrow> varint_len FRAME_TYPE_TCP_REQUEST;
     n2 \<leftarrow> varint_len (of_nat addr_len);
     n3 \<leftarrow> varint_len (of_nat padding_len);
     let buf = replicate (n1 + n2 + addr_len + n3 + padding_len) 0;
     chain (varint_write_at 0 FRAME_TYPE_TCP_REQUEST buf) (\<lambda>(i1, buf).
     chain (varint_write_at i1 (of_nat addr_len) buf) (\<lambda>(i2, buf). do {
       buf \<leftarrow> copy_at (i1 + i2) (as_bytes addr) buf;
       chain (varint_write_at (i1 + i2 + addr_len) (of_nat padding_len) buf) (\<lambda>(i3, buf). do {
         buf \<leftarrow> copy_at (i1 + i2 + addr_len + i3) (as_bytes padding) buf;
         Some (Ok buf)
       })
     }))
   }"

text \<open>\<open>writer.write_all(&buf)?\<close>, run once the frame is built.\<close>

definition send_frame ::
    "(ProtocolError + bytes) option \<Rightarrow> sink \<Rightarrow> ((ProtocolError + unit) \<times> sink) option" where
  "send_frame frame w =
     (case frame of
        None \<Rightarrow> None
      | Some (Inl e) \<Rightarrow> Some (Err e, w)
      | Some (Inr buf) \<Rightarrow>
          (case write_all buf w of (r, w') \<Rightarrow> Some (map_err protocol_from_io r, w')))"

definition write_tcp_request ::
    "rng \<Rightarrow> sink \<Rightarrow> string \<Rightarrow> ((ProtocolError + unit) \<times> sink) option" where
  "write_tcp_request g w addr = send_frame (tcp_request_frame (tcp_request_padding g) addr) w"

definition read_tcp_response :: "source \<Rightarrow> ProtocolError + ((bool \<times> string) \<times> source)" where
  "read_tcp_response s =
     and_then (sync_read 1 s) (\<lambda>(status, s).
     and_then (varint_read s) (\<lambda>(message_len, s).
     let message_len = unat message_len in
     if message_len > MAX_MESSAGE_LENGTH then Err InvalidMessageLength
     else
     and_then (if message_len > 0 then sync_read message_len s else Ok ([], s)) (\<lambda>(message, s).
     and_then (varint_read s) (\<lambda>(padding_len, s).
     let padding_len = unat padding_len in
     if padding_len > MAX_PADDING_LENGTH then Err InvalidPaddingLength
     else
     and_then (if padding_len > 0 then sync_read padding_len s else Ok ([], s)) (\<lambda>(discard, s).
     Ok ((status ! 0 = 0, from_utf8_lossy message), s))))))"

definition tcp_response_frame :: "string \<Rightarrow> bool \<Rightarrow> string \<Rightarrow> (ProtocolError + bytes) option" where
  "tcp_response_frame padding ok message = do {
     let message_len = length message;
     let padding_len = length padding;
     n1 \<leftarrow> varint_len (of_nat message_len);
     n2 \<leftarrow> varint_len (of_nat padding_len);
     let buf = replicate (1 + n1 + message_len + n2 + padding_len) 0;
     buf \<leftarrow> copy_at 0 [if ok then 0 else 1] buf;
     chain (varint_write_at 1 (of_nat message_len) buf) (\<lambda>(i1, buf). do {
       buf \<leftarrow> copy_at (1 + i1) (as_bytes message) buf;
       chain (varint_write_at (1 + i1 + message_len) (of_nat padding_len) buf) (\<lambda>(i2, buf). do {
         buf \<leftarrow> copy_at (1 + i1 + message_len + i2) (as_bytes padding) buf;
         Some (Ok buf)
       })
     })
   }"

definition write_tcp_response ::
    "rng \<Rightarrow> sink \<Rightarrow> bool \<Rightarrow> string \<Rightarrow> ((ProtocolError + unit) \<times> sink) option" where
  "write_tcp_response g w ok message =
     send_frame (tcp_response_frame (tcp_response_padding g) ok message) w"

section \<open>Padding lengths\<close>

lemma sample_bounds:
  assumes "rng_ok g" and "pr_min r < pr_max r"
  shows "pr_min r \<le> length (sample g r)" and "length (sample g r) < pr_max r"
    and "list_all alphanumeric (sample g r)"
  using assms by (simp_all add: rng_ok_def sample_def)

lemma str_ok_alphanumeric: "list_all alphanumeric s \<Longrightarrow> str_ok s"
  unfolding str_ok_def as_bytes_def
  by (rule utf8_valid_ascii) (auto simp: list_all_iff alphanumeric_def Let_def word_less_nat_alt word_le_nat_alt)

lemma tcp_padding_bounds:
  assumes "rng_ok g"
  shows "length (tcp_request_padding g) < 512" and "length (tcp_response_padding g) < 1024"
  using sample_bounds(2)[OF assms, of TCP_REQUEST_PADDING]
    sample_bounds(2)[OF assms, of TCP_RESPONSE_PADDING]
  by (simp_all add: tcp_request_padding_def tcp_response_padding_def
      TCP_REQUEST_PADDING_def TCP_RESPONSE_PADDING_def)

section \<open>The datagram format\<close>

definition udp_wire :: "UDPMessage \<Rightarrow> bytes" where
  "udp_wire m =
     be_bytes 4 (m_session_id m) @ be_bytes 2 (m_packet_id m) @ [m_frag_id m, m_frag_count m] @
     varint_bytes (of_nat (length (m_addr m))) @ as_bytes (m_addr m) @ m_data m"

definition addr_fits :: "string \<Rightarrow> bool" where
  "addr_fits a \<longleftrightarrow> 0 < length a \<and> length a \<le> MAX_ADDRESS_LENGTH"

lemma addr_fits_varint:
  "addr_fits a \<Longrightarrow> of_nat (length a) \<le> MAX_VARINT"
  by (rule of_nat_le_MAX_VARINT) (simp add: addr_fits_def MAX_ADDRESS_LENGTH_def)

lemma message_size_wire:
  "of_nat (length (m_addr m)) \<le> MAX_VARINT \<Longrightarrow> message_size m = Some (length (udp_wire m))"
  by (simp add: message_size_def header_size_def varint_len_size udp_wire_def)

lemma length_udp_wire:
  "length (udp_wire m) =
     8 + varint_size (of_nat (length (m_addr m))) + length (m_addr m) + length (m_data m)"
  by (simp add: udp_wire_def)

lemma serialize_wire:
  assumes "of_nat (length (m_addr m)) \<le> MAX_VARINT" and "length (udp_wire m) \<le> length buf"
  shows "serialize m buf = Some (Some (length (udp_wire m)), udp_wire m @ drop (length (udp_wire m)) buf)"
proof -
  have "serialize m buf = Some (Some (length (udp_wire m)),
      ((((((be_bytes 4 (m_session_id m) @ be_bytes 2 (m_packet_id m)) @ [m_frag_id m]) @
        [m_frag_count m]) @ varint_bytes (of_nat (length (m_addr m)))) @ as_bytes (m_addr m)) @
        m_data m) @ drop (length (udp_wire m)) buf)"
    using assms
    by (simp add: serialize_def message_size_wire length_udp_wire codec add.commute add.left_commute
        del: append_assoc)
  then show ?thesis by (simp add: udp_wire_def)
qed

lemma serialize_too_small:
  assumes "of_nat (length (m_addr m)) \<le> MAX_VARINT" and "length buf < length (udp_wire m)"
  shows "serialize m buf = Some (None, buf)"
  using assms by (simp add: serialize_def message_size_wire)

lemma slice_prefix: "length pre = n \<Longrightarrow> slice 0 n (pre @ rest) = Some pre"
  by (simp add: slice_def)

lemma slice_behind:
  "length pre = i \<Longrightarrow> length mid = j - i \<Longrightarrow> i \<le> j \<Longrightarrow> slice i j (pre @ mid @ rest) = Some mid"
  by (simp add: slice_def)

lemma unat_length_addr: "addr_fits a \<Longrightarrow> unat (of_nat (length a) :: u64) = length a"
  by (rule unat_of_nat_u64) (simp add: addr_fits_def MAX_ADDRESS_LENGTH_def)

lemma addr_fits_accepted:
  assumes "addr_fits a"
  shows "\<not> ((of_nat (length a) :: u64) = 0 \<or> of_nat MAX_MESSAGE_LENGTH < (of_nat (length a) :: u64))"
  using assms unat_length_addr[OF assms]
  by (auto simp: addr_fits_def MAX_ADDRESS_LENGTH_def MAX_MESSAGE_LENGTH_def word_less_nat_alt
      word_unat_eq_iff simp del: of_nat_0 of_nat_eq_0_iff)

text \<open>The parser reads back what the serializer wrote.\<close>

lemma parse_wire:
  assumes "addr_fits (m_addr m)" and "str_ok (m_addr m)"
  shows "parse_udp_message (udp_wire m) = Some (Ok m)"
proof -
  let ?n = "of_nat (length (m_addr m)) :: u64"
  let ?head = "be_bytes 4 (m_session_id m) @ be_bytes 2 (m_packet_id m) @ [m_frag_id m, m_frag_count m]"
  let ?tail = "as_bytes (m_addr m) @ m_data m"
  have wire: "udp_wire m = ?head @ varint_bytes ?n @ ?tail"
    by (simp add: udp_wire_def)
  have "slice 0 4 (udp_wire m) = Some (be_bytes 4 (m_session_id m))"
    unfolding udp_wire_def by (rule slice_prefix) simp
  moreover have "slice 4 6 (udp_wire m) = Some (be_bytes 2 (m_packet_id m))"
    unfolding udp_wire_def by (rule slice_behind) simp_all
  moreover have "udp_wire m ! 6 = m_frag_id m" and "udp_wire m ! 7 = m_frag_count m"
    unfolding udp_wire_def by (simp_all add: nth_append)
  moreover have "varint_read_slice (drop 8 (udp_wire m)) = Ok (?n, varint_size ?n)"
    unfolding wire using assms(1) by (simp add: varint_read_slice_bytes addr_fits_varint)
  moreover have "slice (8 + varint_size ?n) (8 + varint_size ?n + length (m_addr m)) (udp_wire m) =
      Some (as_bytes (m_addr m))"
    using slice_behind[of "?head @ varint_bytes ?n" "8 + varint_size ?n" "as_bytes (m_addr m)"
        "8 + varint_size ?n + length (m_addr m)" "m_data m"]
    unfolding wire by simp
  moreover have "slice (8 + varint_size ?n + length (m_addr m)) (length (udp_wire m)) (udp_wire m) =
      Some (m_data m)"
    using slice_behind[of "?head @ varint_bytes ?n @ as_bytes (m_addr m)"
        "8 + varint_size ?n + length (m_addr m)" "m_data m" "length (udp_wire m)" "[]"]
    unfolding wire by simp
  moreover have "8 + varint_size ?n + length (m_addr m) \<le> length (udp_wire m)"
    by (simp add: length_udp_wire)
  ultimately show ?thesis
    using addr_fits_accepted[OF assms(1)] assms
    by (simp add: parse_udp_message_def Let_def unat_length_addr be_word_be_bytes)
qed

lemma parse_udp_message_total: "\<exists>r. parse_udp_message buf = Some r"
proof (cases "length buf < 8")
  case True
  then show ?thesis by (simp add: parse_udp_message_def)
next
  case False
  then have "\<exists>x. slice 0 4 buf = Some x" and "\<exists>x. slice 4 6 buf = Some x"
    by (simp_all add: slice_def)
  moreover have "slice i (length buf) buf = Some (drop i buf)" if "i \<le> length buf" for i
    using that by (simp add: slice_def)
  moreover have "\<exists>x. slice i (i + n) buf = Some x" if "i + n \<le> length buf" for i n
    using that by (simp add: slice_def)
  ultimately show ?thesis
    using False
    by (cases "varint_read_slice (drop 8 buf)") (fastforce simp: parse_udp_message_def Let_def not_less)+
qed

lemma utf8_repair_length: "length (utf8_repair bs) \<le> 3 * length bs"
proof (induction bs rule: utf8_repair.induct)
  case 1
  then show ?case by simp
next
  case (2 b bs)
  obtain n ok where step: "utf8_step b bs = (n, ok)" by fastforce
  note IH = "2.IH"[OF step[symmetric]]
  have "length (if ok then b # take (n - 1) bs else replacement_char) \<le> 3 * n"
    using utf8_step_bounds[OF step] by (auto simp: replacement_char_def)
  with IH utf8_step_bounds[OF step] step show ?case by simp
qed

text \<open>What an accepted datagram guarantees to the code behind the parser.\<close>

lemma parse_udp_message_Ok:
  assumes "parse_udp_message buf = Some (Ok m)"
  shows "str_ok (m_addr m)" and "m_addr m \<noteq> []" and "length (m_addr m) \<le> 3 * MAX_MESSAGE_LENGTH"
    and "length (m_data m) + 10 \<le> length buf" and "m_data m = drop (length buf - length (m_data m)) buf"
proof -
  obtain n k a d where vr: "varint_read_slice (drop 8 buf) = Ok (n, k)" and n0: "n \<noteq> 0"
    and n1: "\<not> of_nat MAX_MESSAGE_LENGTH < n"
    and a: "slice (8 + k) (8 + k + unat n) buf = Some a"
    and d: "slice (8 + k + unat n) (length buf) buf = Some d"
    and m: "m_addr m = from_utf8_lossy a" "m_data m = d"
    using assms
    by (auto simp: parse_udp_message_def Let_def split: if_splits sum.splits prod.splits bind_splits
        elim!: chain.elims)
  have n: "0 < unat n" "unat n \<le> 2048"
    using n0 n1 by (auto simp: word_less_nat_alt MAX_MESSAGE_LENGTH_def unat_gt_0)
  have len: "length a = unat n" "8 + k + unat n \<le> length buf" "d = drop (8 + k + unat n) buf"
    using a d by (auto simp: slice_def split: if_splits)
  show "str_ok (m_addr m)" by (simp add: m)
  have "utf8_repair a \<noteq> []"
    using len(1) n(1) by (cases a) (auto split: prod.splits simp: replacement_char_def)
  then show "m_addr m \<noteq> []"
    unfolding m from_utf8_lossy_def by (metis length_0_conv length_str_of)
  show "length (m_addr m) \<le> 3 * MAX_MESSAGE_LENGTH"
    using utf8_repair_length[of a] len(1) n(2)
    unfolding m from_utf8_lossy_def by (simp add: MAX_MESSAGE_LENGTH_def)
  have "1 \<le> k" using varint_read_slice_bounds(1)[OF vr] by auto
  then show "length (m_data m) + 10 \<le> length buf"
    using len(2,3) n(1) m(2) by simp
  show "m_data m = drop (length buf - length (m_data m)) buf"
    using len(2,3) m(2) by simp
qed

section \<open>The stream formats\<close>

definition padded :: "string \<Rightarrow> string \<Rightarrow> bytes" where
  "padded body padding =
     varint_bytes (of_nat (length body)) @ as_bytes body @
     varint_bytes (of_nat (length padding)) @ as_bytes padding"

lemma FRAME_TYPE_fits [simp]: "FRAME_TYPE_TCP_REQUEST \<le> MAX_VARINT"
  by (simp add: FRAME_TYPE_TCP_REQUEST_def MAX_VARINT_def)

lemma tcp_request_frame_eq:
  assumes "of_nat (length addr) \<le> MAX_VARINT" and "of_nat (length padding) \<le> MAX_VARINT"
  shows "tcp_request_frame padding addr =
    Some (Ok (varint_bytes FRAME_TYPE_TCP_REQUEST @ padded addr padding))"
proof -
  have "tcp_request_frame padding addr =
      Some (Ok (((((varint_bytes FRAME_TYPE_TCP_REQUEST @ varint_bytes (of_nat (length addr))) @
        as_bytes addr) @ varint_bytes (of_nat (length padding))) @ as_bytes padding) @ []))"
    using assms
    by (simp add: tcp_request_frame_def varint_len_size codec varint_write_at_zero Let_def
        del: append_assoc append_Nil2)
  then show ?thesis by (simp add: padded_def)
qed

lemma tcp_response_frame_eq:
  assumes "of_nat (length message) \<le> MAX_VARINT" and "of_nat (length padding) \<le> MAX_VARINT"
  shows "tcp_response_frame padding ok message =
    Some (Ok ((if ok then 0 else 1) # padded message padding))"
proof -
  have "tcp_response_frame padding ok message =
      Some (Ok ((((([if ok then 0 else 1] @ varint_bytes (of_nat (length message))) @
        as_bytes message) @ varint_bytes (of_nat (length padding))) @ as_bytes padding) @ []))"
    using assms
    by (simp add: tcp_response_frame_def varint_len_size codec Let_def
        del: append_assoc append_Nil2 append_Cons replicate_Suc)
  then show ?thesis by (simp add: padded_def)
qed

lemma sync_read_front [codec]:
  "length bs = n \<Longrightarrow> sync_read n (s\<lparr>pending := bs @ rest\<rparr>) = Ok (bs, s\<lparr>pending := rest\<rparr>)"
  by (simp add: sync_read_def read_exact_front)

lemma sync_read_Cons [codec]:
  "sync_read (Suc 0) (s\<lparr>pending := b # rest\<rparr>) = Ok ([b], s\<lparr>pending := rest\<rparr>)"
  by (simp add: sync_read_def read_exact_Cons)

lemma small_varint:
  "n \<le> 4096 \<Longrightarrow> (of_nat n :: u64) \<le> MAX_VARINT"
  "n \<le> 4096 \<Longrightarrow> unat (of_nat n :: u64) = n"
  by (simp_all add: of_nat_le_MAX_VARINT unat_of_nat_u64)

lemma read_tcp_request_padded:
  assumes "addr_fits addr" and "str_ok addr" and "length padding \<le> MAX_PADDING_LENGTH"
  shows "read_tcp_request (s\<lparr>pending := padded addr padding @ rest\<rparr>) = Ok (addr, s\<lparr>pending := rest\<rparr>)"
  using assms
  by (auto simp: read_tcp_request_def padded_def codec small_varint Let_def addr_fits_def
      MAX_ADDRESS_LENGTH_def MAX_PADDING_LENGTH_def)

lemma read_tcp_response_padded:
  assumes "length message \<le> MAX_MESSAGE_LENGTH" and "str_ok message"
    and "length padding \<le> MAX_PADDING_LENGTH"
  shows "read_tcp_response (s\<lparr>pending := (if ok then 0 else 1) # padded message padding @ rest\<rparr>) =
    Ok ((ok, message), s\<lparr>pending := rest\<rparr>)"
  using assms
  by (auto simp: read_tcp_response_def padded_def codec small_varint Let_def
      MAX_MESSAGE_LENGTH_def MAX_PADDING_LENGTH_def)

section \<open>Properties\<close>

text \<open>
  C4: A UDP message with a well-formed, non-empty address of at most 2048 bytes serializes
  into any buffer of its computed size, without panicking and without touching the bytes
  behind it, and the peer's parser returns exactly the message.
\<close>

theorem udp_message_roundtrip:
  assumes "addr_fits (m_addr m)" and "str_ok (m_addr m)"
    and "message_size m = Some n" and "n \<le> length buf"
  shows "\<exists>buf'. serialize m buf = Some (Some n, buf') \<and> length buf' = length buf \<and>
    drop n buf' = drop n buf \<and> parse_udp_message (take n buf') = Some (Ok m)"
proof -
  note fits = addr_fits_varint[OF assms(1)]
  have n: "n = length (udp_wire m)"
    using assms(3) message_size_wire[OF fits] by simp
  show ?thesis
    using serialize_wire[OF fits] parse_wire[OF assms(1,2)] assms(4) unfolding n by auto
qed

theorem udp_message_roundtrip_witness:
  "\<exists>buf'. serialize \<lparr>m_session_id = 7, m_packet_id = 9, m_frag_id = 0, m_frag_count = 1,
      m_addr = ''a:1'', m_data = [1, 2]\<rparr> (replicate 16 0) = Some (Some 14, buf') \<and>
    length buf' = length (replicate 16 (0 :: u8)) \<and> drop 14 buf' = drop 14 (replicate 16 0) \<and>
    parse_udp_message (take 14 buf') =
      Some (Ok \<lparr>m_session_id = 7, m_packet_id = 9, m_frag_id = 0, m_frag_count = 1,
        m_addr = ''a:1'', m_data = [1, 2]\<rparr>)"
  by (rule udp_message_roundtrip) code_simp+

text \<open>
  The datagram parser never panics, whatever the peer sends. It fails with one of three
  errors, or returns a message whose address is well-formed UTF-8, non-empty and bounded,
  and whose payload is a suffix of the datagram that leaves room for the header.
\<close>

lemma parse_udp_message_safe:
  "\<exists>r. parse_udp_message buf = Some r \<and>
     (case r of
        Inl e \<Rightarrow> e \<in> {UnexpectedEof, InvalidAddressLength, InvalidMessageLength}
      | Inr m \<Rightarrow> str_ok (m_addr m) \<and> m_addr m \<noteq> [] \<and> length (m_addr m) \<le> 3 * MAX_MESSAGE_LENGTH \<and>
          length (m_data m) + 10 \<le> length buf \<and> m_data m = drop (length buf - length (m_data m)) buf)"
proof -
  obtain r where r: "parse_udp_message buf = Some r"
    using parse_udp_message_total by blast
  have "e \<in> {UnexpectedEof, InvalidAddressLength, InvalidMessageLength}" if "r = Err e" for e
    using r that unfolding parse_udp_message_def
    by (auto simp: Let_def varint_read_slice_Err split: if_splits sum.splits prod.splits bind_splits
        elim!: chain.elims)
  with r show ?thesis by (auto split: sum.split dest: parse_udp_message_Ok)
qed

end
