(* ===== verification/Runtime_IO.thy ===== *)
theory Runtime_IO
  imports Protocol
begin

text \<open>
  The asynchronous readers and writers of \<open>core/src/runtime_io.rs\<close>, which the client and the
  server run on QUIC streams. They are compared with the blocking readers of the protocol
  module: the same bytes give the same result, and errors differ only by the type they are
  reported in.
\<close>

section \<open>The code\<close>

definition async_read :: "nat \<Rightarrow> source \<Rightarrow> CoreError + (bytes \<times> source)" where
  "async_read n s = map_err core_from_io (read_exact async_eof n s)"

definition read_varint :: "source \<Rightarrow> CoreError + (u64 \<times> source)" where
  "read_varint s =
     and_then (async_read 1 s) (\<lambda>(first, s).
     let needed = varint_needed (first ! 0) in
     and_then (if needed > 1 then async_read (needed - 1) s else Ok ([], s)) (\<lambda>(rest, s).
     Ok (varint_value (first ! 0) rest, s)))"

function discard_exact :: "nat \<Rightarrow> source \<Rightarrow> CoreError + (unit \<times> source)" where
  "discard_exact remaining s =
     (if remaining > 0
      then let chunk = min remaining 1024 in
           and_then (async_read chunk s) (\<lambda>(_, s). discard_exact (remaining - chunk) s)
      else Ok ((), s))"
  by auto
termination
  by (relation "measure fst") auto

definition async_read_tcp_request :: "source \<Rightarrow> CoreError + (string \<times> source)" where
  "async_read_tcp_request s =
     and_then (read_varint s) (\<lambda>(addr_len, s).
     let addr_len = unat addr_len in
     if addr_len = 0 \<or> addr_len > MAX_ADDRESS_LENGTH
     then Err (Protocol InvalidAddressLength)
     else
     and_then (async_read addr_len s) (\<lambda>(addr_buf, s).
     and_then (read_varint s) (\<lambda>(padding_len, s).
     let padding_len = unat padding_len in
     if padding_len > MAX_PADDING_LENGTH then Err (Protocol InvalidPaddingLength)
     else
     and_then (discard_exact padding_len s) (\<lambda>(_, s).
     Ok (from_utf8_lossy addr_buf, s)))))"

definition read_framed_tcp_request :: "source \<Rightarrow> CoreError + (string \<times> source)" where
  "read_framed_tcp_request s =
     and_then (read_varint s) (\<lambda>(frame_type, s).
     if frame_type \<noteq> FRAME_TYPE_TCP_REQUEST then Err (UnexpectedFrameType frame_type)
     else async_read_tcp_request s)"

text \<open>Encode into a fresh vector, then hand the vector to the stream.\<close>

definition send_encoded ::
    "((ProtocolError + unit) \<times> sink) option \<Rightarrow> sink \<Rightarrow> ((CoreError + unit) \<times> sink) option" where
  "send_encoded encoded w =
     (case encoded of
        None \<Rightarrow> None
      | Some (Inl e, _) \<Rightarrow> Some (Err (Protocol e), w)
      | Some (Inr _, vec) \<Rightarrow>
          (case write_all (written vec) w of (r, w') \<Rightarrow> Some (map_err core_from_io r, w')))"

definition async_write_tcp_request ::
    "rng \<Rightarrow> sink \<Rightarrow> string \<Rightarrow> ((CoreError + unit) \<times> sink) option" where
  "async_write_tcp_request g w addr = send_encoded (write_tcp_request g new_vec addr) w"

definition async_read_tcp_response :: "source \<Rightarrow> CoreError + ((bool \<times> string) \<times> source)" where
  "async_read_tcp_response s =
     and_then (async_read 1 s) (\<lambda>(status, s).
     and_then (read_varint s) (\<lambda>(msg_len, s).
     let msg_len = unat msg_len in
     if msg_len > MAX_MESSAGE_LENGTH then Err (Protocol InvalidMessageLength)
     else
     and_then (if msg_len > 0 then async_read msg_len s else Ok ([], s)) (\<lambda>(message, s).
     and_then (read_varint s) (\<lambda>(padding_len, s).
     let padding_len = unat padding_len in
     if padding_len > MAX_PADDING_LENGTH then Err (Protocol InvalidPaddingLength)
     else
     and_then (discard_exact padding_len s) (\<lambda>(_, s).
     Ok ((status ! 0 = 0, from_utf8_lossy message), s))))))"

definition async_write_tcp_response ::
    "rng \<Rightarrow> sink \<Rightarrow> bool \<Rightarrow> string \<Rightarrow> ((CoreError + unit) \<times> sink) option" where
  "async_write_tcp_response g w ok message = send_encoded (write_tcp_response g new_vec ok message) w"

declare discard_exact.simps [simp del]

section \<open>Agreement with the blocking readers\<close>

text \<open>The error the asynchronous side reports when the blocking side reports \<open>e\<close>.\<close>

definition core_error_of :: "stream_end \<Rightarrow> ProtocolError \<Rightarrow> CoreError" where
  "core_error_of en e =
     (if e \<in> {InvalidAddressLength, InvalidMessageLength, InvalidPaddingLength} then Protocol e
      else Transport (io_message (case en of AtEof \<Rightarrow> async_eof | AtError x \<Rightarrow> x)))"

lemma core_error_of_length [simp]:
  "core_error_of en InvalidAddressLength = Protocol InvalidAddressLength"
  "core_error_of en InvalidMessageLength = Protocol InvalidMessageLength"
  "core_error_of en InvalidPaddingLength = Protocol InvalidPaddingLength"
  by (simp_all add: core_error_of_def)

lemma core_error_of_io [simp]:
  "core_error_of en (protocol_from_io e) = Transport (io_message (case en of AtEof \<Rightarrow> async_eof | AtError x \<Rightarrow> x))"
  by (simp add: core_error_of_def protocol_from_io_def)

lemma read_exact_ending: "read_exact eof n s = Ok (bs, s') \<Longrightarrow> ending s' = ending s"
  by (auto simp: read_exact_Ok_iff)

lemma sync_read_ending: "sync_read n s = Ok (bs, s') \<Longrightarrow> ending s' = ending s"
  by (auto simp: sync_read_def dest: read_exact_ending)

lemma varint_read_ending: "varint_read s = Ok (v, s') \<Longrightarrow> ending s' = ending s"
  by (auto simp: varint_read_conv split: sum.splits prod.splits)

lemma async_read_conv: "async_read n s = map_err (core_error_of (ending s)) (sync_read n s)"
  by (auto simp: async_read_def sync_read_def read_exact_def core_from_io_def split: stream_end.split)

text \<open>Composing two agreeing steps keeps the agreement.\<close>

lemma map_err_step:
  assumes "\<And>x s'. m = Ok (x, s') \<Longrightarrow> ending s' = en"
    and "\<And>x s'. ending s' = en \<Longrightarrow> map_err (core_error_of en) (f (x, s')) = g (x, s')"
  shows "map_err (core_error_of en) (and_then m f) = and_then (map_err (core_error_of en) m) g"
  using assms by (cases m) auto

lemma read_varint_conv: "read_varint s = map_err (core_error_of (ending s)) (varint_read s)"
  by (auto simp: read_varint_def varint_read_def async_read_def read_exact_def Let_def
      core_from_io_def split: stream_end.split)

lemma async_read_split:
  "c \<le> length (pending s) \<Longrightarrow>
     and_then (async_read (c + m) s) (\<lambda>(_, s). Ok ((), s)) =
     and_then (async_read m (s\<lparr>pending := drop c (pending s)\<rparr>)) (\<lambda>(_, s). Ok ((), s))"
  by (auto simp: async_read_def read_exact_def add.commute)

lemma discard_exact_conv:
  "discard_exact n s = and_then (async_read n s) (\<lambda>(_, s). Ok ((), s))"
proof (induction n s rule: discard_exact.induct)
  case (1 n s)
  show ?case
  proof (cases "n > 0 \<and> min n 1024 \<le> length (pending s)")
    case True
    let ?c = "min n 1024" and ?s = "s\<lparr>pending := drop (min n 1024) (pending s)\<rparr>"
    have "async_read ?c s = Ok (take ?c (pending s), ?s)"
      using True by (simp add: async_read_def read_exact_def)
    then have "discard_exact n s = and_then (async_read (n - ?c) ?s) (\<lambda>(_, s). Ok ((), s))"
      using True "1.IH"[of ?c] by (simp add: discard_exact.simps[of n] Let_def)
    also have "\<dots> = and_then (async_read (?c + (n - ?c)) s) (\<lambda>(_, s). Ok ((), s))"
      using True async_read_split[of ?c s "n - ?c"] by simp
    finally show ?thesis by simp
  next
    case False
    then show ?thesis
      by (auto simp: discard_exact.simps[of n] async_read_def read_exact_def Let_def)
  qed
qed

lemma read_guarded:
  "(if 0 < n then sync_read n s else Ok ([], s)) = sync_read n s"
  "(if 0 < n then async_read n s else Ok ([], s)) = async_read n s"
  by (simp_all add: sync_read_def async_read_def read_exact_def)

lemmas read_convs = read_varint_conv async_read_conv discard_exact_conv read_guarded
lemma discard_tail:
  "ending s = en \<Longrightarrow> map_err (core_error_of en) (and_then (sync_read n s) (\<lambda>(_, s). Ok (x, s))) =
     and_then (discard_exact n s) (\<lambda>(_, s). Ok (x, s))"
  by (cases "sync_read n s") (auto simp: read_convs)

lemma async_read_tcp_request_conv:
  "async_read_tcp_request s = map_err (core_error_of (ending s)) (read_tcp_request s)"
  unfolding async_read_tcp_request_def read_tcp_request_def read_varint_conv[of s] read_guarded
  by (rule sym, intro map_err_step)
    (auto simp: Let_def read_varint_conv async_read_conv discard_tail
        intro!: map_err_step split: prod.splits,
      (metis sync_read_ending varint_read_ending)+)

lemma async_read_tcp_response_conv:
  "async_read_tcp_response s = map_err (core_error_of (ending s)) (read_tcp_response s)"
  unfolding async_read_tcp_response_def read_tcp_response_def async_read_conv[of _ s] read_guarded
  by (rule sym, intro map_err_step)
    (auto simp: Let_def read_varint_conv async_read_conv discard_tail
        intro!: map_err_step split: prod.splits,
      (metis sync_read_ending varint_read_ending)+)

section \<open>Writers\<close>

lemma write_tcp_request_vec:
  assumes "rng_ok g" and "addr_fits addr"
  shows "\<exists>padding. length padding < 512 \<and>
    write_tcp_request g new_vec addr =
      Some (Ok (), \<lparr>written = varint_bytes FRAME_TYPE_TCP_REQUEST @ padded addr padding, failing = None\<rparr>)"
proof (intro exI conjI)
  show p: "length (tcp_request_padding g) < 512" by (rule tcp_padding_bounds(1)[OF assms(1)])
  show "write_tcp_request g new_vec addr =
      Some (Ok (), \<lparr>written = varint_bytes FRAME_TYPE_TCP_REQUEST @ padded addr (tcp_request_padding g),
        failing = None\<rparr>)"
    using p by (simp add: write_tcp_request_def tcp_request_frame_eq addr_fits_varint[OF assms(2)]
        small_varint send_frame_def new_vec_def)
qed

lemma write_tcp_response_vec:
  assumes "rng_ok g" and "length message \<le> MAX_MESSAGE_LENGTH"
  shows "\<exists>padding. length padding < 1024 \<and>
    write_tcp_response g new_vec ok message =
      Some (Ok (), \<lparr>written = (if ok then 0 else 1) # padded message padding, failing = None\<rparr>)"
proof (intro exI conjI)
  show p: "length (tcp_response_padding g) < 1024" by (rule tcp_padding_bounds(2)[OF assms(1)])
  show "write_tcp_response g new_vec ok message =
      Some (Ok (), \<lparr>written = (if ok then 0 else 1) # padded message (tcp_response_padding g),
        failing = None\<rparr>)"
    using p assms(2) by (simp add: write_tcp_response_def tcp_response_frame_eq MAX_MESSAGE_LENGTH_def
        small_varint send_frame_def new_vec_def)
qed

text \<open>A rng that meets the documented behaviour: the shortest padding, all of one letter.\<close>

definition least_rng :: rng where
  "least_rng = \<lparr>random_range = \<lambda>lo hi. lo, sample_string = \<lambda>n. replicate n CHR ''a''\<rparr>"

lemma rng_ok_least: "rng_ok least_rng"
proof -
  have "alphanumeric CHR ''a''" by code_simp
  then show ?thesis by (simp add: rng_ok_def least_rng_def list_all_iff)
qed

lemma request_frame:
  assumes "rng_ok g" and "addr_fits addr" and "str_ok addr" and "failing w = None"
  shows "\<exists>frame. async_write_tcp_request g w addr = Some (Ok (), w\<lparr>written := written w @ frame\<rparr>) \<and>
    (\<forall>rest. read_framed_tcp_request (s\<lparr>pending := frame @ rest\<rparr>) = Ok (addr, s\<lparr>pending := rest\<rparr>))"
proof -
  obtain padding where p: "length padding < 512" and "write_tcp_request g new_vec addr =
      Some (Ok (), \<lparr>written = varint_bytes FRAME_TYPE_TCP_REQUEST @ padded addr padding, failing = None\<rparr>)"
    using write_tcp_request_vec[OF assms(1,2)] by blast
  then have w: "async_write_tcp_request g w addr =
      Some (Ok (), w\<lparr>written := written w @ varint_bytes FRAME_TYPE_TCP_REQUEST @ padded addr padding\<rparr>)"
    using assms(4) by (simp add: async_write_tcp_request_def send_encoded_def)
  have "read_framed_tcp_request
      (s\<lparr>pending := (varint_bytes FRAME_TYPE_TCP_REQUEST @ padded addr padding) @ rest\<rparr>) =
      Ok (addr, s\<lparr>pending := rest\<rparr>)" for rest
    using p assms(2,3)
    by (simp add: read_framed_tcp_request_def read_varint_conv varint_read_bytes
        async_read_tcp_request_conv read_tcp_request_padded MAX_PADDING_LENGTH_def)
  with w show ?thesis by blast
qed

lemma response_frame:
  assumes "rng_ok g" and "length message \<le> MAX_MESSAGE_LENGTH" and "str_ok message"
    and "failing w = None"
  shows "\<exists>frame. async_write_tcp_response g w ok message =
      Some (Ok (), w\<lparr>written := written w @ frame\<rparr>) \<and>
    (\<forall>rest. async_read_tcp_response (s\<lparr>pending := frame @ rest\<rparr>) =
      Ok ((ok, message), s\<lparr>pending := rest\<rparr>))"
proof -
  obtain padding where p: "length padding < 1024" and "write_tcp_response g new_vec ok message =
      Some (Ok (), \<lparr>written = (if ok then 0 else 1) # padded message padding, failing = None\<rparr>)"
    using write_tcp_response_vec[OF assms(1,2)] by blast
  then have w: "async_write_tcp_response g w ok message =
      Some (Ok (), w\<lparr>written := written w @ (if ok then 0 else 1) # padded message padding\<rparr>)"
    using assms(4) by (simp add: async_write_tcp_response_def send_encoded_def)
  have "async_read_tcp_response
      (s\<lparr>pending := ((if ok then 0 else 1) # padded message padding) @ rest\<rparr>) =
      Ok ((ok, message), s\<lparr>pending := rest\<rparr>)" for rest
    using p assms(2,3) read_tcp_response_padded[where message = message and padding = padding and s = s and ok = ok and rest = rest]
    by (simp add: async_read_tcp_response_conv MAX_PADDING_LENGTH_def)
  with w show ?thesis by blast
qed

section \<open>Properties\<close>

text \<open>
  C11: On every input the asynchronous readers behave as the blocking ones: the same value and
  the same remaining bytes on success, the same length error on a malformed frame, and a
  transport error exactly where the blocking reader fails on the stream itself.
\<close>

theorem runtime_readers_agree:
  "async_read_tcp_request s = map_err (core_error_of (ending s)) (read_tcp_request s) \<and>
   async_read_tcp_response s = map_err (core_error_of (ending s)) (read_tcp_response s) \<and>
   read_varint s = map_err (core_error_of (ending s)) (varint_read s)"
  by (simp add: async_read_tcp_request_conv async_read_tcp_response_conv read_varint_conv)

end
