(* ===== verification/Obfs.thy ===== *)
theory Obfs
  imports Errors
begin

text \<open>
  The Salamander obfuscator (\<open>extras/src/obfs.rs\<close>) and the contract of the \<open>Obfuscator\<close>
  trait. The BLAKE2b digest belongs to the blake2 crate and the salt to the rand crate:
  both are arguments. What the trait promises to its user is the locale \<open>obfuscator\<close>;
  Salamander is proved to implement it for every digest function.
\<close>

section \<open>The code\<close>

definition SALAMANDER_PSK_MIN_LEN :: nat where
  "SALAMANDER_PSK_MIN_LEN = 4"

definition SALAMANDER_SALT_LEN :: nat where
  "SALAMANDER_SALT_LEN = 8"

definition SALAMANDER_KEY_LEN :: nat where
  "SALAMANDER_KEY_LEN = 32"

datatype SalamanderError = PskTooShort

record SalamanderObfuscator =
  so_psk :: bytes

definition salamander_new :: "bytes \<Rightarrow> SalamanderError + SalamanderObfuscator" where
  "salamander_new psk =
     (if length psk < SALAMANDER_PSK_MIN_LEN then Err PskTooShort else Ok \<lparr>so_psk = psk\<rparr>)"

definition salamander_key :: "(bytes \<Rightarrow> bytes) \<Rightarrow> SalamanderObfuscator \<Rightarrow> bytes \<Rightarrow> bytes" where
  "salamander_key digest ob salt = digest (so_psk ob @ salt)"

text \<open>
  The loops over the input: \<open>output[index + offset] = byte ^ key[index % 32]\<close>. The key is a
  32-byte array, so its index is always in range.
\<close>

fun xor_loop :: "bytes \<Rightarrow> nat \<Rightarrow> nat \<Rightarrow> bytes \<Rightarrow> bytes \<Rightarrow> bytes option" where
  "xor_loop key offset index [] output = Some output"
| "xor_loop key offset index (byte # input) output = do {
     output \<leftarrow> store_at (index + offset) (byte XOR key ! (index mod SALAMANDER_KEY_LEN)) output;
     xor_loop key offset (index + 1) input output
   }"

definition obfuscate ::
    "(bytes \<Rightarrow> bytes) \<Rightarrow> SalamanderObfuscator \<Rightarrow> bytes \<Rightarrow> bytes \<Rightarrow> bytes \<Rightarrow> (nat \<times> bytes) option" where
  "obfuscate digest ob salt input output =
     (let out_len = length input + SALAMANDER_SALT_LEN in
      if length output < out_len then Some (0, output)
      else do {
        output \<leftarrow> copy_at 0 salt output;
        salt \<leftarrow> slice 0 SALAMANDER_SALT_LEN output;
        let key = salamander_key digest ob salt;
        output \<leftarrow> xor_loop key SALAMANDER_SALT_LEN 0 input output;
        Some (out_len, output)
      })"

definition deobfuscate ::
    "(bytes \<Rightarrow> bytes) \<Rightarrow> SalamanderObfuscator \<Rightarrow> bytes \<Rightarrow> bytes \<Rightarrow> (nat \<times> bytes) option" where
  "deobfuscate digest ob input output =
     (let out_len = length input - SALAMANDER_SALT_LEN in
      if out_len = 0 \<or> length output < out_len then Some (0, output)
      else do {
        salt \<leftarrow> slice 0 SALAMANDER_SALT_LEN input;
        let key = salamander_key digest ob salt;
        body \<leftarrow> slice SALAMANDER_SALT_LEN (length input) input;
        output \<leftarrow> xor_loop key 0 0 body output;
        Some (out_len, output)
      })"

section \<open>The contract of an obfuscator\<close>

text \<open>
  \<open>obf\<close> takes the salt that the implementation draws, the plain datagram and the output
  buffer; \<open>overhead\<close> is the number of bytes it adds.
\<close>

locale obfuscator =
  fixes obf :: "bytes \<Rightarrow> bytes \<Rightarrow> bytes \<Rightarrow> (nat \<times> bytes) option"
    and deobf :: "bytes \<Rightarrow> bytes \<Rightarrow> (nat \<times> bytes) option"
    and salt_ok :: "bytes \<Rightarrow> bool"
    and overhead :: nat
  assumes obf_deobf:
    "salt_ok salt \<Longrightarrow> length input + overhead \<le> length output \<Longrightarrow>
     \<exists>ct. length ct = length input + overhead \<and>
       obf salt input output = Some (length ct, ct @ drop (length ct) output) \<and>
       (\<forall>out. input \<noteq> [] \<longrightarrow> length input \<le> length out \<longrightarrow>
         deobf ct out = Some (length input, input @ drop (length input) out))"

section \<open>Salamander meets the contract\<close>

definition xor_stream :: "bytes \<Rightarrow> nat \<Rightarrow> bytes \<Rightarrow> bytes" where
  "xor_stream key index input =
     map (\<lambda>(i, b). b XOR key ! (i mod SALAMANDER_KEY_LEN)) (enumerate index input)"

lemma length_xor_stream [simp]: "length (xor_stream key index input) = length input"
  by (simp add: xor_stream_def)

lemma xor_stream_Cons:
  "xor_stream key index (b # input) =
     (b XOR key ! (index mod SALAMANDER_KEY_LEN)) # xor_stream key (Suc index) input"
  by (simp add: xor_stream_def)

lemma xor_stream_twice: "xor_stream key index (xor_stream key index input) = input"
proof (induction input arbitrary: index)
  case Nil
  then show ?case by (simp add: xor_stream_def)
next
  case (Cons b input)
  have "(b XOR x) XOR x = b" for x by (simp add: xor.assoc)
  with Cons show ?case by (simp add: xor_stream_Cons)
qed

lemma xor_loop_eq:
  "length pre = index + offset \<Longrightarrow> length input \<le> length rest \<Longrightarrow>
     xor_loop key offset index input (pre @ rest) =
       Some (pre @ xor_stream key index input @ drop (length input) rest)"
proof (induction input arbitrary: index pre rest)
  case Nil
  then show ?case by (simp add: xor_stream_def)
next
  case (Cons b input)
  then obtain r rest' where rest: "rest = r # rest'" by (cases rest) auto
  let ?x = "b XOR key ! (index mod SALAMANDER_KEY_LEN)"
  have "store_at (index + offset) ?x (pre @ rest) = Some ((pre @ [?x]) @ rest')"
    using Cons.prems(1) by (simp add: store_at_def rest list_update_append)
  moreover have "xor_loop key offset (Suc index) input ((pre @ [?x]) @ rest') =
      Some ((pre @ [?x]) @ xor_stream key (Suc index) input @ drop (length input) rest')"
    using Cons.prems rest by (intro Cons.IH) simp_all
  ultimately show ?case by (simp add: xor_stream_Cons rest)
qed

lemma obfuscate_eq:
  assumes "length salt = SALAMANDER_SALT_LEN" and "length input + SALAMANDER_SALT_LEN \<le> length output"
  shows "obfuscate digest ob salt input output =
    Some (length input + SALAMANDER_SALT_LEN,
      salt @ xor_stream (salamander_key digest ob salt) 0 input @
        drop (length input + SALAMANDER_SALT_LEN) output)"
proof -
  have "copy_at 0 salt output = Some (salt @ drop SALAMANDER_SALT_LEN output)"
    using assms by (simp add: copy_at_zero)
  moreover have "slice 0 SALAMANDER_SALT_LEN (salt @ drop SALAMANDER_SALT_LEN output) = Some salt"
    using assms(1) by (simp add: slice_def)
  moreover have "xor_loop key SALAMANDER_SALT_LEN 0 input (salt @ drop SALAMANDER_SALT_LEN output) =
      Some (salt @ xor_stream key 0 input @ drop (length input) (drop SALAMANDER_SALT_LEN output))" for key
    using assms by (intro xor_loop_eq) simp_all
  ultimately show ?thesis
    using assms by (simp add: obfuscate_def Let_def)
qed

lemma deobfuscate_eq:
  assumes "length salt = SALAMANDER_SALT_LEN" and "body \<noteq> []" and "length body \<le> length output"
  shows "deobfuscate digest ob (salt @ body) output =
    Some (length body, xor_stream (salamander_key digest ob salt) 0 body @ drop (length body) output)"
proof -
  have "slice 0 SALAMANDER_SALT_LEN (salt @ body) = Some salt"
    and "slice SALAMANDER_SALT_LEN (length (salt @ body)) (salt @ body) = Some body"
    using assms(1) by (simp_all add: slice_def)
  moreover have "xor_loop key 0 0 body output = Some (xor_stream key 0 body @ drop (length body) output)" for key
    using xor_loop_eq[of "[]" 0 0 body "output" key] assms(3) by simp
  ultimately show ?thesis
    using assms by (simp add: deobfuscate_def Let_def)
qed

text \<open>A datagram with no payload behind the salt, or an output buffer that is too small, yields 0.\<close>

lemma deobfuscate_reject:
  "length input \<le> SALAMANDER_SALT_LEN \<or> length output < length input - SALAMANDER_SALT_LEN \<Longrightarrow>
     deobfuscate digest ob input output = Some (0, output)"
  by (auto simp: deobfuscate_def Let_def)

interpretation salamander: obfuscator "obfuscate digest ob" "deobfuscate digest ob"
    "\<lambda>salt. length salt = SALAMANDER_SALT_LEN" SALAMANDER_SALT_LEN
  for digest ob
proof
  fix salt input out_buf :: bytes
  assume a: "length salt = SALAMANDER_SALT_LEN" "length input + SALAMANDER_SALT_LEN \<le> length out_buf"
  let ?key = "salamander_key digest ob salt"
  have "deobfuscate digest ob (salt @ xor_stream ?key 0 input) out =
      Some (length input, input @ drop (length input) out)"
    if "input \<noteq> []" and "length input \<le> length out" for out
    using that a(1) deobfuscate_eq[of salt "xor_stream ?key 0 input" out digest ob]
    by (metis length_0_conv length_xor_stream xor_stream_twice)
  with a show "\<exists>ct. length ct = length input + SALAMANDER_SALT_LEN \<and>
      obfuscate digest ob salt input out_buf = Some (length ct, ct @ drop (length ct) out_buf) \<and>
      (\<forall>out. input \<noteq> [] \<longrightarrow> length input \<le> length out \<longrightarrow>
        deobfuscate digest ob ct out = Some (length input, input @ drop (length input) out))"
    by (intro exI[of _ "salt @ xor_stream ?key 0 input"]) (simp add: obfuscate_eq add.commute)
qed

end
