(* ===== verification/Socket.thy ===== *)
theory Socket
  imports Obfs
begin

text \<open>
  The obfuscating UDP socket under QUIC (\<open>core/src/socket.rs\<close>): segmented sends and
  coalesced receives pass through an obfuscator. The inner socket is quinn's: it is an
  argument, as is the list of salts that one send draws. The definitions take the two
  operations of the \<open>Obfuscator\<close> trait, so that the round trip is proved once, for every
  obfuscator, and then used for Salamander.
\<close>

section \<open>The code\<close>

datatype ObfsConfig = Salamander string

definition build_obfuscator :: "ObfsConfig \<Rightarrow> CoreError + SalamanderObfuscator" where
  "build_obfuscator config =
     (case config of Salamander password \<Rightarrow>
        map_err (\<lambda>_. Config ''PSK must be at least 4 bytes'') (salamander_new (as_bytes password)))"

text \<open>The fields of \<open>Transmit\<close> that are copied unchanged are collected in \<open>t_route\<close>.\<close>

record 'r Transmit =
  t_route :: 'r
  t_contents :: bytes
  t_segment_size :: "nat option"

definition invalid_data :: "string \<Rightarrow> io_error" where
  "invalid_data message = IoError EkInvalidData message"

text \<open>The loop of \<open>try_send\<close> over the chunks; each chunk draws the next salt.\<close>

fun encode_chunks ::
    "(bytes \<Rightarrow> bytes \<Rightarrow> bytes \<Rightarrow> (nat \<times> bytes) option) \<Rightarrow> bytes list \<Rightarrow> bytes list \<Rightarrow> bytes \<Rightarrow>
     (io_error + bytes) option" where
  "encode_chunks obf salts [] encoded = Some (Ok encoded)"
| "encode_chunks obf salts (chunk # rest) encoded = do {
     (written, out) \<leftarrow> obf (hd salts) chunk (replicate (length chunk + SALAMANDER_SALT_LEN) 0);
     if written = 0 then Some (Err (invalid_data ''failed to obfuscate QUIC datagram''))
     else do {
       out \<leftarrow> slice 0 written out;
       encode_chunks obf (tl salts) rest (encoded @ out)
     }
   }"

definition obfs_try_send ::
    "('r Transmit \<Rightarrow> io_error + unit) \<Rightarrow> (bytes \<Rightarrow> bytes \<Rightarrow> bytes \<Rightarrow> (nat \<times> bytes) option) \<Rightarrow>
     bytes list \<Rightarrow> 'r Transmit \<Rightarrow> (io_error + unit) option" where
  "obfs_try_send inner obf salts transmit =
     (let segment_size =
        (case t_segment_size transmit of Some n \<Rightarrow> n | None \<Rightarrow> max (length (t_contents transmit)) 1) in
      if segment_size = 0 then None
      else chain (encode_chunks obf salts (chunks segment_size (t_contents transmit)) []) (\<lambda>encoded.
        Some (inner \<lparr>t_route = t_route transmit, t_contents = encoded,
          t_segment_size = map_option (\<lambda>size. size + SALAMANDER_SALT_LEN) (t_segment_size transmit)\<rparr>)))"

record RecvMeta =
  rm_len :: nat
  rm_stride :: nat

text \<open>\<open>f(&mut buf[i..j])\<close> for an \<open>f\<close> that writes into the slice it is given.\<close>

definition with_slice ::
    "nat \<Rightarrow> nat \<Rightarrow> (bytes \<Rightarrow> ('a \<times> bytes) option) \<Rightarrow> bytes \<Rightarrow> ('a \<times> bytes) option" where
  "with_slice i j f buf = do {
     s \<leftarrow> slice i j buf;
     (r, s') \<leftarrow> f s;
     Some (r, take i buf @ s' @ drop j buf)
   }"

text \<open>
  The loop over the segments of one coalesced buffer, with its in-place decoding:
  the number of decoded bytes and the buffer.
\<close>

fun decode_segments ::
    "bool \<Rightarrow> (bytes \<Rightarrow> bytes \<Rightarrow> (nat \<times> bytes) option) \<Rightarrow> nat \<Rightarrow> nat \<Rightarrow> nat list \<Rightarrow> nat \<Rightarrow> bytes \<Rightarrow>
     (io_error + (nat \<times> bytes)) option" where
  "decode_segments checks deobf total_len stride [] decoded_total buf = Some (Ok (decoded_total, buf))"
| "decode_segments checks deobf total_len stride (segment_index # rest) decoded_total buf = do {
     let decoded_stride = stride - SALAMANDER_SALT_LEN;
     let input_offset = segment_index * stride;
     let input_len = min (total_len - input_offset) stride;
     input \<leftarrow> slice input_offset (input_offset + input_len) buf;
     let output_offset = segment_index * decoded_stride;
     output_len \<leftarrow> usize_sub checks input_len SALAMANDER_SALT_LEN;
     output_end \<leftarrow> usize_add checks output_offset output_len;
     (written, buf) \<leftarrow> with_slice output_offset output_end (deobf input) buf;
     if written \<noteq> output_len
     then Some (Err (invalid_data ''failed to deobfuscate QUIC datagram''))
     else decode_segments checks deobf total_len stride rest (decoded_total + written) buf
   }"

definition decode_buffer ::
    "bool \<Rightarrow> (bytes \<Rightarrow> bytes \<Rightarrow> (nat \<times> bytes) option) \<Rightarrow> bytes \<Rightarrow> RecvMeta \<Rightarrow>
     (io_error + (bytes \<times> RecvMeta)) option" where
  "decode_buffer checks deobf buf meta =
     (let total_len = rm_len meta in
      if total_len = 0 then Some (Ok (buf, meta))
      else
        let original_stride = (if rm_stride meta = 0 then total_len else rm_stride meta) in
        if original_stride \<le> SALAMANDER_SALT_LEN
        then Some (Err (invalid_data ''invalid obfuscated QUIC datagram''))
        else
          let datagram_count = div_ceil total_len original_stride in
          chain (decode_segments checks deobf total_len original_stride [0..<datagram_count] 0 buf)
            (\<lambda>(decoded_total, buf).
              Some (Ok (buf, meta\<lparr>rm_len := decoded_total,
                rm_stride := (if datagram_count > 1 then original_stride - SALAMANDER_SALT_LEN
                              else decoded_total)\<rparr>))))"

text \<open>The loop over the received buffers; a failing buffer ends the call with its error.\<close>

fun decode_all ::
    "bool \<Rightarrow> (bytes \<Rightarrow> bytes \<Rightarrow> (nat \<times> bytes) option) \<Rightarrow> nat list \<Rightarrow> bytes list \<Rightarrow> RecvMeta list \<Rightarrow>
     (io_error + (bytes list \<times> RecvMeta list)) option" where
  "decode_all checks deobf [] bufs meta = Some (Ok (bufs, meta))"
| "decode_all checks deobf (i # is) bufs meta = do {
     buf \<leftarrow> load_at i bufs;
     m \<leftarrow> load_at i meta;
     chain (decode_buffer checks deobf buf m) (\<lambda>(buf, m).
       decode_all checks deobf is (bufs[i := buf]) (meta[i := m]))
   }"

definition obfs_poll_recv ::
    "bool \<Rightarrow> (bytes \<Rightarrow> bytes \<Rightarrow> (nat \<times> bytes) option) \<Rightarrow>
     (io_error + nat) poll \<times> bytes list \<times> RecvMeta list \<Rightarrow>
     ((io_error + nat \<times> bytes list \<times> RecvMeta list) poll) option" where
  "obfs_poll_recv checks deobf inner =
     (case inner of
        (Ready (Inr count), bufs, meta) \<Rightarrow>
          map_option Ready (chain (decode_all checks deobf [0..<count] bufs meta) (\<lambda>(bufs, meta).
            Some (Ok (count, bufs, meta))))
      | (Ready (Inl e), _, _) \<Rightarrow> Some (Ready (Err e))
      | (Pending, _, _) \<Rightarrow> Some Pending)"

section \<open>Segment lists\<close>

text \<open>All pieces but the last have the full size, and none is empty.\<close>

fun chunked :: "nat \<Rightarrow> 'a list list \<Rightarrow> bool" where
  "chunked n [] = True"
| "chunked n [c] = (c \<noteq> [] \<and> length c \<le> n)"
| "chunked n (c # cs) = (length c = n \<and> chunked n cs)"

lemma chunked_chunks: "0 < n \<Longrightarrow> chunked n (chunks n xs)"
proof (induction n xs rule: chunks.induct)
  case (1 n xs)
  show ?case
  proof (cases "xs = []")
    case False
    then have eq: "chunks n xs = take n xs # chunks n (drop n xs)"
      using 1 by (simp add: chunks_step)
    show ?thesis
    proof (cases "chunks n (drop n xs)")
      case Nil
      with eq False 1 show ?thesis by simp
    next
      case (Cons c cs)
      then have "drop n xs \<noteq> []" by auto
      then have "length (take n xs) = n" by simp
      moreover have "chunked n (c # cs)" using 1 False Cons by simp
      ultimately show ?thesis unfolding eq Cons by simp
    qed
  qed simp
qed

lemma chunked_Cons:
  assumes "chunked n (c # cs)" and "0 < n"
  shows "0 < length c" and "length c \<le> n" and "chunked n cs" and "cs \<noteq> [] \<Longrightarrow> length c = n"
  using assms by (cases cs; auto)+

text \<open>\<open>ct\<close> is an obfuscated form of \<open>c\<close>: decoding it gives \<open>c\<close> back.\<close>

definition seals :: "(bytes \<Rightarrow> bytes \<Rightarrow> (nat \<times> bytes) option) \<Rightarrow> bytes \<Rightarrow> bytes \<Rightarrow> bool" where
  "seals deobf c ct \<longleftrightarrow>
     length ct = length c + SALAMANDER_SALT_LEN \<and>
     (\<forall>out. c \<noteq> [] \<longrightarrow> length c \<le> length out \<longrightarrow>
       deobf ct out = Some (length c, c @ drop (length c) out))"

section \<open>The round trip, for every obfuscator\<close>

locale obfs_socket = obfuscator obf deobf salt_ok SALAMANDER_SALT_LEN for obf deobf salt_ok
begin

lemma encode_chunks_ok:
  assumes "list_all salt_ok salts" and "length cs \<le> length salts"
  shows "\<exists>cts. encode_chunks obf salts cs acc = Some (Ok (acc @ concat cts)) \<and>
    list_all2 (seals deobf) cs cts"
  using assms
proof (induction cs arbitrary: salts acc)
  case Nil
  then show ?case by simp
next
  case (Cons c cs)
  then obtain salt salts' where salts: "salts = salt # salts'" by (cases salts) auto
  let ?out = "replicate (length c + SALAMANDER_SALT_LEN) 0"
  have "salt_ok salt" using Cons.prems(1) salts by simp
  then obtain ct where ct: "seals deobf c ct" "obf salt c ?out = Some (length ct, ct @ drop (length ct) ?out)"
    using obf_deobf[of salt c ?out] unfolding seals_def length_replicate by blast
  have "slice 0 (length ct) (ct @ drop (length ct) ?out) = Some ct"
    by (simp add: slice_def)
  moreover have "length ct \<noteq> 0" using ct(1) by (simp add: seals_def SALAMANDER_SALT_LEN_def)
  ultimately have "encode_chunks obf salts (c # cs) acc = encode_chunks obf salts' cs (acc @ ct)"
    by (simp add: salts ct(2))
  moreover obtain cts where "encode_chunks obf salts' cs (acc @ ct) = Some (Ok ((acc @ ct) @ concat cts))"
      "list_all2 (seals deobf) cs cts"
    using Cons.IH[of salts' "acc @ ct"] Cons.prems salts by auto
  ultimately show ?case using ct by (intro exI[of _ "ct # cts"]) simp
qed

lemma decode_segments_Cons:
  assumes "SALAMANDER_SALT_LEN < stride" and "length buf < 2 ^ 64" and "seals deobf c ct" and "c \<noteq> []"
    and "drop (i * stride) buf = ct @ rest" and "i * stride \<le> length buf"
    and "min (total_len - i * stride) stride = length ct"
  shows "decode_segments checks deobf total_len stride (i # is) acc buf =
    decode_segments checks deobf total_len stride is (acc + length c)
      (take (i * (stride - SALAMANDER_SALT_LEN)) buf @ c @
       drop (i * (stride - SALAMANDER_SALT_LEN) + length c) buf)"
proof -
  let ?ds = "stride - SALAMANDER_SALT_LEN"
  have len: "length ct = length c + SALAMANDER_SALT_LEN"
    and dec: "\<And>out. length c \<le> length out \<Longrightarrow> deobf ct out = Some (length c, c @ drop (length c) out)"
    using assms(3,4) by (simp_all add: seals_def)
  have blen: "length buf = i * stride + length ct + length rest"
    using arg_cong[OF assms(5), of length] assms(6) by simp
  have le: "i * ?ds + length c \<le> i * stride + length ct"
    using len by (simp add: add_mono)
  have "slice (i * stride) (i * stride + length ct) buf = Some ct"
    using assms(5) blen by (simp add: slice_def)
  moreover have "slice (i * ?ds) (i * ?ds + length c) buf = Some (take (length c) (drop (i * ?ds) buf))"
    and "length c \<le> length (take (length c) (drop (i * ?ds) buf))"
    using le blen by (simp_all add: slice_def)
  then have "with_slice (i * ?ds) (i * ?ds + length c) (deobf ct) buf =
      Some (length c, take (i * ?ds) buf @ c @ drop (i * ?ds + length c) buf)"
    using dec by (simp add: with_slice_def)
  moreover have "usize_add checks (i * ?ds) (length c) = Some (i * ?ds + length c)"
    using le blen assms(2) by (simp add: usize_add_def)
  ultimately show ?thesis
    using assms(7) len by (simp add: Let_def)
qed

lemma decode_segments_ok:
  assumes "SALAMANDER_SALT_LEN < stride" and "length buf < 2 ^ 64"
    and "chunked (stride - SALAMANDER_SALT_LEN) cs" and "list_all2 (seals deobf) cs cts"
    and "drop (i * stride) buf = concat cts @ junk" and "i * stride \<le> length buf"
    and "total_len = i * stride + length (concat cts)"
  shows "\<exists>buf'. decode_segments checks deobf total_len stride [i..<i + length cs] acc buf =
      Some (Ok (acc + length (concat cs), buf')) \<and>
    take (i * (stride - SALAMANDER_SALT_LEN) + length (concat cs)) buf' =
      take (i * (stride - SALAMANDER_SALT_LEN)) buf @ concat cs"
  using assms(2-7)
proof (induction cs arbitrary: i buf cts acc)
  case Nil
  then show ?case by simp
next
  case (Cons c cs)
  let ?ds = "stride - SALAMANDER_SALT_LEN"
  obtain ct cts' where cts: "cts = ct # cts'" and seal: "seals deobf c ct"
    and rest: "list_all2 (seals deobf) cs cts'"
    using Cons.prems(3) by (cases cts) auto
  have ds: "0 < ?ds" "stride = ?ds + SALAMANDER_SALT_LEN" using assms(1) by simp_all
  note ch = chunked_Cons[OF Cons.prems(2) ds(1)]
  have len: "length ct = length c + SALAMANDER_SALT_LEN" using seal by (simp add: seals_def)
  have full: "length ct = stride" if "cs \<noteq> []" using ch(4)[OF that] ds len by simp
  have "cts' = []" if "cs = []" using rest that by simp
  then have "min (total_len - i * stride) stride = length ct"
    using full Cons.prems(6) ch(2) len assms(1) cts by (cases "cs = []") auto
  note step = decode_segments_Cons[OF assms(1) Cons.prems(1) seal _ _ Cons.prems(5) this]
  let ?buf = "take (i * ?ds) buf @ c @ drop (i * ?ds + length c) buf"
  have upt: "[i..<i + length (c # cs)] = i # [Suc i..<Suc i + length cs]"
    by (simp add: upt_conv_Cons del: upt_Suc)
  have step: "decode_segments checks deobf total_len stride [i..<i + length (c # cs)] acc buf =
      decode_segments checks deobf total_len stride [Suc i..<Suc i + length cs] (acc + length c) ?buf"
    unfolding upt using Cons.prems(4) ch(1) cts by (intro step) auto
  have blen: "length buf = i * stride + length ct + length (concat cts' @ junk)"
    using arg_cong[OF Cons.prems(4), of length] Cons.prems(5) cts by simp
  have le: "i * ?ds + length c \<le> i * stride + length ct"
    using len by (simp add: add_mono)
  show ?case
  proof (cases "cs = []")
    case True
    have "i * ?ds \<le> length buf" using le blen by linarith
    with True show ?thesis unfolding step by simp
  next
    case False
    have c: "length c = ?ds" using ch(4)[OF False] .
    have "drop (Suc i * stride) ?buf = drop (length ct) (drop (i * stride) buf)"
      using le full[OF False] blen by (simp add: drop_take add.commute)
    then have dr: "drop (Suc i * stride) ?buf = concat cts' @ junk"
      using Cons.prems(4) cts by simp
    have tk: "take (Suc i * ?ds) ?buf = take (i * ?ds) buf @ c"
      using le blen c by (simp add: add.commute)
    have "length ?buf = length buf" using le blen by simp
    then have "\<exists>buf'. decode_segments checks deobf total_len stride [Suc i..<Suc i + length cs]
          (acc + length c) ?buf = Some (Ok (acc + length c + length (concat cs), buf')) \<and>
        take (Suc i * ?ds + length (concat cs)) buf' = take (Suc i * ?ds) ?buf @ concat cs"
      using Cons.prems(1,6) ch(3) rest dr full[OF False] blen cts
      by (intro Cons.IH[of ?buf cts']) auto
    then obtain buf' where d: "decode_segments checks deobf total_len stride [Suc i..<Suc i + length cs]
          (acc + length c) ?buf = Some (Ok (acc + length c + length (concat cs), buf'))"
      and t: "take (Suc i * ?ds + length (concat cs)) buf' = (take (i * ?ds) buf @ c) @ concat cs"
      unfolding tk by blast
    have e: "Suc i * ?ds + length (concat cs) = i * ?ds + length (concat (c # cs))"
      using c by simp
    show ?thesis
      unfolding step d using t[unfolded e] by (intro exI[of _ buf']) simp
  qed
qed

text \<open>What one end sends as a transmit, the other end decodes from its coalesced buffer.\<close>

lemma send_receive:
  assumes "list_all salt_ok salts" and "length (chunks n (t_contents t)) \<le> length salts"
    and "n = (case t_segment_size t of Some n \<Rightarrow> n | None \<Rightarrow> length (t_contents t))" and "0 < n"
    and "t_contents t \<noteq> []"
  shows "\<exists>enc. obfs_try_send inner obf salts t =
      Some (inner (t\<lparr>t_contents := enc,
        t_segment_size := map_option (\<lambda>n. n + SALAMANDER_SALT_LEN) (t_segment_size t)\<rparr>)) \<and>
    (\<forall>junk meta. length (enc @ junk) < 2 ^ 64 \<and> rm_len meta = length enc \<and>
        rm_stride meta = n + SALAMANDER_SALT_LEN \<longrightarrow>
      (\<exists>buf. decode_buffer checks deobf (enc @ junk) meta =
        Some (Ok (buf, meta\<lparr>rm_len := length (t_contents t), rm_stride := min n (length (t_contents t))\<rparr>)) \<and>
        take (length (t_contents t)) buf = t_contents t))"
proof -
  let ?cs = "chunks n (t_contents t)"
  obtain cts where enc: "encode_chunks obf salts ?cs [] = Some (Ok (concat cts))"
    and seals: "list_all2 (seals deobf) ?cs cts"
    using encode_chunks_ok[OF assms(1,2), of "[]"] by auto
  have "max (length (t_contents t)) 1 = length (t_contents t)" using assms(5) by (cases "t_contents t") auto
  then have send: "obfs_try_send inner obf salts t =
      Some (inner (t\<lparr>t_contents := concat cts,
        t_segment_size := map_option (\<lambda>n. n + SALAMANDER_SALT_LEN) (t_segment_size t)\<rparr>))"
    using enc assms(3,4)
    by (cases "t_segment_size t"; cases t) (simp_all add: obfs_try_send_def Let_def)
  have clen: "length (concat cts) = length (t_contents t) + SALAMANDER_SALT_LEN * length ?cs"
  proof -
    have "length (concat cts) = length (concat cs) + SALAMANDER_SALT_LEN * length cs"
      if "list_all2 (seals deobf) cs cts" for cs
      using that by (induction rule: list_all2_induct) (simp_all add: seals_def)
    from this[OF seals] show ?thesis by (simp add: concat_chunks[OF assms(4)])
  qed
  have count: "div_ceil (length (concat cts)) (n + SALAMANDER_SALT_LEN) = length ?cs"
  proof -
    obtain k where k: "length ?cs = Suc k"
      using chunks_step[OF assms(4,5)] by simp
    have b: "div_ceil (length (t_contents t)) n = Suc k"
      using length_chunks[OF assms(4), of "t_contents t"] k by simp
    show ?thesis
      unfolding k
    proof (rule div_ceil_eqI)
      show "k * (n + SALAMANDER_SALT_LEN) < length (concat cts)"
        using div_ceil_bounds(2)[OF assms(4), of "length (t_contents t)"] assms(5) clen k b
        by (simp add: algebra_simps)
      show "length (concat cts) \<le> Suc k * (n + SALAMANDER_SALT_LEN)"
        using div_ceil_bounds(1)[OF assms(4), of "length (t_contents t)"] clen k b
        by (simp add: algebra_simps)
    qed (use assms(4) in simp)
  qed
  have stride: "(if length ?cs > 1 then n else length (t_contents t)) = min n (length (t_contents t))"
  proof (cases "n < length (t_contents t)")
    case True
    then show ?thesis using div_ceil_two[OF assms(4) True] length_chunks[OF assms(4), of "t_contents t"] by simp
  next
    case False
    then have "div_ceil (length (t_contents t)) n = Suc 0"
      using assms(4,5) by (intro div_ceil_eqI) auto
    with False show ?thesis using length_chunks[OF assms(4), of "t_contents t"] by simp
  qed
  have "\<exists>buf. decode_buffer checks deobf (concat cts @ junk) meta =
        Some (Ok (buf, meta\<lparr>rm_len := length (t_contents t), rm_stride := min n (length (t_contents t))\<rparr>)) \<and>
        take (length (t_contents t)) buf = t_contents t"
    if "length (concat cts @ junk) < 2 ^ 64" "rm_len meta = length (concat cts)"
      "rm_stride meta = n + SALAMANDER_SALT_LEN" for junk meta
  proof -
    have "SALAMANDER_SALT_LEN < n + SALAMANDER_SALT_LEN" using assms(4) by simp
    then have "\<exists>buf'. decode_segments checks deobf (length (concat cts)) (n + SALAMANDER_SALT_LEN) [0..<0 + length ?cs] 0
          (concat cts @ junk) = Some (Ok (0 + length (concat ?cs), buf')) \<and>
        take (0 * (n + SALAMANDER_SALT_LEN - SALAMANDER_SALT_LEN) + length (concat ?cs)) buf' =
          take (0 * (n + SALAMANDER_SALT_LEN - SALAMANDER_SALT_LEN)) (concat cts @ junk) @ concat ?cs"
      using that(1) chunked_chunks[OF assms(4)] seals by (intro decode_segments_ok) auto
    then show ?thesis
      using that clen count stride assms(4,5) concat_chunks[OF assms(4), of "t_contents t"]
      by (auto simp: decode_buffer_def Let_def)
  qed
  with send show ?thesis by blast
qed

end

interpretation salamander_socket: obfs_socket "obfuscate digest ob" "deobfuscate digest ob"
    "\<lambda>salt. length salt = SALAMANDER_SALT_LEN"
  for digest ob
  by unfold_locales

section \<open>Short trailing segments\<close>

lemma deobfuscate_any:
  assumes "SALAMANDER_SALT_LEN < length input" and "length out = length input - SALAMANDER_SALT_LEN"
  shows "\<exists>out'. deobfuscate digest ob input out = Some (length out, out') \<and> length out' = length out"
proof -
  have "input = take SALAMANDER_SALT_LEN input @ drop SALAMANDER_SALT_LEN input" by simp
  then show ?thesis
    using deobfuscate_eq[of "take SALAMANDER_SALT_LEN input" "drop SALAMANDER_SALT_LEN input" out digest ob] assms
    by simp
qed

text \<open>Salamander does not authenticate: a full segment of any content is decoded.\<close>

lemma decode_segments_full:
  assumes "SALAMANDER_SALT_LEN < stride" and "length buf < 2 ^ 64" and "i * stride + stride \<le> total_len"
    and "total_len \<le> length buf"
  shows "\<exists>buf'. length buf' = length buf \<and>
    decode_segments checks (deobfuscate digest ob) total_len stride (i # is) acc buf =
    decode_segments checks (deobfuscate digest ob) total_len stride is (acc + (stride - SALAMANDER_SALT_LEN)) buf'"
proof -
  let ?ds = "stride - SALAMANDER_SALT_LEN"
  let ?input = "take stride (drop (i * stride) buf)" and ?out = "take ?ds (drop (i * ?ds) buf)"
  have "min (total_len - i * stride) stride = stride" using assms(3) by simp
  moreover have "slice (i * stride) (i * stride + stride) buf = Some ?input"
    using assms by (simp add: slice_def)
  moreover have le: "i * ?ds + ?ds \<le> length buf"
    using assms(3,4) by (meson add_mono diff_le_self le_trans mult_le_mono2)
  then have "usize_add checks (i * ?ds) ?ds = Some (i * ?ds + ?ds)"
    using assms(2) by (simp add: usize_add_def)
  moreover obtain out' where "deobfuscate digest ob ?input ?out = Some (?ds, out')" and "length out' = ?ds"
    using deobfuscate_any[of ?input ?out digest ob] assms le by auto
  then have "with_slice (i * ?ds) (i * ?ds + ?ds) (deobfuscate digest ob ?input) buf =
      Some (?ds, take (i * ?ds) buf @ out' @ drop (i * ?ds + ?ds) buf)"
    and "length (take (i * ?ds) buf @ out' @ drop (i * ?ds + ?ds) buf) = length buf"
    using le by (simp_all add: with_slice_def slice_def)
  ultimately show ?thesis
    using assms(1)
    by (intro exI[of _ "take (i * ?ds) buf @ out' @ drop (i * ?ds + ?ds) buf"]) (simp add: Let_def)
qed

lemma decode_segments_short:
  assumes "SALAMANDER_SALT_LEN < stride" and "length buf < 2 ^ 64 - SALAMANDER_SALT_LEN"
    and "total_len = i * stride + r" and "0 < r" and "r < SALAMANDER_SALT_LEN" and "total_len \<le> length buf"
  shows "decode_segments checks deobf total_len stride (i # is) acc buf = None"
proof (cases checks)
  case True
  then show ?thesis using assms by (simp add: usize_sub_def Let_def min_def)
next
  case False
  let ?ds = "stride - SALAMANDER_SALT_LEN" and ?n = "2 ^ 64 + r - SALAMANDER_SALT_LEN"
  have len: "min (total_len - i * stride) stride = r" using assms by simp
  have sub: "usize_sub False r SALAMANDER_SALT_LEN = Some ?n" using assms(5) by (simp add: usize_sub_def)
  have "i * ?ds \<le> length buf"
    using assms(3,6) by (meson diff_le_self le_add1 le_trans mult_le_mono2)
  then have "slice (i * ?ds) e buf = None" if "usize_add False (i * ?ds) ?n = Some e" for e
    using that assms(2,4,5)
    by (auto simp: usize_add_def slice_def SALAMANDER_SALT_LEN_def mod_if split: if_splits)
  with False len sub show ?thesis
    by (simp add: Let_def with_slice_def split: bind_splits)
qed

lemma decode_segments_trailing:
  assumes "SALAMANDER_SALT_LEN < stride" and "total_len = k * stride + r" and "0 < r"
    and "r < SALAMANDER_SALT_LEN"
  shows "i \<le> k \<Longrightarrow> length buf < 2 ^ 64 - SALAMANDER_SALT_LEN \<Longrightarrow> total_len \<le> length buf \<Longrightarrow>
    decode_segments checks (deobfuscate digest ob) total_len stride [i..<Suc k] acc buf = None"
proof (induction "k - i" arbitrary: i acc buf)
  case 0
  then have "[i..<Suc k] = [k]" by simp
  with 0 decode_segments_short[OF assms(1) _ assms(2-4)] show ?case by simp
next
  case (Suc n)
  then have upt: "[i..<Suc k] = i # [Suc i..<Suc k]" by (simp add: upt_conv_Cons del: upt_Suc)
  have "Suc i * stride \<le> k * stride" using Suc.hyps(2) by (intro mult_le_mono1) simp
  then have "i * stride + stride \<le> total_len" using assms(2) by simp
  with decode_segments_full[OF assms(1), of buf i total_len checks digest ob "[Suc i..<Suc k]" acc] Suc.prems
  obtain buf' where "length buf' = length buf" "decode_segments checks (deobfuscate digest ob) total_len stride
      [i..<Suc k] acc buf = decode_segments checks (deobfuscate digest ob) total_len stride
      [Suc i..<Suc k] (acc + (stride - SALAMANDER_SALT_LEN)) buf'"
    unfolding upt by (auto simp: SALAMANDER_SALT_LEN_def)
  with Suc show ?case by simp
qed

lemma obfs_poll_recv_single:
  "obfs_poll_recv checks deobf (Ready (Ok 1), [buf], [meta]) =
     map_option Ready (chain (decode_buffer checks deobf buf meta) (\<lambda>(buf, meta).
       Some (Ok (1, [buf], [meta]))))"
proof (cases "decode_buffer checks deobf buf meta")
  case (Some r)
  then show ?thesis by (cases r) (auto simp: obfs_poll_recv_def load_at_def)
qed (simp add: obfs_poll_recv_def load_at_def)

text \<open>A datagram that holds at most a salt is reported as an error of the whole receive call.\<close>

lemma poll_recv_runt:
  assumes "0 < rm_len meta" and "rm_len meta \<le> SALAMANDER_SALT_LEN" and "rm_stride meta \<in> {0, rm_len meta}"
  shows "obfs_poll_recv checks deobf (Ready (Ok 1), [buf], [meta]) =
    Some (Ready (Err (invalid_data ''invalid obfuscated QUIC datagram'')))"
  unfolding obfs_poll_recv_single using assms by (auto simp: decode_buffer_def)

section \<open>Properties\<close>

text \<open>
  C5: Whatever the salts and the digest function, the segments that the obfuscating socket
  sends for a transmit are decoded by the receiving socket, in place and in one coalesced
  buffer, into the original contents with the original length and segment size.
\<close>

theorem obfuscated_datagrams_roundtrip:
  assumes "list_all (\<lambda>salt. length salt = SALAMANDER_SALT_LEN) salts"
    and "length (chunks n (t_contents t)) \<le> length salts"
    and "n = (case t_segment_size t of Some n \<Rightarrow> n | None \<Rightarrow> length (t_contents t))" and "0 < n"
    and "t_contents t \<noteq> []"
  shows "\<exists>enc. obfs_try_send inner (obfuscate digest ob) salts t =
      Some (inner (t\<lparr>t_contents := enc,
        t_segment_size := map_option (\<lambda>n. n + SALAMANDER_SALT_LEN) (t_segment_size t)\<rparr>)) \<and>
    (\<forall>junk meta. length (enc @ junk) < 2 ^ 64 \<and> rm_len meta = length enc \<and>
        rm_stride meta = n + SALAMANDER_SALT_LEN \<longrightarrow>
      (\<exists>buf. obfs_poll_recv checks (deobfuscate digest ob) (Ready (Ok 1), [enc @ junk], [meta]) =
        Some (Ready (Ok (1, [buf],
          [meta\<lparr>rm_len := length (t_contents t), rm_stride := min n (length (t_contents t))\<rparr>]))) \<and>
        take (length (t_contents t)) buf = t_contents t))"
proof -
  obtain enc where enc: "obfs_try_send inner (obfuscate digest ob) salts t =
      Some (inner (t\<lparr>t_contents := enc,
        t_segment_size := map_option (\<lambda>n. n + SALAMANDER_SALT_LEN) (t_segment_size t)\<rparr>))"
    and dec: "\<And>junk meta. length (enc @ junk) < 2 ^ 64 \<and> rm_len meta = length enc \<and>
        rm_stride meta = n + SALAMANDER_SALT_LEN \<Longrightarrow>
      (\<exists>buf. decode_buffer checks (deobfuscate digest ob) (enc @ junk) meta =
        Some (Ok (buf, meta\<lparr>rm_len := length (t_contents t), rm_stride := min n (length (t_contents t))\<rparr>)) \<and>
        take (length (t_contents t)) buf = t_contents t)"
    using salamander_socket.send_receive[OF assms] by blast
  have "\<exists>buf. obfs_poll_recv checks (deobfuscate digest ob) (Ready (Ok 1), [enc @ junk], [meta]) =
        Some (Ready (Ok (1, [buf],
          [meta\<lparr>rm_len := length (t_contents t), rm_stride := min n (length (t_contents t))\<rparr>]))) \<and>
        take (length (t_contents t)) buf = t_contents t"
    if "length (enc @ junk) < 2 ^ 64 \<and> rm_len meta = length enc \<and>
        rm_stride meta = n + SALAMANDER_SALT_LEN" for junk meta
    unfolding obfs_poll_recv_single using dec[OF that] by auto
  with enc show ?thesis by blast
qed

definition toy_transmit :: "unit Transmit" where
  "toy_transmit = \<lparr>t_route = (), t_contents = [1, 2, 3], t_segment_size = Some 2\<rparr>"

theorem obfuscated_datagrams_roundtrip_witness:
  "\<exists>enc. obfs_try_send (\<lambda>_. Ok ()) (obfuscate (\<lambda>x. rev x @ replicate 32 7) \<lparr>so_psk = [1, 2, 3, 4]\<rparr>)
      [replicate 8 5, replicate 8 6] toy_transmit =
      Some ((\<lambda>_. Ok ()) (toy_transmit\<lparr>t_contents := enc,
        t_segment_size := map_option (\<lambda>n. n + SALAMANDER_SALT_LEN) (t_segment_size toy_transmit)\<rparr>)) \<and>
    (\<forall>junk meta. length (enc @ junk) < 2 ^ 64 \<and> rm_len meta = length enc \<and>
        rm_stride meta = 2 + SALAMANDER_SALT_LEN \<longrightarrow>
      (\<exists>buf. obfs_poll_recv True (deobfuscate (\<lambda>x. rev x @ replicate 32 7) \<lparr>so_psk = [1, 2, 3, 4]\<rparr>)
          (Ready (Ok 1), [enc @ junk], [meta]) =
        Some (Ready (Ok (1, [buf], [meta\<lparr>rm_len := length (t_contents toy_transmit),
          rm_stride := min 2 (length (t_contents toy_transmit))\<rparr>]))) \<and>
        take (length (t_contents toy_transmit)) buf = t_contents toy_transmit))"
  by (rule obfuscated_datagrams_roundtrip) code_simp+

text \<open>
  C10: A coalesced receive whose last segment is shorter than the salt panics, with and without
  overflow checks, whatever the bytes are: the length of the last segment minus the salt
  length underflows before the segment is looked at.
\<close>

theorem poll_recv_short_segment_panics:
  assumes "SALAMANDER_SALT_LEN < rm_stride meta" and "rm_len meta = k * rm_stride meta + r"
    and "0 < r" and "r < SALAMANDER_SALT_LEN" and "rm_len meta \<le> length buf"
    and "length buf < 2 ^ 64 - SALAMANDER_SALT_LEN"
  shows "obfs_poll_recv checks (deobfuscate digest ob) (Ready (Ok 1), [buf], [meta]) = None"
proof -
  have "div_ceil (rm_len meta) (rm_stride meta) = Suc k"
    using assms(1-4) by (intro div_ceil_eqI) (auto simp: SALAMANDER_SALT_LEN_def)
  then have "decode_buffer checks (deobfuscate digest ob) buf meta = None"
    using decode_segments_trailing[OF assms(1-4) _ assms(6,5), of 0 checks digest ob 0] assms(1-3)
    by (simp add: decode_buffer_def Let_def del: upt_Suc)
  then show ?thesis unfolding obfs_poll_recv_single by simp
qed

theorem poll_recv_short_segment_panics_witness:
  "obfs_poll_recv False (deobfuscate (\<lambda>_. replicate 32 0) \<lparr>so_psk = [1, 2, 3, 4]\<rparr>)
     (Ready (Ok 1), [replicate 44 0], [\<lparr>rm_len = 44, rm_stride = 40\<rparr>]) = None"
  by (rule poll_recv_short_segment_panics[where k = 1 and r = 4]) (simp_all add: SALAMANDER_SALT_LEN_def)

end
