(* ===== verification/Frag.thy ===== *)
theory Frag
  imports Protocol
begin

text \<open>
  Fragmentation and reassembly of UDP messages (\<open>core/src/frag.rs\<close>). The fragmenter is
  modelled with its unchecked casts and counters; the reassembler with its table of packets
  and the queue that bounds it. The lemmas give the fragments in closed form, an invariant
  of the reassembler that excludes every panic, and the delivery of a fragmented message
  in any arrival order while other packets are in flight.
\<close>

section \<open>The code\<close>

definition MAX_IN_FLIGHT_PACKETS :: nat where
  "MAX_IN_FLIGHT_PACKETS = 64"

text \<open>
  The loop of \<open>frag_udp_message\<close>. A payload size of 0 would keep the loop from advancing;
  the division before the loop has panicked by then, so that branch is a panic here too.
\<close>

function frag_loop ::
    "bool \<Rightarrow> UDPMessage \<Rightarrow> nat \<Rightarrow> u8 \<Rightarrow> nat \<Rightarrow> u8 \<Rightarrow> UDPMessage list option" where
  "frag_loop checks m max_payload_size fcount offset fid =
     (if offset < length (m_data m)
      then
        let payload_size = min (length (m_data m) - offset) max_payload_size in
        if payload_size = 0 then None
        else do {
          d \<leftarrow> slice offset (offset + payload_size) (m_data m);
          let fragment = m\<lparr>m_frag_id := fid, m_frag_count := fcount, m_data := d\<rparr>;
          fid' \<leftarrow> u8_inc checks fid;
          rest \<leftarrow> frag_loop checks m max_payload_size fcount (offset + payload_size) fid';
          Some (fragment # rest)
        }
      else Some [])"
  by auto
termination
  by (relation "measure (\<lambda>(_, m, _, _, offset, _). length (m_data m) - offset)") auto

declare frag_loop.simps [simp del]

definition frag_udp_message :: "bool \<Rightarrow> UDPMessage \<Rightarrow> nat \<Rightarrow> UDPMessage list option" where
  "frag_udp_message checks m max_size = do {
     size \<leftarrow> message_size m;
     if size \<le> max_size then Some [m]
     else do {
       h \<leftarrow> header_size m;
       max_payload_size \<leftarrow> usize_sub checks max_size h;
       if max_payload_size = 0 then None
       else frag_loop checks m max_payload_size
              (of_nat (div_ceil (length (m_data m)) max_payload_size)) 0 0
     }
   }"

record PacketState =
  ps_session_id :: u32
  ps_addr :: string
  ps_fragments :: "UDPMessage option list"
  ps_count :: u8
  ps_size :: nat

record Defragger =
  df_packets :: "u16 \<Rightarrow> PacketState option"
  df_order :: "u16 list"

definition new_defragger :: Defragger where
  "new_defragger = \<lparr>df_packets = Map.empty, df_order = []\<rparr>"

definition remove_packet :: "u16 \<Rightarrow> Defragger \<Rightarrow> Defragger" where
  "remove_packet pid d =
     d\<lparr>df_packets := (df_packets d)(pid := None), df_order := remove1 pid (df_order d)\<rparr>"

text \<open>The eviction loop of \<open>insert_packet\<close>: drop the oldest packets until there is room.\<close>

fun evict :: "(u16 \<Rightarrow> PacketState option) \<Rightarrow> u16 list \<Rightarrow> (u16 \<Rightarrow> PacketState option) \<times> u16 list" where
  "evict packets [] = (packets, [])"
| "evict packets (oldest # order) =
     (if length (oldest # order) \<ge> MAX_IN_FLIGHT_PACKETS
      then evict (packets(oldest := None)) order
      else (packets, oldest # order))"

definition insert_packet :: "u16 \<Rightarrow> nat \<Rightarrow> UDPMessage \<Rightarrow> Defragger \<Rightarrow> Defragger option" where
  "insert_packet pid fcount m d = do {
     let d = remove_packet pid d;
     let (packets, order) = evict (df_packets d) (df_order d);
     fragments \<leftarrow> store_at (unat (m_frag_id m)) (Some m) (replicate fcount None);
     Some (d\<lparr>df_packets := packets(pid \<mapsto>
             \<lparr>ps_session_id = m_session_id m, ps_addr = m_addr m, ps_fragments = fragments,
              ps_count = 1, ps_size = length (m_data m)\<rparr>),
           df_order := order @ [pid]\<rparr>)
   }"

text \<open>The assembly loop; a missing fragment is the failed \<open>expect\<close>.\<close>

fun assemble :: "UDPMessage option list \<Rightarrow> bytes option" where
  "assemble [] = Some []"
| "assemble (None # fs) = None"
| "assemble (Some m # fs) = do { rest \<leftarrow> assemble fs; Some (m_data m @ rest) }"

definition reset_packet :: "Defragger \<Rightarrow> UDPMessage \<Rightarrow> bool" where
  "reset_packet d m =
     (case df_packets d (m_packet_id m) of
        None \<Rightarrow> True
      | Some st \<Rightarrow> ps_session_id st \<noteq> m_session_id m \<or> ps_addr st \<noteq> m_addr m \<or>
                   length (ps_fragments st) \<noteq> unat (m_frag_count m))"

definition feed :: "bool \<Rightarrow> Defragger \<Rightarrow> UDPMessage \<Rightarrow> (UDPMessage option \<times> Defragger) option" where
  "feed checks d m =
     (if m_frag_count m \<le> 1 then Some (Some m, d)
      else if m_frag_id m \<ge> m_frag_count m then Some (None, d)
      else if reset_packet d m then do {
        d \<leftarrow> insert_packet (m_packet_id m) (unat (m_frag_count m)) m d;
        Some (None, d)
      }
      else case df_packets d (m_packet_id m) of
        None \<Rightarrow> Some (None, d)
      | Some st \<Rightarrow> do {
          slot \<leftarrow> load_at (unat (m_frag_id m)) (ps_fragments st);
          st \<leftarrow> (if slot = None then do {
                   count \<leftarrow> u8_inc checks (ps_count st);
                   fragments \<leftarrow> store_at (unat (m_frag_id m)) (Some m) (ps_fragments st);
                   Some (st\<lparr>ps_size := ps_size st + length (m_data m), ps_count := count,
                           ps_fragments := fragments\<rparr>)
                 } else Some st);
          let d = d\<lparr>df_packets := (df_packets d)(m_packet_id m \<mapsto> st)\<rparr>;
          if unat (ps_count st) = length (ps_fragments st)
          then do {
            bs \<leftarrow> assemble (ps_fragments st);
            Some (Some (m\<lparr>m_data := bs, m_frag_id := 0, m_frag_count := 1\<rparr>),
                  remove_packet (m_packet_id m) d)
          }
          else Some (None, d)
        })"

section \<open>The fragmenter\<close>

definition fragment_of :: "UDPMessage \<Rightarrow> u8 \<Rightarrow> nat \<Rightarrow> bytes \<Rightarrow> UDPMessage" where
  "fragment_of m n i d = m\<lparr>m_frag_id := of_nat i, m_frag_count := n, m_data := d\<rparr>"

definition fragments_of :: "UDPMessage \<Rightarrow> nat \<Rightarrow> UDPMessage list" where
  "fragments_of m k =
     map (\<lambda>(i, d). fragment_of m (of_nat (length (chunks k (m_data m)))) i d)
       (enumerate 0 (chunks k (m_data m)))"

lemma of_nat_u8_255: "i \<le> 255 \<Longrightarrow> (of_nat i :: u8) = 255 \<longleftrightarrow> i = 255"
  by (simp add: word_unat_eq_iff unat_of_nat)

lemma frag_loop_chunks:
  assumes "0 < k"
  shows "(checks \<longrightarrow> i + length (chunks k (drop offset (m_data m))) \<le> 255) \<Longrightarrow>
    frag_loop checks m k n offset (of_nat i) =
      Some (map (\<lambda>(i, d). fragment_of m n i d) (enumerate i (chunks k (drop offset (m_data m)))))"
proof (induction "chunks k (drop offset (m_data m))" arbitrary: offset i)
  case Nil
  then have "drop offset (m_data m) = []"
    using assms chunks_step[of k "drop offset (m_data m)"] by force
  then show ?case by (simp add: frag_loop.simps)
next
  case (Cons c cs)
  then have less: "offset < length (m_data m)"
    by (metis chunks_Nil drop_eq_Nil list.distinct(1) not_le)
  let ?n = "min (length (m_data m) - offset) k"
  have c: "c = take k (drop offset (m_data m))" and cs: "cs = chunks k (drop (offset + ?n) (m_data m))"
    using Cons.hyps(2) chunks_step[OF assms, of "drop offset (m_data m)"] less
    by (auto simp: min_def add.commute)
  have "slice offset (offset + ?n) (m_data m) = Some c"
    using less by (auto simp: slice_def c min_def)
  moreover have "u8_inc checks (of_nat i) = Some (of_nat (Suc i))"
  proof -
    have "i \<le> 254" if checks
      using Cons.prems Cons.hyps(2)[symmetric] that by simp
    then have "checks \<longrightarrow> (of_nat i :: u8) \<noteq> 255"
      using of_nat_u8_255[of i] by auto
    then show ?thesis by (auto simp: u8_inc_def add.commute)
  qed
  moreover have "frag_loop checks m k n (offset + ?n) (of_nat (Suc i)) =
      Some (map (\<lambda>(i, d). fragment_of m n i d) (enumerate (Suc i) cs))"
    unfolding cs using Cons.prems Cons.hyps(2)[symmetric] cs
    by (intro Cons.hyps(1)) auto
  ultimately show ?case
    using less assms Cons.hyps(2)[symmetric]
    by (subst frag_loop.simps) (auto simp: fragment_of_def Let_def)
qed

text \<open>The fragmenter in closed form; with overflow checks it needs at most 255 pieces.\<close>

lemma frag_udp_message_eq:
  assumes "header_size m = Some h" and "h < max_size" and "max_size < h + length (m_data m)"
    and "checks \<longrightarrow> div_ceil (length (m_data m)) (max_size - h) \<le> 255"
  shows "frag_udp_message checks m max_size = Some (fragments_of m (max_size - h))"
  using assms frag_loop_chunks[of "max_size - h" checks 0 0 m]
  by (simp add: frag_udp_message_def message_size_def length_chunks fragments_of_def)

lemma frag_loop_overflow:
  assumes "0 < k" and "i \<le> 255" and "255 < i + length (chunks k (drop offset (m_data m)))"
  shows "frag_loop True m k n offset (of_nat i) = None"
  using assms(2,3)
proof (induction "chunks k (drop offset (m_data m))" arbitrary: offset i)
  case Nil
  then show ?case by simp
next
  case (Cons c cs)
  then have less: "offset < length (m_data m)"
    by (metis chunks_Nil drop_eq_Nil list.distinct(1) not_le)
  let ?n = "min (length (m_data m) - offset) k"
  have cs: "cs = chunks k (drop (offset + ?n) (m_data m))"
    using Cons.hyps(2) chunks_step[OF assms(1), of "drop offset (m_data m)"] less
    by (auto simp: min_def add.commute)
  have "offset + ?n \<le> length (m_data m)" using less by linarith
  then obtain d where slice: "slice offset (offset + ?n) (m_data m) = Some d"
    by (simp add: slice_def)
  show ?case
  proof (cases "i = 255")
    case True
    then have "u8_inc True (of_nat i) = None" by (simp add: u8_inc_def)
    then show ?thesis using slice less assms(1)
      by (subst frag_loop.simps) (simp add: Let_def)
  next
    case False
    then have "u8_inc True (of_nat i) = Some (of_nat (Suc i))"
      using Cons.prems(1) of_nat_u8_255[of i] by (simp add: u8_inc_def add.commute)
    moreover have "frag_loop True m k n (offset + ?n) (of_nat (Suc i)) = None"
      using False Cons.prems Cons.hyps(2)[symmetric] cs by (intro Cons.hyps(1)) auto
    ultimately show ?thesis using slice less assms(1)
      by (subst frag_loop.simps) (simp add: Let_def)
  qed
qed

section \<open>The reassembler's invariant\<close>

definition filled :: "'a option list \<Rightarrow> nat" where
  "filled fs = length (filter (\<lambda>f. f \<noteq> None) fs)"

definition payload :: "UDPMessage option list \<Rightarrow> nat" where
  "payload fs = sum_list (map (\<lambda>f. case f of None \<Rightarrow> 0 | Some m \<Rightarrow> length (m_data m)) fs)"

definition slot_ok :: "u16 \<Rightarrow> PacketState \<Rightarrow> nat \<Rightarrow> UDPMessage \<Rightarrow> bool" where
  "slot_ok pid st i m \<longleftrightarrow>
     m_packet_id m = pid \<and> m_session_id m = ps_session_id st \<and> m_addr m = ps_addr st \<and>
     unat (m_frag_id m) = i \<and> unat (m_frag_count m) = length (ps_fragments st)"

definition packet_ok :: "u16 \<Rightarrow> PacketState \<Rightarrow> bool" where
  "packet_ok pid st \<longleftrightarrow>
     2 \<le> length (ps_fragments st) \<and> length (ps_fragments st) \<le> 255 \<and>
     unat (ps_count st) = filled (ps_fragments st) \<and>
     1 \<le> filled (ps_fragments st) \<and> filled (ps_fragments st) < length (ps_fragments st) \<and>
     ps_size st = payload (ps_fragments st) \<and>
     (\<forall>i < length (ps_fragments st). \<forall>m. ps_fragments st ! i = Some m \<longrightarrow> slot_ok pid st i m)"

definition defragger_ok :: "Defragger \<Rightarrow> bool" where
  "defragger_ok d \<longleftrightarrow>
     distinct (df_order d) \<and> set (df_order d) = dom (df_packets d) \<and>
     length (df_order d) \<le> MAX_IN_FLIGHT_PACKETS \<and>
     (\<forall>pid st. df_packets d pid = Some st \<longrightarrow> packet_ok pid st)"

lemma filled_replicate [simp]: "filled (replicate n None) = 0"
  by (simp add: filled_def)

lemma filled_le: "filled fs \<le> length fs"
  by (simp add: filled_def)

lemma filled_store:
  "i < length fs \<Longrightarrow> fs ! i = None \<Longrightarrow> filled (fs[i := Some m]) = Suc (filled fs)"
proof (induction fs arbitrary: i)
  case Nil
  then show ?case by simp
next
  case (Cons f fs)
  then show ?case by (cases i) (auto simp: filled_def)
qed

lemma payload_replicate [simp]: "payload (replicate n None) = 0"
  by (induction n) (simp_all add: payload_def)

lemma payload_store:
  "i < length fs \<Longrightarrow> fs ! i = None \<Longrightarrow> payload (fs[i := Some m]) = payload fs + length (m_data m)"
proof (induction fs arbitrary: i)
  case Nil
  then show ?case by simp
next
  case (Cons f fs)
  then show ?case by (cases i) (auto simp: payload_def)
qed

lemma filled_all:
  assumes "filled fs = length fs"
  shows "\<forall>f \<in> set fs. f \<noteq> None"
proof (rule ccontr)
  assume "\<not> ?thesis"
  then have "length (filter (\<lambda>f. f \<noteq> None) fs) < length fs"
    by (intro length_filter_less[where x = None]) auto
  with assms show False by (simp add: filled_def)
qed

lemma assemble_all:
  "\<forall>f \<in> set fs. f \<noteq> None \<Longrightarrow> assemble fs = Some (concat (map (m_data \<circ> the) fs))"
  by (induction fs rule: assemble.induct) auto

lemma evict_eq:
  "evict packets order =
     (let k = Suc (length order) - MAX_IN_FLIGHT_PACKETS in
      (\<lambda>x. if x \<in> set (take k order) then None else packets x, drop k order))"
proof (induction packets order rule: evict.induct)
  case (1 packets)
  then show ?case by (simp add: MAX_IN_FLIGHT_PACKETS_def)
next
  case (2 packets oldest order)
  show ?case
  proof (cases "MAX_IN_FLIGHT_PACKETS \<le> length (oldest # order)")
    case True
    then have "Suc (length (oldest # order)) - MAX_IN_FLIGHT_PACKETS =
        Suc (Suc (length order) - MAX_IN_FLIGHT_PACKETS)"
      by (simp add: Suc_diff_le)
    moreover have "evict packets (oldest # order) = evict (packets(oldest := None)) order"
      using True by simp
    ultimately show ?thesis
      unfolding 2[OF True] by (auto simp: Let_def)
  next
    case False
    then show ?thesis by simp
  qed
qed

lemma remove_packet_ok:
  assumes "defragger_ok d"
  shows "defragger_ok (remove_packet pid d)"
proof -
  have "set (remove1 pid (df_order d)) = dom ((df_packets d)(pid := None))"
    using assms by (simp add: defragger_ok_def set_remove1_eq)
  moreover have "length (remove1 pid (df_order d)) \<le> MAX_IN_FLIGHT_PACKETS"
    using assms by (auto simp: defragger_ok_def length_remove1)
  ultimately show ?thesis
    using assms by (simp add: defragger_ok_def remove_packet_def)
qed

definition first_state :: "UDPMessage \<Rightarrow> PacketState" where
  "first_state m =
     \<lparr>ps_session_id = m_session_id m, ps_addr = m_addr m,
      ps_fragments = (replicate (unat (m_frag_count m)) None)[unat (m_frag_id m) := Some m],
      ps_count = 1, ps_size = length (m_data m)\<rparr>"

definition kept_order :: "u16 \<Rightarrow> Defragger \<Rightarrow> u16 list" where
  "kept_order pid d =
     (let order = remove1 pid (df_order d) in
      drop (Suc (length order) - MAX_IN_FLIGHT_PACKETS) order)"

lemma insert_packet_eq:
  assumes "unat (m_frag_id m) < unat (m_frag_count m)" and "defragger_ok d"
  shows "insert_packet pid (unat (m_frag_count m)) m d =
    Some (d\<lparr>df_packets := (df_packets d |` set (kept_order pid d))(pid \<mapsto> first_state m),
           df_order := kept_order pid d @ [pid]\<rparr>)"
proof -
  let ?order = "remove1 pid (df_order d)" and ?packets = "(df_packets d)(pid := None)"
  let ?k = "Suc (length ?order) - MAX_IN_FLIGHT_PACKETS"
  have "distinct ?order" and dom: "set ?order = dom ?packets"
    using assms(2) by (simp_all add: defragger_ok_def set_remove1_eq)
  then have "set (take ?k ?order) \<inter> set (drop ?k ?order) = {}"
    by (simp add: set_take_disj_set_drop_if_distinct)
  moreover have "set (take ?k ?order) \<union> set (drop ?k ?order) = dom ?packets"
    unfolding dom[symmetric] by (metis append_take_drop_id set_append)
  ultimately have "(\<lambda>x. if x \<in> set (take ?k ?order) then None else ?packets x)(pid \<mapsto> st) =
      (df_packets d |` set (drop ?k ?order))(pid \<mapsto> st)" for st
    by (auto simp: fun_eq_iff restrict_map_def dom_def)
  then show ?thesis
    using assms(1)
    by (simp add: insert_packet_def remove_packet_def evict_eq Let_def store_at_def
        kept_order_def first_state_def cong: if_cong)
qed

lemma kept_order_ok:
  assumes "defragger_ok d"
  shows "distinct (kept_order pid d)" and "pid \<notin> set (kept_order pid d)"
    and "set (kept_order pid d) \<subseteq> dom (df_packets d)"
    and "Suc (length (kept_order pid d)) \<le> MAX_IN_FLIGHT_PACKETS"
proof -
  let ?order = "remove1 pid (df_order d)"
  have d: "distinct ?order" "pid \<notin> set ?order" "set ?order \<subseteq> dom (df_packets d)"
    using assms by (auto simp: defragger_ok_def)
  have sub: "set (kept_order pid d) \<subseteq> set ?order"
    by (simp add: kept_order_def Let_def set_drop_subset)
  show "distinct (kept_order pid d)" using d(1) by (simp add: kept_order_def Let_def)
  show "pid \<notin> set (kept_order pid d)" using sub d(2) by blast
  show "set (kept_order pid d) \<subseteq> dom (df_packets d)" using sub d(3) by blast
  show "Suc (length (kept_order pid d)) \<le> MAX_IN_FLIGHT_PACKETS"
    by (simp add: kept_order_def Let_def MAX_IN_FLIGHT_PACKETS_def)
qed

lemma first_state_ok:
  assumes "1 < m_frag_count m" and "m_frag_id m < m_frag_count m"
  shows "packet_ok (m_packet_id m) (first_state m)"
proof -
  let ?n = "unat (m_frag_count m)" and ?i = "unat (m_frag_id m)"
  have n: "2 \<le> ?n" "?n \<le> 255" and i: "?i < ?n"
    using assms unsigned_less[where ?'a = nat, of "m_frag_count m"]
    by (simp_all add: word_less_nat_alt)
  have "filled (ps_fragments (first_state m)) = 1" and "payload (ps_fragments (first_state m)) = length (m_data m)"
    using i by (simp_all add: first_state_def filled_store payload_store)
  with n i show ?thesis
    by (auto simp: packet_ok_def first_state_def slot_ok_def nth_list_update split: if_splits)
qed

lemma insert_packet_ok:
  assumes "defragger_ok d" and "1 < m_frag_count m" and "m_frag_id m < m_frag_count m"
  shows "defragger_ok (d\<lparr>df_packets := (df_packets d |` set (kept_order (m_packet_id m) d))
             (m_packet_id m \<mapsto> first_state m),
           df_order := kept_order (m_packet_id m) d @ [m_packet_id m]\<rparr>)"
  using kept_order_ok[OF assms(1), of "m_packet_id m"] first_state_ok[OF assms(2,3)] assms(1)
  by (auto simp: defragger_ok_def restrict_map_def split: if_splits)

text \<open>Storing a fragment that is still missing.\<close>

definition stored :: "PacketState \<Rightarrow> UDPMessage \<Rightarrow> PacketState" where
  "stored st m =
     st\<lparr>ps_size := ps_size st + length (m_data m), ps_count := ps_count st + 1,
        ps_fragments := (ps_fragments st)[unat (m_frag_id m) := Some m]\<rparr>"

lemma stored_count:
  assumes "packet_ok pid st" and "unat (m_frag_id m) < length (ps_fragments st)"
    and "ps_fragments st ! unat (m_frag_id m) = None"
  shows "u8_inc checks (ps_count st) = Some (ps_count st + 1)"
    and "unat (ps_count (stored st m)) = filled (ps_fragments (stored st m))"
    and "ps_size (stored st m) = payload (ps_fragments (stored st m))"
    and "length (ps_fragments (stored st m)) = length (ps_fragments st)"
proof -
  have lt: "unat (ps_count st) < 255"
    using assms(1) by (auto simp: packet_ok_def)
  then have "ps_count st \<noteq> 255" by auto
  then show "u8_inc checks (ps_count st) = Some (ps_count st + 1)"
    by (simp add: u8_inc_def)
  have "unat (ps_count st + 1) = Suc (unat (ps_count st))"
    using lt by (simp add: unat_word_ariths)
  with assms show "unat (ps_count (stored st m)) = filled (ps_fragments (stored st m))"
    by (simp add: stored_def filled_store packet_ok_def)
  from assms show "ps_size (stored st m) = payload (ps_fragments (stored st m))"
    by (simp add: stored_def payload_store packet_ok_def)
  show "length (ps_fragments (stored st m)) = length (ps_fragments st)"
    by (simp add: stored_def)
qed

text \<open>The three outcomes of a fragment that belongs to a known packet.\<close>

lemma feed_known:
  assumes "1 < m_frag_count m" and "m_frag_id m < m_frag_count m" and "\<not> reset_packet d m"
    and "df_packets d (m_packet_id m) = Some st" and "packet_ok (m_packet_id m) st"
  shows "feed checks d m =
    (if ps_fragments st ! unat (m_frag_id m) \<noteq> None then Some (None, d)
     else if filled (ps_fragments (stored st m)) = length (ps_fragments st)
     then Some (Some (m\<lparr>m_data := concat (map (m_data \<circ> the) (ps_fragments (stored st m))),
                        m_frag_id := 0, m_frag_count := 1\<rparr>),
                remove_packet (m_packet_id m) d)
     else Some (None, d\<lparr>df_packets := (df_packets d)(m_packet_id m \<mapsto> stored st m)\<rparr>))"
proof -
  let ?i = "unat (m_frag_id m)"
  have i: "?i < length (ps_fragments st)"
    using assms(2-4) by (auto simp: reset_packet_def word_less_nat_alt)
  have guards: "\<not> m_frag_count m \<le> 1" "\<not> m_frag_count m \<le> m_frag_id m"
    using assms(1,2) by simp_all
  have load: "load_at ?i (ps_fragments st) = Some (ps_fragments st ! ?i)"
    using i by (simp add: load_at_def)
  show ?thesis
  proof (cases "ps_fragments st ! ?i")
    case None
    note c = stored_count[OF assms(5) i None]
    have st: "st\<lparr>ps_size := ps_size st + length (m_data m), ps_count := ps_count st + 1,
          ps_fragments := (ps_fragments st)[?i := Some m]\<rparr> = stored st m"
      by (simp add: stored_def)
    have gone: "remove_packet (m_packet_id m)
        (d\<lparr>df_packets := (df_packets d)(m_packet_id m \<mapsto> s)\<rparr>) = remove_packet (m_packet_id m) d" for s
      by (simp add: remove_packet_def)
    have "filled (ps_fragments (stored st m)) = length (ps_fragments st) \<Longrightarrow>
        assemble (ps_fragments (stored st m)) =
          Some (concat (map (m_data \<circ> the) (ps_fragments (stored st m))))"
      using c(4) by (intro assemble_all filled_all) simp
    then show ?thesis
      using guards None assms(3,4) load i c(2,4)
      by (auto simp: feed_def c(1) st gone store_at_def)
  next
    case (Some f)
    have "df_packets d = (df_packets d)(m_packet_id m \<mapsto> st)"
      using assms(4) by (simp add: fun_upd_idem)
    moreover have "unat (ps_count st) \<noteq> length (ps_fragments st)"
      using assms(5) by (simp add: packet_ok_def)
    ultimately show ?thesis
      using guards Some assms(3,4) load by (simp add: feed_def)
  qed
qed

lemma stored_ok:
  assumes "packet_ok (m_packet_id m) st" and "\<not> reset_packet d m" and "m_frag_id m < m_frag_count m"
    and "df_packets d (m_packet_id m) = Some st" and "ps_fragments st ! unat (m_frag_id m) = None"
    and "filled (ps_fragments (stored st m)) \<noteq> length (ps_fragments st)"
  shows "packet_ok (m_packet_id m) (stored st m)"
proof -
  have i: "unat (m_frag_id m) < length (ps_fragments st)"
    and m: "slot_ok (m_packet_id m) (stored st m) (unat (m_frag_id m)) m"
    using assms(2-4) by (auto simp: reset_packet_def word_less_nat_alt slot_ok_def stored_def)
  note c = stored_count[OF assms(1) i assms(5)]
  have "filled (ps_fragments (stored st m)) < length (ps_fragments st)"
    using assms(6) filled_le[of "ps_fragments (stored st m)"] c(4) by simp
  moreover have "1 \<le> filled (ps_fragments (stored st m))"
    using assms(5) i by (simp add: stored_def filled_store)
  moreover have "slot_ok (m_packet_id m) (stored st m) j f"
    if "j < length (ps_fragments st)" and "ps_fragments (stored st m) ! j = Some f" for j f
  proof (cases "j = unat (m_frag_id m)")
    case True
    with that m show ?thesis by (simp add: stored_def)
  next
    case False
    then have "slot_ok (m_packet_id m) st j f"
      using that assms(1) by (simp add: packet_ok_def stored_def)
    then show ?thesis by (simp add: slot_ok_def stored_def)
  qed
  ultimately show ?thesis
    using assms(1) c(2-4) by (simp add: packet_ok_def)
qed

lemma feed_total:
  assumes "defragger_ok d"
  shows "\<exists>r d'. feed checks d m = Some (r, d') \<and> defragger_ok d'"
proof -
  consider "m_frag_count m \<le> 1" | "1 < m_frag_count m" "m_frag_count m \<le> m_frag_id m"
    | "1 < m_frag_count m" "m_frag_id m < m_frag_count m" "reset_packet d m"
    | "1 < m_frag_count m" "m_frag_id m < m_frag_count m" "\<not> reset_packet d m"
    by (meson not_le)
  then show ?thesis
  proof cases
    case 3
    then have "\<not> m_frag_count m \<le> 1" "\<not> m_frag_count m \<le> m_frag_id m"
      "unat (m_frag_id m) < unat (m_frag_count m)" by (simp_all add: word_less_nat_alt word_le_nat_alt)
    with 3(3) show ?thesis
      using insert_packet_ok[OF assms 3(1,2)] insert_packet_eq[OF _ assms, of m "m_packet_id m"]
      by (simp add: feed_def)
  next
    case 4
    then obtain st where st: "df_packets d (m_packet_id m) = Some st"
      by (auto simp: reset_packet_def split: option.splits)
    then have ok: "packet_ok (m_packet_id m) st"
      using assms by (simp add: defragger_ok_def)
    have "defragger_ok (d\<lparr>df_packets := (df_packets d)(m_packet_id m \<mapsto> stored st m)\<rparr>)"
      if "packet_ok (m_packet_id m) (stored st m)"
      using assms st that by (auto simp: defragger_ok_def)
    with stored_ok[OF ok 4(3,2) st] remove_packet_ok[OF assms] assms show ?thesis
      unfolding feed_known[OF 4 st ok] by auto
  qed (use assms in \<open>auto simp: feed_def\<close>)
qed

lemma new_defragger_ok: "defragger_ok new_defragger"
  by (simp add: defragger_ok_def new_defragger_def)

interpretation defrag: panic_free new_defragger "feed checks" defragger_ok for checks
  by unfold_locales (rule new_defragger_ok, rule feed_total)

lemma feed_output_id:
  assumes "feed checks d m = Some (Some out, d')"
  shows "m_packet_id out = m_packet_id m"
  using assms
  by (auto simp: feed_def Let_def split: if_splits option.splits bind_splits)

section \<open>Reassembly under reordering and interleaving\<close>

fun delivered :: "'a option list \<Rightarrow> 'a list" where
  "delivered [] = []"
| "delivered (None # xs) = delivered xs"
| "delivered (Some x # xs) = x # delivered xs"

definition slots :: "UDPMessage \<Rightarrow> nat \<Rightarrow> nat set \<Rightarrow> UDPMessage option list" where
  "slots m k S =
     map (\<lambda>i. if i \<in> S then Some (fragments_of m k ! i) else None) [0..<length (fragments_of m k)]"

text \<open>
  The reassembler has seen exactly the fragments with index in \<open>S\<close>, and everything queued
  behind the packet is one of the packets in \<open>seen\<close>.
\<close>

definition tracking :: "UDPMessage \<Rightarrow> nat \<Rightarrow> u16 set \<Rightarrow> nat set \<Rightarrow> Defragger \<Rightarrow> bool" where
  "tracking m k seen S d \<longleftrightarrow>
     defragger_ok d \<and>
     (if S = {} then df_packets d (m_packet_id m) = None
      else \<exists>st pre post.
        df_packets d (m_packet_id m) = Some st \<and> ps_session_id st = m_session_id m \<and>
        ps_addr st = m_addr m \<and> ps_fragments st = slots m k S \<and>
        df_order d = pre @ m_packet_id m # post \<and> set post \<subseteq> seen)"

lemma length_fragments_of [simp]: "length (fragments_of m k) = length (chunks k (m_data m))"
  by (simp add: fragments_of_def)

lemma nth_fragments_of:
  "i < length (chunks k (m_data m)) \<Longrightarrow>
     fragments_of m k ! i = fragment_of m (of_nat (length (chunks k (m_data m)))) i (chunks k (m_data m) ! i)"
  by (simp add: fragments_of_def nth_enumerate_eq)

lemma length_slots [simp]: "length (slots m k S) = length (chunks k (m_data m))"
  by (simp add: slots_def)

lemma slots_insert:
  "i < length (chunks k (m_data m)) \<Longrightarrow>
     (slots m k S)[i := Some (fragments_of m k ! i)] = slots m k (insert i S)"
  by (rule nth_equalityI) (auto simp: slots_def nth_list_update)

lemma slots_single:
  "i < length (chunks k (m_data m)) \<Longrightarrow>
     (replicate (length (chunks k (m_data m))) None)[i := Some (fragments_of m k ! i)] = slots m k {i}"
  by (rule nth_equalityI) (auto simp: slots_def nth_list_update)

lemma slots_full:
  assumes "{..<length (chunks k (m_data m))} \<subseteq> S"
  shows "filled (slots m k S) = length (chunks k (m_data m))"
    and "map (m_data \<circ> the) (slots m k S) = chunks k (m_data m)"
proof -
  have "slots m k S = map (Some \<circ> (\<lambda>i. fragments_of m k ! i)) [0..<length (chunks k (m_data m))]"
    unfolding slots_def using assms by auto
  then show "filled (slots m k S) = length (chunks k (m_data m))"
    and "map (m_data \<circ> the) (slots m k S) = chunks k (m_data m)"
    by (auto simp: filled_def filter_map comp_def nth_fragments_of fragment_of_def
        intro: nth_equalityI)
qed

lemma slots_partial:
  assumes "i < length (chunks k (m_data m))" and "i \<notin> S"
  shows "filled (slots m k S) < length (chunks k (m_data m))"
proof -
  have "None \<in> set (slots m k S)"
    using assms by (auto simp: slots_def)
  then have "length (filter (\<lambda>f. f \<noteq> None) (slots m k S)) < length (slots m k S)"
    by (intro length_filter_less[where x = None]) auto
  then show ?thesis by (simp add: filled_def)
qed

lemma fragment_fields:
  assumes "i < length (chunks k (m_data m))" and "length (chunks k (m_data m)) \<le> 255"
  shows "m_packet_id (fragments_of m k ! i) = m_packet_id m"
    and "m_session_id (fragments_of m k ! i) = m_session_id m"
    and "m_addr (fragments_of m k ! i) = m_addr m"
    and "unat (m_frag_id (fragments_of m k ! i)) = i"
    and "unat (m_frag_count (fragments_of m k ! i)) = length (chunks k (m_data m))"
  using assms by (simp_all add: nth_fragments_of fragment_of_def unat_of_nat)

lemma fragment_guards:
  assumes "i < length (chunks k (m_data m))" and "2 \<le> length (chunks k (m_data m))"
    and "length (chunks k (m_data m)) \<le> 255"
  shows "1 < m_frag_count (fragments_of m k ! i)"
    and "m_frag_id (fragments_of m k ! i) < m_frag_count (fragments_of m k ! i)"
  using assms fragment_fields[OF assms(1,3)] by (simp_all add: word_less_nat_alt)

lemma feed_first:
  assumes "tracking m k seen {} d" and i: "i < length (chunks k (m_data m))"
    and n: "2 \<le> length (chunks k (m_data m))" "length (chunks k (m_data m)) \<le> 255"
  shows "\<exists>d'. feed checks d (fragments_of m k ! i) = Some (None, d') \<and> tracking m k seen {i} d'"
proof -
  let ?f = "fragments_of m k ! i"
  note f = fragment_fields[OF i n(2)] and g = fragment_guards[OF i n]
  have d: "defragger_ok d" "reset_packet d ?f"
    using assms(1) by (simp_all add: tracking_def reset_packet_def f)
  have ng: "\<not> m_frag_count ?f \<le> 1" "\<not> m_frag_count ?f \<le> m_frag_id ?f"
    "unat (m_frag_id ?f) < unat (m_frag_count ?f)"
    using g by (simp_all add: word_less_nat_alt word_le_nat_alt)
  let ?d = "d\<lparr>df_packets := (df_packets d |` set (kept_order (m_packet_id ?f) d))
      (m_packet_id ?f \<mapsto> first_state ?f), df_order := kept_order (m_packet_id ?f) d @ [m_packet_id ?f]\<rparr>"
  have "feed checks d ?f = Some (None, ?d)"
    using ng d insert_packet_eq[OF ng(3) d(1)] by (simp add: feed_def)
  moreover have "\<exists>pre post. kept_order (m_packet_id m) d @ [m_packet_id m] = pre @ m_packet_id m # post \<and>
      set post \<subseteq> seen"
    by (rule exI, rule exI[of _ "[]"]) simp
  then have "tracking m k seen {i} ?d"
    using insert_packet_ok[OF d(1) g] slots_single[OF i]
    by (simp add: tracking_def first_state_def f)
  ultimately show ?thesis by blast
qed

lemma feed_next:
  assumes "tracking m k seen S d" and "S \<noteq> {}" and i: "i < length (chunks k (m_data m))" "i \<notin> S"
    and n: "2 \<le> length (chunks k (m_data m))" "length (chunks k (m_data m)) \<le> 255"
  shows "\<exists>r d'. feed checks d (fragments_of m k ! i) = Some (r, d') \<and>
    (if {..<length (chunks k (m_data m))} \<subseteq> insert i S
     then r = Some (m\<lparr>m_data := concat (chunks k (m_data m)), m_frag_id := 0, m_frag_count := 1\<rparr>) \<and>
       defragger_ok d'
     else r = None \<and> tracking m k seen (insert i S) d')"
proof -
  let ?f = "fragments_of m k ! i" and ?n = "length (chunks k (m_data m))"
  note f = fragment_fields[OF i(1) n(2)] and g = fragment_guards[OF i(1) n]
  obtain st pre post where st: "df_packets d (m_packet_id m) = Some st"
      "ps_session_id st = m_session_id m" "ps_addr st = m_addr m" "ps_fragments st = slots m k S"
    and order: "df_order d = pre @ m_packet_id m # post" "set post \<subseteq> seen" and d: "defragger_ok d"
    using assms(1,2) by (auto simp: tracking_def)
  have st': "df_packets d (m_packet_id ?f) = Some st" and nr: "\<not> reset_packet d ?f"
    and ok: "packet_ok (m_packet_id ?f) st"
    using st d by (simp_all add: f reset_packet_def defragger_ok_def)
  have none: "ps_fragments st ! unat (m_frag_id ?f) = None"
    using i by (simp add: st(4) f slots_def)
  have frs: "ps_fragments (stored st ?f) = slots m k (insert i S)"
    using i(1) by (simp add: stored_def st(4) f slots_insert)
  note known = feed_known[OF g nr st' ok, of checks]
  show ?thesis
  proof (cases "{..<?n} \<subseteq> insert i S")
    case True
    have "?f\<lparr>m_data := x, m_frag_id := 0, m_frag_count := 1\<rparr> =
        m\<lparr>m_data := x, m_frag_id := 0, m_frag_count := 1\<rparr>" for x
      using i(1) by (simp add: nth_fragments_of fragment_of_def)
    with known True none slots_full[OF True] remove_packet_ok[OF d] show ?thesis
      by (simp add: frs st(4))
  next
    case False
    then obtain j where "j < ?n" "j \<notin> insert i S" by auto
    from slots_partial[OF this] have part: "filled (slots m k (insert i S)) \<noteq> ?n" by simp
    let ?d = "d\<lparr>df_packets := (df_packets d)(m_packet_id m \<mapsto> stored st ?f)\<rparr>"
    have "feed checks d ?f = Some (None, ?d)"
      using known none part by (simp add: frs st(4) f)
    moreover have "packet_ok (m_packet_id m) (stored st ?f)"
      using stored_ok[OF ok nr g(2) st' none] part by (simp add: frs st(4) f)
    then have "defragger_ok ?d"
      using d st(1) by (auto simp: defragger_ok_def)
    then have "tracking m k seen (insert i S) ?d"
      using order frs st(2,3) by (auto simp: tracking_def stored_def)
    ultimately show ?thesis using False by auto
  qed
qed

lemma remove1_keeps:
  assumes "xs = pre @ p # post" and "x \<noteq> p" and "distinct xs"
  obtains pre' post' where "remove1 x xs = pre' @ p # post'" and "set post' \<subseteq> set post - {x}"
proof (cases "x \<in> set pre")
  case True
  with assms that[of "remove1 x pre" post] show ?thesis by (auto simp: remove1_append)
next
  case False
  with assms that[of pre "remove1 x post"] show ?thesis by (auto simp: remove1_append)
qed

text \<open>
  A packet is evicted only when 63 younger ones are queued behind it and another one
  arrives; with at most 63 other packets in flight it stays.
\<close>

lemma kept_order_keeps:
  assumes "df_order d = pre @ p # post" and "x \<noteq> p" and "defragger_ok d" and "set post \<subseteq> seen"
    and "finite seen" and "card seen < MAX_IN_FLIGHT_PACKETS" and "x \<in> seen"
  obtains pre' post' where "kept_order x d = pre' @ p # post'" and "set post' \<subseteq> seen"
proof -
  have dist: "distinct (df_order d)" "length (df_order d) \<le> 64"
    using assms(3) by (simp_all add: defragger_ok_def MAX_IN_FLIGHT_PACKETS_def)
  obtain pre' post' where eq: "remove1 x (df_order d) = pre' @ p # post'"
    and sub: "set post' \<subseteq> set post - {x}"
    using remove1_keeps[OF assms(1,2) dist(1)] .
  let ?k = "Suc (length (pre' @ p # post')) - 64"
  have "distinct (remove1 x (df_order d))" using dist(1) by simp
  then have dp: "distinct post'" unfolding eq by simp
  have "card (set post') \<le> card (seen - {x})"
    using sub assms(4,5) by (intro card_mono) auto
  then have "length post' < 63"
    using dp assms(5-7) by (simp add: distinct_card MAX_IN_FLIGHT_PACKETS_def)
  moreover have "length (remove1 x (df_order d)) \<le> 64"
    using dist(2) by (auto simp: length_remove1)
  then have "length pre' + length post' \<le> 63" unfolding eq by simp
  ultimately have "?k \<le> length pre'" by simp
  then have "kept_order x d = drop ?k pre' @ p # post'"
    by (simp add: kept_order_def eq MAX_IN_FLIGHT_PACKETS_def)
  with that sub assms(4) show ?thesis by blast
qed

lemma tracking_transfer:
  assumes "tracking m k seen S d" and "defragger_ok d'"
    and "df_packets d' (m_packet_id m) = df_packets d (m_packet_id m)"
    and "\<And>pre post. df_order d = pre @ m_packet_id m # post \<Longrightarrow> set post \<subseteq> seen \<Longrightarrow>
      \<exists>pre post. df_order d' = pre @ m_packet_id m # post \<and> set post \<subseteq> seen"
  shows "tracking m k seen S d'"
  using assms by (fastforce simp: tracking_def split: if_splits)

lemma tracking_remove:
  assumes "tracking m k seen S d" and "x \<noteq> m_packet_id m"
  shows "tracking m k seen S (remove_packet x d)"
proof (rule tracking_transfer[OF assms(1)])
  have d: "defragger_ok d" using assms(1) by (simp add: tracking_def)
  then show "defragger_ok (remove_packet x d)" by (rule remove_packet_ok)
  show "df_packets (remove_packet x d) (m_packet_id m) = df_packets d (m_packet_id m)"
    using assms(2) by (simp add: remove_packet_def)
  fix pre post assume o: "df_order d = pre @ m_packet_id m # post" "set post \<subseteq> seen"
  have "distinct (df_order d)" using d by (simp add: defragger_ok_def)
  from remove1_keeps[OF o(1) assms(2) this] o(2)
  show "\<exists>pre post. df_order (remove_packet x d) = pre @ m_packet_id m # post \<and> set post \<subseteq> seen"
    by (metis (no_types, lifting) Defragger.select_convs(2) Defragger.surjective
        Defragger.update_convs(2) Diff_subset remove_packet_def subset_trans)
qed

lemma tracking_insert:
  assumes "tracking m k seen S d" and "x \<noteq> m_packet_id m" and "x \<in> seen"
    and "finite seen" and "card seen < MAX_IN_FLIGHT_PACKETS"
    and "d' = d\<lparr>df_packets := (df_packets d |` set (kept_order x d))(x \<mapsto> st),
        df_order := kept_order x d @ [x]\<rparr>" and "defragger_ok d'"
  shows "tracking m k seen S d'"
proof (rule tracking_transfer[OF assms(1,7)])
  have d: "defragger_ok d" using assms(1) by (simp add: tracking_def)
  note keeps = kept_order_keeps[OF _ assms(2) d _ assms(4,5,3)]
  show "df_packets d' (m_packet_id m) = df_packets d (m_packet_id m)"
  proof (cases "S = {}")
    case True
    then show ?thesis using assms(1,2) by (simp add: assms(6) tracking_def restrict_map_def)
  next
    case False
    then obtain pre post where "df_order d = pre @ m_packet_id m # post" "set post \<subseteq> seen"
      using assms(1) by (auto simp: tracking_def)
    from keeps[OF this] have "m_packet_id m \<in> set (kept_order x d)"
      by (metis in_set_conv_decomp)
    then show ?thesis using assms(2) by (simp add: assms(6))
  qed
  fix pre post assume "df_order d = pre @ m_packet_id m # post" "set post \<subseteq> seen"
  from keeps[OF this] obtain pre' post'
    where "kept_order x d = pre' @ m_packet_id m # post'" "set post' \<subseteq> seen" .
  then show "\<exists>pre post. df_order d' = pre @ m_packet_id m # post \<and> set post \<subseteq> seen"
    using assms(3) by (intro exI[of _ pre'] exI[of _ "post' @ [x]"]) (simp add: assms(6))
qed

lemma feed_other:
  assumes "tracking m k seen S d" and other: "m_packet_id x \<noteq> m_packet_id m" "m_packet_id x \<in> seen"
    and "finite seen" and "card seen < MAX_IN_FLIGHT_PACKETS"
  shows "\<exists>r d'. feed checks d x = Some (r, d') \<and> tracking m k seen S d'"
proof -
  let ?x = "m_packet_id x"
  have d: "defragger_ok d" using assms(1) by (simp add: tracking_def)
  obtain r d' where fd: "feed checks d x = Some (r, d')" and d': "defragger_ok d'"
    using feed_total[OF d] by blast
  consider "d' = d" | "1 < m_frag_count x" "m_frag_id x < m_frag_count x" "reset_packet d x"
    | "1 < m_frag_count x" "m_frag_id x < m_frag_count x" "\<not> reset_packet d x"
    using fd by (auto simp: feed_def not_le split: if_splits)
  then show ?thesis
  proof cases
    case 1
    with fd assms(1) show ?thesis by auto
  next
    case 2
    then have lt: "unat (m_frag_id x) < unat (m_frag_count x)"
      "\<not> m_frag_count x \<le> 1" "\<not> m_frag_count x \<le> m_frag_id x"
      by (simp_all add: word_less_nat_alt word_le_nat_alt)
    then have "d' = d\<lparr>df_packets := (df_packets d |` set (kept_order ?x d))(?x \<mapsto> first_state x),
        df_order := kept_order ?x d @ [?x]\<rparr>"
      using fd 2(3) insert_packet_eq[OF lt(1) d] by (simp add: feed_def)
    with fd tracking_insert[OF assms(1) other assms(4,5) _ d'] show ?thesis by blast
  next
    case 3
    then obtain st where st: "df_packets d ?x = Some st"
      by (auto simp: reset_packet_def split: option.splits)
    then have "packet_ok ?x st" using d by (simp add: defragger_ok_def)
    from feed_known[OF 3 st this, of checks] fd
    have "d' = d \<or> d' = remove_packet ?x d \<or> d' = d\<lparr>df_packets := (df_packets d)(?x \<mapsto> stored st x)\<rparr>"
      by (auto split: if_splits)
    moreover have "tracking m k seen S d'" if "d' = d\<lparr>df_packets := (df_packets d)(?x \<mapsto> stored st x)\<rparr>"
      by (rule tracking_transfer[OF assms(1) d']) (use that other(1) in auto)
    ultimately show ?thesis using fd assms(1) tracking_remove[OF assms(1) other(1)] by blast
  qed
qed

lemma delivered_others:
  assumes "defragger_ok d" and "\<forall>x \<in> set msgs. m_packet_id x \<noteq> pid"
  shows "\<exists>outs d'. run_steps (feed checks) d msgs = Some (outs, d') \<and>
    filter (\<lambda>x. m_packet_id x = pid) (delivered outs) = [] \<and> defragger_ok d'"
  using assms
proof (induction msgs arbitrary: d)
  case Nil
  then show ?case by simp
next
  case (Cons x msgs)
  obtain r d' where fd: "feed checks d x = Some (r, d')" and "defragger_ok d'"
    using feed_total[OF Cons.prems(1)] by blast
  with Cons obtain outs d'' where "run_steps (feed checks) d' msgs = Some (outs, d'')"
    "filter (\<lambda>x. m_packet_id x = pid) (delivered outs) = []" "defragger_ok d''"
    by fastforce
  with fd feed_output_id[of checks d x _ d'] Cons.prems(2) show ?case
    by (cases r) auto
qed

lemma delivered_ids:
  assumes "run_steps (feed checks) d msgs = Some (outs, d')" and "y \<in> set (delivered outs)"
  shows "\<exists>x \<in> set msgs. m_packet_id y = m_packet_id x"
  using assms
proof (induction msgs arbitrary: d outs)
  case Nil
  then show ?case by simp
next
  case (Cons x msgs)
  then obtain r d1 outs' where "feed checks d x = Some (r, d1)" and outs: "outs = r # outs'"
    and "run_steps (feed checks) d1 msgs = Some (outs', d')"
    by (auto split: bind_splits)
  with Cons.IH[OF this(3)] Cons.prems(2) feed_output_id[of checks d x _ d1] show ?case
    by (cases r) auto
qed

lemma run_tracking:
  assumes n: "2 \<le> length (chunks k (m_data m))" "length (chunks k (m_data m)) \<le> 255"
    and seen: "finite seen" "card seen < MAX_IN_FLIGHT_PACKETS"
  shows "tracking m k seen S d \<Longrightarrow> S \<union> set is = {..<length (chunks k (m_data m))} \<Longrightarrow>
    S \<inter> set is = {} \<Longrightarrow> distinct is \<Longrightarrow> is \<noteq> [] \<Longrightarrow>
    filter (\<lambda>x. m_packet_id x = m_packet_id m) msgs = map ((!) (fragments_of m k)) is \<Longrightarrow>
    \<forall>x \<in> set msgs. m_packet_id x \<noteq> m_packet_id m \<longrightarrow> m_packet_id x \<in> seen \<Longrightarrow>
    \<exists>outs d'. run_steps (feed checks) d msgs = Some (outs, d') \<and> defragger_ok d' \<and>
      filter (\<lambda>x. m_packet_id x = m_packet_id m) (delivered outs) =
        [m\<lparr>m_data := concat (chunks k (m_data m)), m_frag_id := 0, m_frag_count := 1\<rparr>]"
    (is "_ \<Longrightarrow> _ \<Longrightarrow> _ \<Longrightarrow> _ \<Longrightarrow> _ \<Longrightarrow> _ \<Longrightarrow> _ \<Longrightarrow> ?goal d msgs")
proof (induction msgs arbitrary: S d "is")
  case Nil
  then show ?case by simp
next
  case (Cons x msgs)
  let ?n = "length (chunks k (m_data m))"
  show ?case
  proof (cases "m_packet_id x = m_packet_id m")
    case False
    then obtain r d' where fd: "feed checks d x = Some (r, d')" and t: "tracking m k seen S d'"
      using feed_other[OF Cons.prems(1) _ _ seen] Cons.prems(7) by fastforce
    have "?goal d' msgs"
      using Cons.prems False by (intro Cons.IH[OF t]) auto
    with fd feed_output_id[of checks d x _ d'] False show ?thesis by (cases r) auto
  next
    case True
    then obtain i js where "is": "is = i # js" and x: "x = fragments_of m k ! i"
      and rest: "filter (\<lambda>x. m_packet_id x = m_packet_id m) msgs = map ((!) (fragments_of m k)) js"
      using Cons.prems(5,6) by (cases "is") auto
    have i: "i < ?n" "i \<notin> S" and Si: "insert i S \<union> set js = {..<?n}" "insert i S \<inter> set js = {}"
      using Cons.prems(2-4) "is" by auto
    show ?thesis
    proof (cases "{..<?n} \<subseteq> insert i S")
      case True
      then have "js = []" using Si by (metis Int_absorb1 Un_upper2 le_sup_iff set_empty subset_empty inf.commute)
      then have none: "\<forall>x \<in> set msgs. m_packet_id x \<noteq> m_packet_id m"
        using rest by (simp add: filter_empty_conv)
      have "{0, 1} \<subseteq> {..<?n}" using n(1) by auto
      with True have "{0, 1} \<subseteq> insert i S" by blast
      then have "S \<noteq> {}" by auto
      from feed_next[OF Cons.prems(1) this i n, of checks] True x obtain d'
        where fd: "feed checks d x =
            Some (Some (m\<lparr>m_data := concat (chunks k (m_data m)), m_frag_id := 0, m_frag_count := 1\<rparr>), d')"
          and "defragger_ok d'" by auto
      with delivered_others[OF _ none, of d' checks] show ?thesis by auto
    next
      case False
      have "\<exists>d'. feed checks d x = Some (None, d') \<and> tracking m k seen (insert i S) d'"
      proof (cases "S = {}")
        case True
        with feed_first[of m k seen d i checks] Cons.prems(1) i n x show ?thesis by simp
      next
        case nonempty: False
        from feed_next[OF Cons.prems(1) this i n, of checks] False x show ?thesis by auto
      qed
      then obtain d' where fd: "feed checks d x = Some (None, d')" and t: "tracking m k seen (insert i S) d'"
        by blast
      have "js \<noteq> []" using False Si by auto
      then have "?goal d' msgs"
        using Cons.prems(4,7) "is" rest Si by (intro Cons.IH[OF t]) auto
      with fd show ?thesis by auto
    qed
  qed
qed

section \<open>Properties\<close>

text \<open>
  A message that does not fit the datagram size but needs at most 255 pieces is cut into
  consecutively numbered fragments of the same session, packet and address: each fits the
  datagram, none is empty, and their payloads concatenate to the original payload.
\<close>

lemma frag_udp_message_fits:
  assumes "header_size m = Some h" and "h < max_size" and "max_size < h + length (m_data m)"
    and "div_ceil (length (m_data m)) (max_size - h) \<le> 255"
  shows "\<exists>fs. frag_udp_message checks m max_size = Some fs \<and>
    concat (map m_data fs) = m_data m \<and>
    length fs = div_ceil (length (m_data m)) (max_size - h) \<and>
    (\<forall>i < length fs. fs ! i = m\<lparr>m_frag_id := of_nat i, m_frag_count := of_nat (length fs),
         m_data := m_data (fs ! i)\<rparr> \<and> m_data (fs ! i) \<noteq> [] \<and>
       (\<exists>size \<le> max_size. message_size (fs ! i) = Some size))"
proof -
  let ?k = "max_size - h" and ?fs = "fragments_of m (max_size - h)"
  have k: "0 < ?k" using assms(2) by simp
  have "frag_udp_message checks m max_size = Some ?fs"
    using assms by (intro frag_udp_message_eq) auto
  moreover have "map m_data ?fs = chunks ?k (m_data m)"
    by (rule nth_equalityI) (simp_all add: nth_fragments_of fragment_of_def)
  then have "concat (map m_data ?fs) = m_data m" using concat_chunks[OF k] by simp
  moreover have "chunks ?k (m_data m) ! i \<noteq> [] \<and> h + length (chunks ?k (m_data m) ! i) \<le> max_size"
    if "i < length ?fs" for i
    using that chunks_bounds[of "chunks ?k (m_data m) ! i" ?k "m_data m"] assms(2) by (auto simp: le_diff_conv2)
  moreover have "header_size (fragment_of m n i d) = Some h" for n i d
    using assms(1) by (simp add: header_size_def fragment_of_def)
  ultimately show ?thesis
    using k length_chunks[OF k, of "m_data m"]
    by (intro exI[of _ ?fs]) (auto simp: nth_fragments_of message_size_def fragment_of_def)
qed

text \<open>
  C2: The fragments of a message may arrive in any order, interleaved with the traffic of up to
  63 other packets: a reassembler that does not know the packet yet delivers the original
  message exactly once, with its payload intact.
\<close>

theorem defragger_reassembles:
  assumes "header_size m = Some h" and "h < max_size" and "max_size < h + length (m_data m)"
    and "div_ceil (length (m_data m)) (max_size - h) \<le> 255"
    and "frag_udp_message checks m max_size = Some fs"
    and "defragger_ok d" and "df_packets d (m_packet_id m) = None"
    and "filter (\<lambda>x. m_packet_id x = m_packet_id m) msgs = map ((!) fs) is"
    and "distinct is" and "set is = {..<length fs}"
    and "card (m_packet_id ` {x \<in> set msgs. m_packet_id x \<noteq> m_packet_id m}) < MAX_IN_FLIGHT_PACKETS"
  shows "\<exists>outs d'. run_steps (feed checks) d msgs = Some (outs, d') \<and> defragger_ok d' \<and>
    filter (\<lambda>x. m_packet_id x = m_packet_id m) (delivered outs) = [m\<lparr>m_frag_id := 0, m_frag_count := 1\<rparr>]"
proof -
  let ?k = "max_size - h" and ?seen = "m_packet_id ` {x \<in> set msgs. m_packet_id x \<noteq> m_packet_id m}"
  have k: "0 < ?k" and len: "?k < length (m_data m)" using assms(2,3) by auto
  have fs: "fs = fragments_of m ?k"
    using frag_udp_message_eq[OF assms(1-3)] assms(4,5) by simp
  have n: "2 \<le> length (chunks ?k (m_data m))" "length (chunks ?k (m_data m)) \<le> 255"
    unfolding length_chunks[OF k] using assms(4) div_ceil_two[OF k len] by simp_all
  have "0 \<in> {..<length fs}" unfolding fs length_fragments_of lessThan_iff using n(1) by linarith
  then have "is \<noteq> []" unfolding assms(10)[symmetric] by auto
  moreover have "tracking m ?k ?seen {} d" using assms(6,7) by (simp add: tracking_def)
  moreover have "m\<lparr>m_data := concat (chunks ?k (m_data m)), m_frag_id := 0, m_frag_count := 1\<rparr> =
      m\<lparr>m_frag_id := 0, m_frag_count := 1\<rparr>"
    using concat_chunks[OF k, of "m_data m"] by simp
  moreover have "\<forall>x \<in> set msgs. m_packet_id x \<noteq> m_packet_id m \<longrightarrow> m_packet_id x \<in> ?seen"
    by simp
  ultimately show ?thesis
    using run_tracking[OF n _ assms(11), of "{}" d "is" msgs checks] assms(8-10) by (simp add: fs)
qed

definition sample_message :: "nat \<Rightarrow> UDPMessage" where
  "sample_message n = \<lparr>m_session_id = 1, m_packet_id = 2, m_frag_id = 0, m_frag_count = 1,
     m_addr = ''a'', m_data = map of_nat [0..<n]\<rparr>"

definition sample_fragment :: "nat \<Rightarrow> bytes \<Rightarrow> UDPMessage" where
  "sample_fragment i bs = (sample_message 5)\<lparr>m_frag_id := of_nat i, m_frag_count := 3, m_data := bs\<rparr>"

theorem defragger_reassembles_witness:
  "\<exists>outs d'. run_steps (feed True) new_defragger
      [sample_fragment 2 [4], (sample_message 3)\<lparr>m_packet_id := 7\<rparr>, sample_fragment 0 [0, 1],
       sample_fragment 1 [2, 3]] = Some (outs, d') \<and> defragger_ok d' \<and>
    filter (\<lambda>x. m_packet_id x = m_packet_id (sample_message 5)) (delivered outs) =
      [(sample_message 5)\<lparr>m_frag_id := 0, m_frag_count := 1\<rparr>]"
proof (rule defragger_reassembles)
  show "header_size (sample_message 5) = Some 10" by code_simp
  show "(10 :: nat) < 12" by simp
  show "12 < 10 + length (m_data (sample_message 5))" by code_simp
  show "div_ceil (length (m_data (sample_message 5))) (12 - 10) \<le> 255" by code_simp
  show "frag_udp_message True (sample_message 5) 12 =
      Some [sample_fragment 0 [0, 1], sample_fragment 1 [2, 3], sample_fragment 2 [4]]" by code_simp
  show "defragger_ok new_defragger" by (rule new_defragger_ok)
  show "df_packets new_defragger (m_packet_id (sample_message 5)) = None"
    by (simp add: new_defragger_def)
  show "filter (\<lambda>x. m_packet_id x = m_packet_id (sample_message 5))
      [sample_fragment 2 [4], (sample_message 3)\<lparr>m_packet_id := 7\<rparr>, sample_fragment 0 [0, 1],
       sample_fragment 1 [2, 3]] =
      map ((!) [sample_fragment 0 [0, 1], sample_fragment 1 [2, 3], sample_fragment 2 [4]]) [2, 0, 1]"
    by code_simp
  show "distinct [2, 0, 1 :: nat]" by simp
  show "set [2, 0, 1] =
      {..<length [sample_fragment 0 [0, 1], sample_fragment 1 [2, 3], sample_fragment 2 [4]]}"
    by auto
  have sub: "m_packet_id ` {x \<in> set [sample_fragment 2 [4], (sample_message 3)\<lparr>m_packet_id := 7\<rparr>,
      sample_fragment 0 [0, 1], sample_fragment 1 [2, 3]]. m_packet_id x \<noteq> m_packet_id (sample_message 5)}
      \<subseteq> {7}"
    by (auto simp: sample_fragment_def sample_message_def)
  show "card (m_packet_id ` {x \<in> set [sample_fragment 2 [4], (sample_message 3)\<lparr>m_packet_id := 7\<rparr>,
      sample_fragment 0 [0, 1], sample_fragment 1 [2, 3]]. m_packet_id x \<noteq> m_packet_id (sample_message 5)})
      < MAX_IN_FLIGHT_PACKETS"
    by (rule order_le_less_trans[OF card_mono[OF _ sub]]) (simp_all add: MAX_IN_FLIGHT_PACKETS_def)
qed

text \<open>
  No sequence of messages, however malformed or hostile, makes the reassembler panic, and
  at no time does it hold more than 64 unfinished packets.
\<close>

lemma defragger_never_panics:
  "\<exists>outs d. run_steps (feed checks) new_defragger msgs = Some (outs, d) \<and>
    length outs = length msgs \<and> defragger_ok d \<and> length (df_order d) \<le> MAX_IN_FLIGHT_PACKETS \<and>
    card (dom (df_packets d)) \<le> MAX_IN_FLIGHT_PACKETS"
proof -
  obtain outs d where "run_steps (feed checks) new_defragger msgs = Some (outs, d)"
    "length outs = length msgs" "defragger_ok d"
    using defrag.run_init by blast
  moreover from this(3) have "length (df_order d) \<le> MAX_IN_FLIGHT_PACKETS"
    and "card (dom (df_packets d)) = length (df_order d)"
    by (metis defragger_ok_def, metis defragger_ok_def distinct_card)
  ultimately show ?thesis by auto
qed

text \<open>
  C9: The fragment counter is one byte wide and the cast of the fragment count is unchecked. A
  payload of exactly 256 pieces panics when overflow checks are on; without them every
  fragment carries the count 0, so the peer hands each one on as a complete message.
\<close>

theorem frag_udp_message_truncates:
  assumes "header_size m = Some h" and "h < max_size"
    and "div_ceil (length (m_data m)) (max_size - h) = 256"
  shows "frag_udp_message True m max_size = None \<and>
    (\<exists>fs. frag_udp_message False m max_size = Some fs \<and> length fs = 256 \<and>
      (\<forall>f \<in> set fs. m_frag_count f = 0 \<and> feed checks d f = Some (Some f, d)))"
proof -
  let ?k = "max_size - h"
  have k: "0 < ?k" using assms(2) by simp
  have big: "max_size < h + length (m_data m)"
    using div_ceil_bounds(2)[OF k, of "length (m_data m)"] assms(2,3)
    by (cases "length (m_data m) = 0") (auto simp: div_ceil_def)
  have len: "length (chunks ?k (m_data m)) = 256" by (simp add: length_chunks[OF k] assms(3))
  have "frag_loop True m ?k n 0 (of_nat 0) = None" for n
    by (rule frag_loop_overflow[OF k]) (simp_all add: len)
  then have "frag_udp_message True m max_size = None"
    using assms(1,2) big by (simp add: frag_udp_message_def message_size_def)
  moreover have "frag_udp_message False m max_size = Some (fragments_of m ?k)"
    using assms(1,2) big by (intro frag_udp_message_eq) auto
  moreover have "m_frag_count f = 0" if "f \<in> set (fragments_of m ?k)" for f
    using that by (auto simp: fragments_of_def fragment_of_def len word_unat_eq_iff unat_of_nat)
  ultimately show ?thesis using len by (auto simp: feed_def)
qed

theorem frag_udp_message_truncates_witness:
  "frag_udp_message True ((sample_message 0)\<lparr>m_data := replicate 256 7\<rparr>) 11 = None \<and>
    (\<exists>fs. frag_udp_message False ((sample_message 0)\<lparr>m_data := replicate 256 7\<rparr>) 11 = Some fs \<and> length fs = 256 \<and>
      (\<forall>f \<in> set fs. m_frag_count f = 0 \<and> feed True new_defragger f = Some (Some f, new_defragger)))"
proof (rule frag_udp_message_truncates)
  show "header_size ((sample_message 0)\<lparr>m_data := replicate 256 7\<rparr>) = Some 10"
    by (simp add: header_size_def sample_message_def varint_len_def MAX_VARINT_def)
  show "(10 :: nat) < 11" by simp
  show "div_ceil (length (m_data ((sample_message 0)\<lparr>m_data := replicate 256 7\<rparr>))) (11 - 10) = 256"
    by (simp add: sample_message_def div_ceil_def)
qed

end
