(* ===== verification/Limit.thy ===== *)
theory Limit
  imports Complex_Main Prelude
begin

text \<open>
  The token-bucket bandwidth limiter (\<open>core/src/limit.rs\<close>). Instants and durations are
  nanoseconds. Floating-point operations are real operations followed by \<open>fl\<close>, the rounding
  of IEEE 754 doubles, which the definitions take as an argument: the bounds below hold for
  every rounding that is monotone, idempotent and exact on the integers up to \<open>2 ^ 53\<close>; the rate
  and liveness laws are stated for exact arithmetic. A sleeping loop is driven by the list
  of clock readings it takes, one per iteration; a request is the length of a buffer, so
  that no duration leaves the range of \<open>Duration\<close>.
\<close>

section \<open>The code\<close>

definition rounding :: "(real \<Rightarrow> real) \<Rightarrow> bool" where
  "rounding fl \<longleftrightarrow>
     (\<forall>x y. x \<le> y \<longrightarrow> fl x \<le> fl y) \<and> (\<forall>x. fl (fl x) = fl x) \<and>
     (\<forall>n :: nat. n \<le> 2 ^ 53 \<longrightarrow> fl (real n) = real n)"

record BandwidthLimiter =
  bl_rate :: u64
  bl_burst :: u64
  bl_tokens :: real
  bl_last :: nat

definition MIN_BURST_BYTES :: u64 where
  "MIN_BURST_BYTES = 10 * 1500"

definition MAX_WRITE_CHUNK :: nat where
  "MAX_WRITE_CHUNK = 64 * 1024"

datatype LimitDecision = LimReady nat | LimWait nat

fun negotiated_limit :: "u64 \<Rightarrow> u64 \<Rightarrow> u64" where
  "negotiated_limit local_limit remote_limit =
     (if local_limit = 0 \<and> remote_limit = 0 then 0
      else if local_limit = 0 then remote_limit
      else if remote_limit = 0 then local_limit
      else min local_limit remote_limit)"

text \<open>\<open>u64 as f64\<close>, \<open>Duration::as_secs_f64\<close> and \<open>Duration::from_secs_f64\<close>.\<close>

definition u64_as_f64 :: "(real \<Rightarrow> real) \<Rightarrow> u64 \<Rightarrow> real" where
  "u64_as_f64 fl n = fl (real (unat n))"

definition usize_as_f64 :: "(real \<Rightarrow> real) \<Rightarrow> nat \<Rightarrow> real" where
  "usize_as_f64 fl n = fl (real n)"

definition as_secs_f64 :: "(real \<Rightarrow> real) \<Rightarrow> nat \<Rightarrow> real" where
  "as_secs_f64 fl d = fl (fl (real (d div 10 ^ 9)) + fl (fl (real (d mod 10 ^ 9)) / 10 ^ 9))"

definition from_secs_f64 :: "real \<Rightarrow> nat" where
  "from_secs_f64 secs =
     (let ns = secs * 10 ^ 9; f = \<lfloor>ns\<rfloor>; r = ns - of_int f in
      nat (if r < 1 / 2 \<or> r = 1 / 2 \<and> even f then f else f + 1))"

definition limiter_new :: "(real \<Rightarrow> real) \<Rightarrow> nat \<Rightarrow> u64 \<Rightarrow> BandwidthLimiter" where
  "limiter_new fl now rate =
     (let burst = max (rate div 250) MIN_BURST_BYTES in
      \<lparr>bl_rate = rate, bl_burst = burst, bl_tokens = u64_as_f64 fl burst, bl_last = now\<rparr>)"

definition limiter_optional :: "(real \<Rightarrow> real) \<Rightarrow> nat \<Rightarrow> u64 \<Rightarrow> BandwidthLimiter option" where
  "limiter_optional fl now rate = (if rate > 0 then Some (limiter_new fl now rate) else None)"

definition refill :: "(real \<Rightarrow> real) \<Rightarrow> nat \<Rightarrow> BandwidthLimiter \<Rightarrow> BandwidthLimiter" where
  "refill fl now l =
     (let elapsed = now - bl_last l;
          replenished = fl (u64_as_f64 fl (bl_rate l) * as_secs_f64 fl elapsed) in
      l\<lparr>bl_last := now,
        bl_tokens := min (fl (bl_tokens l + replenished)) (u64_as_f64 fl (bl_burst l))\<rparr>)"

definition wait_duration :: "(real \<Rightarrow> real) \<Rightarrow> BandwidthLimiter \<Rightarrow> real \<Rightarrow> nat" where
  "wait_duration fl l missing_bytes =
     from_secs_f64 (fl (max missing_bytes 1 / u64_as_f64 fl (max (bl_rate l) 1)))"

definition take_stream_budget ::
    "(real \<Rightarrow> real) \<Rightarrow> nat \<Rightarrow> nat \<Rightarrow> BandwidthLimiter \<Rightarrow> LimitDecision \<times> BandwidthLimiter" where
  "take_stream_budget fl now requested l =
     (if requested = 0 then (LimReady 0, l)
      else
        let l = refill fl now l in
        if bl_tokens l \<ge> 1
        then
          let available = nat \<lfloor>max (of_int \<lfloor>bl_tokens l\<rfloor>) 1 :: real\<rfloor>;
              granted = min (min requested available) MAX_WRITE_CHUNK in
          (LimReady granted, l\<lparr>bl_tokens := fl (bl_tokens l - usize_as_f64 fl granted)\<rparr>)
        else (LimWait (wait_duration fl l (fl (1 - bl_tokens l))), l))"

text \<open>
  \<^const>\<open>None\<close> means that the loop is still waiting when the clock readings are used up.
\<close>

fun wait_for_chunk ::
    "(real \<Rightarrow> real) \<Rightarrow> nat list \<Rightarrow> nat \<Rightarrow> BandwidthLimiter \<Rightarrow> nat option \<times> BandwidthLimiter" where
  "wait_for_chunk fl nows requested l =
     (if requested = 0 then (Some 0, l)
      else case nows of
        [] \<Rightarrow> (None, l)
      | now # nows \<Rightarrow>
          (case take_stream_budget fl now requested l of
             (LimReady granted, l) \<Rightarrow> (Some granted, l)
           | (LimWait _, l) \<Rightarrow> wait_for_chunk fl nows requested l))"

definition wait_for_step ::
    "(real \<Rightarrow> real) \<Rightarrow> nat \<Rightarrow> nat \<Rightarrow> BandwidthLimiter \<Rightarrow> LimitDecision \<times> BandwidthLimiter" where
  "wait_for_step fl now requested l =
     (let l = refill fl now l in
      if bl_tokens l \<ge> usize_as_f64 fl requested
      then (LimReady requested, l\<lparr>bl_tokens := fl (bl_tokens l - usize_as_f64 fl requested)\<rparr>)
      else (LimWait (wait_duration fl l (fl (usize_as_f64 fl requested - bl_tokens l))), l))"

fun wait_for ::
    "(real \<Rightarrow> real) \<Rightarrow> nat list \<Rightarrow> nat \<Rightarrow> BandwidthLimiter \<Rightarrow> unit option \<times> BandwidthLimiter" where
  "wait_for fl nows requested l =
     (if requested = 0 then (Some (), l)
      else case nows of
        [] \<Rightarrow> (None, l)
      | now # nows \<Rightarrow>
          (case wait_for_step fl now requested l of
             (LimReady _, l) \<Rightarrow> (Some (), l)
           | (LimWait _, l) \<Rightarrow> wait_for fl nows requested l))"

declare wait_for.simps [simp del] wait_for_chunk.simps [simp del] of_nat_unat [simp del]

section \<open>Bounds that hold for every rounding\<close>

definition limiter_ok :: "(real \<Rightarrow> real) \<Rightarrow> BandwidthLimiter \<Rightarrow> bool" where
  "limiter_ok fl l \<longleftrightarrow> 0 \<le> bl_tokens l \<and> bl_tokens l \<le> u64_as_f64 fl (bl_burst l)"

lemma rounding_mono: "rounding fl \<Longrightarrow> x \<le> y \<Longrightarrow> fl x \<le> fl y"
  unfolding rounding_def by blast

lemma rounding_nat: "rounding fl \<Longrightarrow> n \<le> 2 ^ 53 \<Longrightarrow> fl (real n) = real n"
  unfolding rounding_def by blast

lemma rounding_idem: "rounding fl \<Longrightarrow> fl (fl x) = fl x"
  unfolding rounding_def by blast

lemma rounding_nonneg: "rounding fl \<Longrightarrow> 0 \<le> x \<Longrightarrow> 0 \<le> fl x"
  using rounding_mono[of fl 0 x] rounding_nat[of fl 0] by simp

lemma u64_as_f64_nonneg: "rounding fl \<Longrightarrow> 0 \<le> u64_as_f64 fl n"
  unfolding u64_as_f64_def by (rule rounding_nonneg, assumption, rule of_nat_0_le_iff)

lemma as_secs_f64_nonneg: "rounding fl \<Longrightarrow> 0 \<le> as_secs_f64 fl d"
  by (simp add: as_secs_f64_def rounding_nonneg)

lemma limiter_new_ok: "rounding fl \<Longrightarrow> limiter_ok fl (limiter_new fl now rate)"
  by (simp add: limiter_ok_def limiter_new_def u64_as_f64_nonneg Let_def)

lemma refill_ok:
  assumes "rounding fl" and "limiter_ok fl l"
  shows "limiter_ok fl (refill fl now l)"
proof -
  have "0 \<le> fl (u64_as_f64 fl (bl_rate l) * as_secs_f64 fl (now - bl_last l))"
    using assms(1) by (simp add: rounding_nonneg u64_as_f64_nonneg as_secs_f64_nonneg)
  then show ?thesis
    using assms by (simp add: limiter_ok_def refill_def Let_def rounding_nonneg u64_as_f64_nonneg)
qed

lemma refill_fields [simp]:
  "bl_rate (refill fl now l) = bl_rate l" "bl_burst (refill fl now l) = bl_burst l"
  "bl_last (refill fl now l) = now"
  by (simp_all add: refill_def Let_def)

lemma spend_ok:
  assumes "rounding fl" and "limiter_ok fl l" and "0 \<le> x" and "x \<le> bl_tokens l"
  shows "limiter_ok fl (l\<lparr>bl_tokens := fl (bl_tokens l - x)\<rparr>)"
proof -
  have "fl (bl_tokens l - x) \<le> fl (u64_as_f64 fl (bl_burst l))"
    by (rule rounding_mono[OF assms(1)]) (use assms(2,3) in \<open>simp add: limiter_ok_def\<close>)
  also have "\<dots> = u64_as_f64 fl (bl_burst l)"
    unfolding u64_as_f64_def by (rule rounding_idem[OF assms(1)])
  finally show ?thesis
    using assms rounding_nonneg[of fl "bl_tokens l - x"] by (simp add: limiter_ok_def)
qed

lemma floor_available:
  assumes "1 \<le> (t :: real)"
  shows "nat \<lfloor>max (of_int \<lfloor>t\<rfloor>) 1 :: real\<rfloor> = nat \<lfloor>t\<rfloor>" and "1 \<le> nat \<lfloor>t\<rfloor>" and "real (nat \<lfloor>t\<rfloor>) \<le> t"
proof -
  have f: "1 \<le> \<lfloor>t\<rfloor>" using assms by linarith
  then have "max (of_int \<lfloor>t\<rfloor>) 1 = (of_int \<lfloor>t\<rfloor> :: real)" by linarith
  then show "nat \<lfloor>max (of_int \<lfloor>t\<rfloor>) 1 :: real\<rfloor> = nat \<lfloor>t\<rfloor>" by (simp only: floor_of_int)
  show "1 \<le> nat \<lfloor>t\<rfloor>" using f by linarith
  show "real (nat \<lfloor>t\<rfloor>) \<le> t" using f by linarith
qed

text \<open>A granted chunk is positive, bounded by the request and paid for with tokens.\<close>

lemma take_stream_budget_ready:
  assumes "rounding fl" and "limiter_ok fl l" and "0 < requested"
    and "take_stream_budget fl now requested l = (LimReady n, l')"
  shows "1 \<le> n" and "n \<le> requested" and "n \<le> MAX_WRITE_CHUNK" and "limiter_ok fl l'"
    and "real n \<le> bl_tokens (refill fl now l)"
    and "l' = (refill fl now l)\<lparr>bl_tokens := fl (bl_tokens (refill fl now l) - real n)\<rparr>"
proof -
  let ?l = "refill fl now l"
  have t: "1 \<le> bl_tokens ?l"
    and n: "n = min (min requested (nat \<lfloor>bl_tokens ?l\<rfloor>)) MAX_WRITE_CHUNK"
    and l': "l' = ?l\<lparr>bl_tokens := fl (bl_tokens ?l - usize_as_f64 fl n)\<rparr>"
    using assms(3,4) floor_available(1)[of "bl_tokens ?l"]
    by (auto simp: take_stream_budget_def Let_def split: if_splits)
  note fa = floor_available(2,3)[OF t]
  show "1 \<le> n" "n \<le> requested" "n \<le> MAX_WRITE_CHUNK"
    using n fa assms(3) by (auto simp: MAX_WRITE_CHUNK_def)
  have exact: "usize_as_f64 fl n = real n"
    using n assms(1) by (auto simp: usize_as_f64_def MAX_WRITE_CHUNK_def intro!: rounding_nat)
  show le: "real n \<le> bl_tokens ?l" using n fa(2) by linarith
  show "l' = ?l\<lparr>bl_tokens := fl (bl_tokens ?l - real n)\<rparr>" using l' exact by simp
  show "limiter_ok fl l'"
    unfolding l' exact using le refill_ok[OF assms(1,2)] assms(1) by (intro spend_ok) auto
qed

lemma take_stream_budget_ok:
  assumes "rounding fl" and "limiter_ok fl l"
  shows "limiter_ok fl (snd (take_stream_budget fl now requested l))"
proof (cases "take_stream_budget fl now requested l")
  case (Pair r l')
  show ?thesis
  proof (cases "0 < requested")
    case True
    show ?thesis
    proof (cases r)
      case (LimReady n)
      with Pair take_stream_budget_ready(4)[OF assms True] show ?thesis by simp
    next
      case (LimWait d)
      with Pair have "l' = refill fl now l"
        by (auto simp: take_stream_budget_def Let_def split: if_splits)
      with Pair refill_ok[OF assms] show ?thesis by simp
    qed
  next
    case False
    with assms(2) show ?thesis by (simp add: take_stream_budget_def)
  qed
qed

lemma wait_for_step_ok:
  assumes "rounding fl" and "limiter_ok fl l"
  shows "limiter_ok fl (snd (wait_for_step fl now requested l))"
  using refill_ok[OF assms, of now] assms(1) spend_ok[OF assms(1) refill_ok[OF assms]]
  by (auto simp: wait_for_step_def Let_def usize_as_f64_def rounding_nonneg)

lemma wait_for_ok:
  assumes "rounding fl"
  shows "limiter_ok fl l \<Longrightarrow> limiter_ok fl (snd (wait_for fl nows requested l))"
proof (induction nows arbitrary: l)
  case Nil
  then show ?case by (simp add: wait_for.simps)
next
  case (Cons now nows)
  then show ?case
    using wait_for_step_ok[OF assms Cons.prems, of now requested]
    by (auto simp: wait_for.simps[of fl "now # nows"] split: prod.split LimitDecision.split)
qed

text \<open>A request beyond the bucket size can never be served.\<close>

lemma wait_for_starves:
  assumes "u64_as_f64 fl (bl_burst l) < usize_as_f64 fl requested" and "0 < requested"
  shows "fst (wait_for fl nows requested l) = None"
  using assms(1)
proof (induction nows arbitrary: l)
  case Nil
  then show ?case using assms(2) by (simp add: wait_for.simps)
next
  case (Cons now nows)
  let ?l = "refill fl now l"
  have "bl_tokens ?l \<le> u64_as_f64 fl (bl_burst l)"
    by (simp add: refill_def Let_def)
  then have "\<not> usize_as_f64 fl requested \<le> bl_tokens ?l" using Cons.prems by linarith
  then have "wait_for fl (now # nows) requested l = wait_for fl nows requested ?l"
    using assms(2) by (simp add: wait_for.simps[of fl "now # nows"] wait_for_step_def Let_def)
  with Cons show ?case by simp
qed

lemma limiter_new_burst:
  assumes "rounding fl" and "unat (max (rate div 250) MIN_BURST_BYTES) < n" and "n \<le> 2 ^ 53"
  shows "u64_as_f64 fl (bl_burst (limiter_new fl now rate)) < usize_as_f64 fl n"
proof -
  let ?b = "unat (max (rate div 250) MIN_BURST_BYTES)"
  have "fl (real ?b) = real ?b" and "fl (real n) = real n"
    using assms by (auto intro: rounding_nat)
  then show ?thesis
    using assms(2) by (simp add: limiter_new_def Let_def u64_as_f64_def usize_as_f64_def)
qed

section \<open>Rate and liveness in exact arithmetic\<close>

definition exact :: "real \<Rightarrow> real" where
  "exact x = x"

lemma wait_for_step_exact:
  "wait_for_step exact now requested l =
     (let l' = refill exact now l in
      if real requested \<le> bl_tokens l'
      then (LimReady requested, l'\<lparr>bl_tokens := bl_tokens l' - real requested\<rparr>)
      else (LimWait (wait_duration exact l' (real requested - bl_tokens l')), l'))"
  by (simp add: wait_for_step_def usize_as_f64_def exact_def Let_def cong: if_cong)

lemma rounding_exact: "rounding exact"
  by (simp add: rounding_def exact_def)

lemma as_secs_exact: "as_secs_f64 exact d = real d / 10 ^ 9"
proof -
  define q r where "q = d div 10 ^ 9" and "r = d mod 10 ^ 9"
  have "d = q * 10 ^ 9 + r" by (simp add: q_def r_def div_mult_mod_eq)
  then have "real d / 10 ^ 9 = real q + real r / 10 ^ 9" by (simp add: add_divide_distrib)
  then show ?thesis by (simp add: as_secs_f64_def q_def r_def exact_def)
qed

definition earned :: "BandwidthLimiter \<Rightarrow> nat \<Rightarrow> real" where
  "earned l now = real (unat (bl_rate l)) * (real (now - bl_last l) / 10 ^ 9)"

lemma refill_exact:
  "bl_tokens (refill exact now l) = min (bl_tokens l + earned l now) (real (unat (bl_burst l)))"
  by (simp add: refill_def Let_def as_secs_exact u64_as_f64_def earned_def
      exact_def[of "_ + _"] exact_def[of "_ * _"] exact_def[of "real _"] exact_def[of "_ / _"])

lemma earned_nonneg: "0 \<le> earned l now"
  by (simp add: earned_def)

lemma earned_split:
  assumes "bl_last l \<le> now" and "now \<le> later"
  shows "earned l later = earned l now + earned (refill exact now l) later"
  using assms by (simp add: earned_def of_nat_diff field_simps)

text \<open>
  One attempt to get bytes through, from a stream or for a whole datagram, and the number of
  bytes let through by a sequence of attempts.
\<close>

datatype attempt = Stream nat nat | Whole nat nat

fun attempt_time :: "attempt \<Rightarrow> nat" where
  "attempt_time (Stream now requested) = now"
| "attempt_time (Whole now requested) = now"

fun attempt_step :: "(real \<Rightarrow> real) \<Rightarrow> attempt \<Rightarrow> BandwidthLimiter \<Rightarrow> LimitDecision \<times> BandwidthLimiter" where
  "attempt_step fl (Stream now requested) l = take_stream_budget fl now requested l"
| "attempt_step fl (Whole now requested) l = wait_for_step fl now requested l"

fun passed :: "(real \<Rightarrow> real) \<Rightarrow> attempt list \<Rightarrow> BandwidthLimiter \<Rightarrow> nat" where
  "passed fl [] l = 0"
| "passed fl (a # as) l =
     (case attempt_step fl a l of
        (LimReady n, l) \<Rightarrow> n + passed fl as l
      | (LimWait _, l) \<Rightarrow> passed fl as l)"

lemma attempt_pays:
  assumes "limiter_ok exact l" and "bl_last l \<le> attempt_time a"
    and "attempt_step exact a l = (r, l')"
  shows "bl_rate l' = bl_rate l" and "limiter_ok exact l'" and "bl_last l' \<le> attempt_time a"
    and "bl_last l \<le> bl_last l'"
    and "bl_tokens l' + real (case r of LimReady n \<Rightarrow> n | LimWait _ \<Rightarrow> 0) + earned l' (attempt_time a) \<le>
      bl_tokens l + earned l (attempt_time a)"
proof -
  let ?t = "attempt_time a" and ?l = "refill exact (attempt_time a) l"
  let ?n = "case r of LimReady n \<Rightarrow> n | LimWait _ \<Rightarrow> 0"
  have fill: "bl_tokens ?l \<le> bl_tokens l + earned l ?t" by (simp add: refill_exact)
  have none: "earned l'' ?t = 0" if "bl_last l'' = ?t" for l'' using that by (simp add: earned_def)
  consider (idle) "l' = l" "?n = 0" | (step) "l' = ?l\<lparr>bl_tokens := bl_tokens ?l - real ?n\<rparr>"
  proof (cases a)
    case (Stream now requested)
    then have tk: "take_stream_budget exact now requested l = (r, l')" using assms(3) by simp
    show ?thesis
    proof (cases "requested = 0 \<or> (\<exists>d. r = LimWait d)")
      case True
      with tk that Stream show ?thesis by (auto simp: take_stream_budget_def Let_def split: if_splits)
    next
      case False
      then obtain n where "r = LimReady n" by (cases r) auto
      with take_stream_budget_ready(6)[OF rounding_exact assms(1), of requested now n l'] tk False Stream
        that(2) show ?thesis by (simp add: exact_def)
    qed
  next
    case (Whole now requested)
    with assms(3) that(2) show ?thesis
      by (auto simp: wait_for_step_exact Let_def split: if_splits)
  qed
  note cases = this
  have ok: "limiter_ok exact l'"
    using take_stream_budget_ok[OF rounding_exact assms(1)] wait_for_step_ok[OF rounding_exact assms(1)]
      assms(3) by (cases a) (metis attempt_step.simps snd_conv)+
  then show "limiter_ok exact l'" .
  from cases show "bl_rate l' = bl_rate l" "bl_last l' \<le> ?t" "bl_last l \<le> bl_last l'"
    "bl_tokens l' + real ?n + earned l' ?t \<le> bl_tokens l + earned l ?t"
    using fill none assms(2) by (cases; simp)+
qed

lemma passed_bound:
  assumes "limiter_ok exact l" and "sorted (map attempt_time as)" and "\<forall>a \<in> set as. bl_last l \<le> attempt_time a"
    and "\<forall>a \<in> set as. attempt_time a \<le> later" and "bl_last l \<le> later"
  shows "real (passed exact as l) \<le> bl_tokens l + earned l later"
  using assms
proof (induction as arbitrary: l)
  case Nil
  then show ?case using earned_nonneg[of l later] by (simp add: limiter_ok_def)
next
  case (Cons a as)
  obtain r l' where st: "attempt_step exact a l = (r, l')" by fastforce
  have "bl_last l \<le> attempt_time a" using Cons.prems(3) by simp
  note pay = attempt_pays[OF Cons.prems(1) this st]
  have "real (passed exact as l') \<le> bl_tokens l' + earned l' later"
    using Cons.prems(2-5) pay(3) by (intro Cons.IH[OF pay(2)]) (auto intro: le_trans)
  moreover have "earned l' later - earned l' (attempt_time a) = earned l later - earned l (attempt_time a)"
    using pay(1,3,4) Cons.prems(3,4) by (simp add: earned_def of_nat_diff field_simps)
  moreover have "real (passed exact (a # as) l) =
      real (case r of LimReady n \<Rightarrow> n | LimWait _ \<Rightarrow> 0) + real (passed exact as l')"
    using st by (simp split: LimitDecision.split)
  ultimately show ?case using pay(5) by linarith
qed

lemma wait_for_returns:
  assumes "requested \<le> unat (bl_burst l)" and "nows \<noteq> []" and "sorted (bl_last l # nows)"
    and "real requested \<le> bl_tokens l + earned l (last nows)"
  shows "fst (wait_for exact nows requested l) = Some ()"
  using assms
proof (induction nows arbitrary: l)
  case Nil
  then show ?case by simp
next
  case (Cons now nows)
  let ?l = "refill exact now l"
  show ?case
  proof (cases "requested = 0 \<or> real requested \<le> bl_tokens ?l")
    case True
    then show ?thesis
      by (auto simp: wait_for.simps[of exact "now # nows"] wait_for_step_exact Let_def)
  next
    case False
    then have wait: "wait_for exact (now # nows) requested l = wait_for exact nows requested ?l"
      by (simp add: wait_for.simps[of exact "now # nows"] wait_for_step_exact Let_def)
    have tk: "bl_tokens ?l = bl_tokens l + earned l now"
      using False Cons.prems(1) by (simp add: refill_exact min_def split: if_splits)
    then have "nows \<noteq> []" using False Cons.prems(4) by auto
    moreover have "now \<le> last nows"
      using Cons.prems(3) calculation by (metis last_in_set sorted_wrt.simps(2))
    then have "real requested \<le> bl_tokens ?l + earned ?l (last nows)"
      using Cons.prems(3,4) earned_split[of l now "last nows"] tk calculation by simp
    ultimately show ?thesis
      unfolding wait using Cons.prems(1,3) by (intro Cons.IH) auto
  qed
qed

section \<open>Properties\<close>

text \<open>
  C6: Token-bucket conformance: in exact arithmetic, whatever sequence of stream and datagram
  requests is made on a fresh limiter, the bytes it lets through up to some later time never
  exceed the burst plus the rate times the elapsed time.
\<close>

theorem limiter_conformance:
  assumes "sorted (now # map attempt_time as)" and "\<forall>a \<in> set as. attempt_time a \<le> later" and "now \<le> later"
  shows "real (passed exact as (limiter_new exact now rate)) \<le>
    real (unat (max (rate div 250) MIN_BURST_BYTES)) + real (unat rate) * (real (later - now) / 10 ^ 9)"
proof -
  let ?l = "limiter_new exact now rate"
  have "real (passed exact as ?l) \<le> bl_tokens ?l + earned ?l later"
    using assms limiter_new_ok[OF rounding_exact]
    by (intro passed_bound) (auto simp: limiter_new_def Let_def)
  then show ?thesis
    by (simp add: limiter_new_def Let_def u64_as_f64_def earned_def exact_def[of "real _"])
qed

theorem limiter_conformance_witness:
  "real (passed exact [Stream 5 100, Whole 10 2000] (limiter_new exact 0 1000000)) \<le>
    real (unat (max (1000000 div 250) MIN_BURST_BYTES)) +
    real (unat (1000000 :: u64)) * (real ((20 :: nat) - 0) / 10 ^ 9)"
  by (rule limiter_conformance) simp_all



text \<open>
  A datagram larger than the burst is never sent: the waiting loop of a limiter with that
  burst does not return, however long it runs and however floating-point results are rounded.
\<close>

lemma wait_for_starvation:
  assumes "rounding fl" and "unat (max (rate div 250) MIN_BURST_BYTES) < requested" and "requested \<le> 2 ^ 53"
  shows "fst (wait_for fl nows requested (limiter_new fl now rate)) = None"
  using assms by (intro wait_for_starves limiter_new_burst) auto

text \<open>
  However results are rounded, the bucket never holds a negative number of tokens nor more
  than the burst, and a stream that asks for bytes is either granted between one byte and
  what it asked for, at most 64 KiB, or told to wait because less than one token is left.
\<close>

lemma stream_budget_bounds:
  assumes "rounding fl" and "limiter_ok fl l" and "0 < requested"
  shows "case take_stream_budget fl now requested l of
      (LimReady n, l') \<Rightarrow> 1 \<le> n \<and> n \<le> requested \<and> n \<le> MAX_WRITE_CHUNK \<and> limiter_ok fl l'
    | (LimWait d, l') \<Rightarrow> limiter_ok fl l' \<and> bl_tokens l' < 1"
proof (cases "take_stream_budget fl now requested l")
  case (Pair r l')
  show ?thesis
  proof (cases r)
    case (LimReady n)
    with Pair take_stream_budget_ready[OF assms] show ?thesis by simp
  next
    case (LimWait d)
    with Pair assms(3) have "l' = refill fl now l" "bl_tokens l' < 1"
      by (auto simp: take_stream_budget_def Let_def split: if_splits)
    with Pair LimWait refill_ok[OF assms(1,2)] show ?thesis by simp
  qed
qed

end
