(* ===== verification/Udp_Send.thy ===== *)
theory Udp_Send
  imports Frag Limit "HOL-Library.Multiset"
begin

text \<open>
  The sending half of the UDP relay: quinn's outgoing datagram queue
  (\<open>vendor/quinn-proto/src/connection/datagrams.rs\<close>, \<open>vendor/quinn/src/connection.rs\<close>), and
  \<open>send_single_udp_message\<close> and \<open>send_udp_message\<close> of \<open>core/src/udp.rs\<close> on top of it. The
  path's current datagram size, the random packet id and the clock readings are arguments.
  The main result composes fragmentation, encoding, parsing and reassembly.
\<close>

section \<open>The code\<close>

datatype SendDatagramError = UnsupportedByPeer | Disabled | TooLarge | ConnectionLost string

fun send_datagram_to_string :: "SendDatagramError \<Rightarrow> string" where
  "send_datagram_to_string UnsupportedByPeer = ''datagrams not supported by peer''"
| "send_datagram_to_string Disabled = ''datagram support disabled''"
| "send_datagram_to_string TooLarge = ''datagram too large''"
| "send_datagram_to_string (ConnectionLost _) = ''connection lost''"

text \<open>
  \<open>dg_max\<close> is what \<open>max_size\<close> returns for the current path, \<open>dg_total\<close> the running total the
  queue keeps of its own size.
\<close>

record Datagrams =
  dg_lost :: "string option"
  dg_enabled :: bool
  dg_max :: "nat option"
  dg_send_buffer :: nat
  dg_outgoing :: "bytes list"
  dg_total :: nat

fun drop_outgoing :: "nat \<Rightarrow> nat \<Rightarrow> bytes list \<Rightarrow> (nat \<times> bytes list) option" where
  "drop_outgoing limit t [] = (if t > limit then None else Some (t, []))"
| "drop_outgoing limit t (prev # outgoing) =
     (if t > limit
      then (if length prev \<le> t then drop_outgoing limit (t - length prev) outgoing else None)
      else Some (t, prev # outgoing))"

definition datagrams_send :: "bytes \<Rightarrow> Datagrams \<Rightarrow> ((SendDatagramError + unit) \<times> Datagrams) option" where
  "datagrams_send data dg =
     (if \<not> dg_enabled dg then Some (Err Disabled, dg)
      else case dg_max dg of
        None \<Rightarrow> Some (Err UnsupportedByPeer, dg)
      | Some m \<Rightarrow>
          if length data > m then Some (Err TooLarge, dg)
          else do {
            (t, outgoing) \<leftarrow> drop_outgoing (dg_send_buffer dg) (dg_total dg) (dg_outgoing dg);
            Some (Ok (), dg\<lparr>dg_total := t + length data, dg_outgoing := outgoing @ [data]\<rparr>)
          })"

definition send_datagram :: "bytes \<Rightarrow> Datagrams \<Rightarrow> ((SendDatagramError + unit) \<times> Datagrams) option" where
  "send_datagram data dg =
     (case dg_lost dg of
        Some e \<Rightarrow> Some (Err (ConnectionLost e), dg)
      | None \<Rightarrow> datagrams_send data dg)"

definition max_datagram_size :: "Datagrams \<Rightarrow> nat option" where
  "max_datagram_size dg = (if dg_enabled dg then dg_max dg else None)"

text \<open>What a sender uses: the connection, its limiter, and the clock readings of its waits.\<close>

record udp_link =
  ul_datagrams :: Datagrams
  ul_limiter :: "BandwidthLimiter option"
  ul_clock :: "nat list list"

definition wait_limiter :: "(real \<Rightarrow> real) \<Rightarrow> nat \<Rightarrow> udp_link \<Rightarrow> udp_link option" where
  "wait_limiter fl n link =
     (case ul_limiter link of
        None \<Rightarrow> Some link
      | Some l \<Rightarrow>
          (case wait_for fl (case ul_clock link of [] \<Rightarrow> [] | nows # _ \<Rightarrow> nows) n l of
             (Some _, l') \<Rightarrow> Some (link\<lparr>ul_limiter := Some l', ul_clock := tl (ul_clock link)\<rparr>)
           | (None, _) \<Rightarrow> None))"

definition send_single_udp_message ::
    "(real \<Rightarrow> real) \<Rightarrow> UDPMessage \<Rightarrow> udp_link \<Rightarrow> ((SendDatagramError + unit) \<times> udp_link) run" where
  "send_single_udp_message fl m link =
     (case message_size m of
        None \<Rightarrow> Panicked
      | Some n \<Rightarrow>
        (case serialize m (replicate n 0) of
           None \<Rightarrow> Panicked
         | Some (None, _) \<Rightarrow> Returned (Err TooLarge, link)
         | Some (Some sz, buffer) \<Rightarrow>
           (case wait_limiter fl sz link of
              None \<Rightarrow> Blocked
            | Some link \<Rightarrow>
              (case slice 0 sz buffer of
                 None \<Rightarrow> Panicked
               | Some data \<Rightarrow>
                 (case send_datagram data (ul_datagrams link) of
                    None \<Rightarrow> Panicked
                  | Some (r, dg) \<Rightarrow> Returned (r, link\<lparr>ul_datagrams := dg\<rparr>))))))"

fun send_fragments ::
    "(real \<Rightarrow> real) \<Rightarrow> UDPMessage list \<Rightarrow> udp_link \<Rightarrow> ((CoreError + unit) \<times> udp_link) run" where
  "send_fragments fl [] link = Returned (Ok (), link)"
| "send_fragments fl (f # fs) link =
     (case send_single_udp_message fl f link of
        Returned (Inr _, link) \<Rightarrow> send_fragments fl fs link
      | Returned (Inl e, link) \<Rightarrow> Returned (Err (core_from_stream send_datagram_to_string e), link)
      | Blocked \<Rightarrow> Blocked
      | Panicked \<Rightarrow> Panicked)"

definition send_udp_message ::
    "bool \<Rightarrow> (real \<Rightarrow> real) \<Rightarrow> u16 \<Rightarrow> UDPMessage \<Rightarrow> udp_link \<Rightarrow> ((CoreError + unit) \<times> udp_link) run" where
  "send_udp_message checks fl random m link =
     (case send_single_udp_message fl m link of
        Returned (Inr _, link) \<Rightarrow> Returned (Ok (), link)
      | Returned (Inl TooLarge, link) \<Rightarrow>
          (let max_size = (case max_datagram_size (ul_datagrams link) of
                             Some n \<Rightarrow> n | None \<Rightarrow> MAX_DATAGRAM_FRAME_SIZE) in
           case header_size m of
             None \<Rightarrow> Panicked
           | Some h \<Rightarrow>
               if max_size \<le> h
               then Returned (Err (Transport ''udp datagram header exceeds peer datagram size''), link)
               else
                 (case frag_udp_message checks (m\<lparr>m_packet_id := max random 1\<rparr>) max_size of
                    None \<Rightarrow> Panicked
                  | Some fs \<Rightarrow> send_fragments fl fs link))
      | Returned (Inl e, link) \<Rightarrow> Returned (Err (core_from_stream send_datagram_to_string e), link)
      | Blocked \<Rightarrow> Blocked
      | Panicked \<Rightarrow> Panicked)"

section \<open>A healthy connection queues what it is given\<close>

text \<open>
  A link that is up, unlimited and with \<open>room\<close> bytes left before the send buffer starts
  dropping old datagrams.
\<close>

definition link_ready :: "nat \<Rightarrow> nat \<Rightarrow> udp_link \<Rightarrow> bool" where
  "link_ready mx room link \<longleftrightarrow>
     ul_limiter link = None \<and> dg_lost (ul_datagrams link) = None \<and> dg_enabled (ul_datagrams link) \<and>
     dg_max (ul_datagrams link) = Some mx \<and>
     dg_total (ul_datagrams link) + room \<le> dg_send_buffer (ul_datagrams link)"

definition queued :: "bytes list \<Rightarrow> udp_link \<Rightarrow> udp_link" where
  "queued ds link =
     link\<lparr>ul_datagrams := (ul_datagrams link)\<lparr>
       dg_outgoing := dg_outgoing (ul_datagrams link) @ ds,
       dg_total := dg_total (ul_datagrams link) + length (concat ds)\<rparr>\<rparr>"

lemma queued_queued: "queued es (queued ds link) = queued (ds @ es) link"
  by (simp add: queued_def add.assoc)

lemma queued_Nil [simp]: "queued [] link = link"
  by (simp add: queued_def)

lemma link_ready_queued:
  "link_ready mx (length d + room) link \<Longrightarrow> link_ready mx room (queued [d] link)"
  by (simp add: link_ready_def queued_def)

lemma drop_outgoing_small: "t \<le> limit \<Longrightarrow> drop_outgoing limit t ds = Some (t, ds)"
  by (cases ds) simp_all

lemma send_single_ready:
  assumes "link_ready mx room link" and "of_nat (length (m_addr m)) \<le> MAX_VARINT"
  shows "send_single_udp_message fl m link =
    Returned (if length (udp_wire m) \<le> mx then (Ok (), queued [udp_wire m] link) else (Err TooLarge, link))"
proof -
  let ?dg = "ul_datagrams link"
  have "serialize m (replicate (length (udp_wire m)) 0) = Some (Some (length (udp_wire m)), udp_wire m)"
    using serialize_wire[OF assms(2)] by simp
  moreover have "drop_outgoing (dg_send_buffer ?dg) (dg_total ?dg) (dg_outgoing ?dg) =
      Some (dg_total ?dg, dg_outgoing ?dg)"
    using assms(1) by (intro drop_outgoing_small) (simp add: link_ready_def)
  ultimately show ?thesis
    using assms by (simp add: send_single_udp_message_def message_size_wire wait_limiter_def
        link_ready_def slice_def send_datagram_def datagrams_send_def queued_def)
qed

lemma send_fragments_ready:
  assumes "\<forall>f \<in> set fs. length (udp_wire f) \<le> mx \<and> of_nat (length (m_addr f)) \<le> MAX_VARINT"
    and "link_ready mx (length (concat (map udp_wire fs))) link"
  shows "send_fragments fl fs link = Returned (Ok (), queued (map udp_wire fs) link)"
  using assms
proof (induction fs arbitrary: link)
  case Nil
  then show ?case by simp
next
  case (Cons f fs)
  have "send_single_udp_message fl f link = Returned (Ok (), queued [udp_wire f] link)"
    using Cons.prems send_single_ready[of mx _ link f fl] by auto
  moreover have "link_ready mx (length (concat (map udp_wire fs))) (queued [udp_wire f] link)"
    using Cons.prems(2) by (intro link_ready_queued) simp
  ultimately show ?case
    using Cons by (simp add: queued_queued)
qed

section \<open>From one end to the other\<close>

text \<open>What the receiving end does with a list of datagrams: parse each, feed the reassembler.\<close>

definition parsed :: "bytes list \<Rightarrow> UDPMessage list" where
  "parsed ds = concat (map (\<lambda>d. case parse_udp_message d of Some (Inr m) \<Rightarrow> [m] | _ \<Rightarrow> []) ds)"

lemma parsed_wires:
  "\<forall>f \<in> set fs. addr_fits (m_addr f) \<and> str_ok (m_addr f) \<Longrightarrow> parsed (map udp_wire fs) = fs"
  by (induction fs) (simp_all add: parsed_def parse_wire)

text \<open>A permutation of the fragments is listed by its fragment indices.\<close>

lemma fragments_permuted:
  assumes "mset xs = mset (fragments_of m k)" and "length (chunks k (m_data m)) \<le> 255"
  shows "\<exists>is. xs = map ((!) (fragments_of m k)) is \<and> distinct is \<and> set is = {..<length (chunks k (m_data m))}"
proof -
  let ?fs = "fragments_of m k" and ?n = "length (chunks k (m_data m))"
  have set: "set xs = set ?fs" using assms(1) mset_eq_setD by blast
  have idx: "unat (m_frag_id (?fs ! i)) = i" if "i < ?n" for i
    using fragment_fields(4)[OF that assms(2)] .
  have ret: "?fs ! unat (m_frag_id f) = f \<and> unat (m_frag_id f) < ?n" if "f \<in> set ?fs" for f
    using that idx by (auto simp: in_set_conv_nth)
  have "distinct ?fs"
    unfolding distinct_conv_nth using idx by (metis length_fragments_of)
  then have "distinct xs" using assms(1) by (metis mset_eq_imp_distinct_iff)
  let ?ix = "map (\<lambda>f. unat (m_frag_id f)) xs"
  have "map (\<lambda>f. ?fs ! unat (m_frag_id f)) xs = xs" by (rule map_idI) (use ret set in auto)
  then have "xs = map ((!) ?fs) ?ix" by (simp add: comp_def)
  moreover have "inj_on (\<lambda>f. unat (m_frag_id f)) (set xs)"
    unfolding set by (rule inj_on_inverseI[where g = "(!) ?fs"]) (use ret in auto)
  then have "distinct ?ix" using \<open>distinct xs\<close> by (simp add: distinct_map)
  moreover have "set ?ix = {..<?n}"
  proof
    show "set ?ix \<subseteq> {..<?n}" using ret set by auto
    show "{..<?n} \<subseteq> set ?ix"
    proof
      fix i assume "i \<in> {..<?n}"
      then have "?fs ! i \<in> set xs" and "unat (m_frag_id (?fs ! i)) = i" using idx set by auto
      then show "i \<in> set ?ix" by force
    qed
  qed
  ultimately show ?thesis by blast
qed

lemma fragments_reassembled:
  assumes "0 < k" and "k < length (m_data m)" and "div_ceil (length (m_data m)) k \<le> 255"
    and "mset xs = mset (fragments_of m k)"
  shows "\<exists>outs d. run_steps (feed checks) new_defragger xs = Some (outs, d) \<and>
    delivered outs = [m\<lparr>m_frag_id := 0, m_frag_count := 1\<rparr>]"
proof -
  let ?n = "length (chunks k (m_data m))"
  have n: "2 \<le> ?n" "?n \<le> 255"
    unfolding length_chunks[OF assms(1)] using assms(3) div_ceil_two[OF assms(1,2)] by simp_all
  obtain ix where xs: "xs = map ((!) (fragments_of m k)) ix" and ixs: "distinct ix" "set ix = {..<?n}"
    using fragments_permuted[OF assms(4) n(2)] by blast
  have pid: "m_packet_id x = m_packet_id m" if "x \<in> set xs" for x
    using that fragment_fields(1)[OF _ n(2)] unfolding xs by (auto simp: ixs(2))
  then have "filter (\<lambda>x. m_packet_id x = m_packet_id m) xs = xs" by simp
  then have filt: "filter (\<lambda>x. m_packet_id x = m_packet_id m) xs = map ((!) (fragments_of m k)) ix"
    by (rule trans[OF _ xs])
  have tr: "tracking m k {} {} new_defragger"
    using new_defragger_ok by (simp add: tracking_def new_defragger_def)
  have "0 \<in> set ix" unfolding ixs(2) lessThan_iff using n(1) by linarith
  then have ne: "ix \<noteq> []" by auto
  have "\<exists>outs d'. run_steps (feed checks) new_defragger xs = Some (outs, d') \<and> defragger_ok d' \<and>
      filter (\<lambda>x. m_packet_id x = m_packet_id m) (delivered outs) =
        [m\<lparr>m_data := concat (chunks k (m_data m)), m_frag_id := 0, m_frag_count := 1\<rparr>]"
    by (rule run_tracking[OF n, of "{}" "{}" new_defragger ix])
      (use tr ne filt ixs pid in \<open>auto simp: MAX_IN_FLIGHT_PACKETS_def\<close>)
  then obtain outs d' where run: "run_steps (feed checks) new_defragger xs = Some (outs, d')"
    and out: "filter (\<lambda>x. m_packet_id x = m_packet_id m) (delivered outs) =
        [m\<lparr>m_frag_id := 0, m_frag_count := 1\<rparr>]"
    using concat_chunks[OF assms(1), of "m_data m"] by auto
  have "m_packet_id y = m_packet_id m" if "y \<in> set (delivered outs)" for y
    by (rule bexE[OF delivered_ids[OF run that]]) (simp add: pid)
  then have "filter (\<lambda>x. m_packet_id x = m_packet_id m) (delivered outs) = delivered outs"
    by (simp add: filter_id_conv)
  with run out show ?thesis by auto
qed

lemma send_udp_message_fragments:
  assumes "link_ready mx room link" and "addr_fits (m_addr m)" and "header_size m = Some h" and "h < mx"
    and "mx < h + length (m_data m)" and "div_ceil (length (m_data m)) (mx - h) \<le> 255"
    and "length (concat (map udp_wire (fragments_of (m\<lparr>m_packet_id := p\<rparr>) (mx - h)))) \<le> room"
    and "p = max random 1"
  shows "send_udp_message checks fl random m link =
    Returned (Ok (), queued (map udp_wire (fragments_of (m\<lparr>m_packet_id := p\<rparr>) (mx - h))) link)"
proof -
  let ?m = "m\<lparr>m_packet_id := p\<rparr>" and ?fs = "fragments_of (m\<lparr>m_packet_id := p\<rparr>) (mx - h)"
  have fits: "of_nat (length (m_addr m)) \<le> MAX_VARINT" by (rule addr_fits_varint[OF assms(2)])
  have h: "h = 8 + varint_size (of_nat (length (m_addr m))) + length (m_addr m)"
    using assms(3) varint_len_size[OF fits] by (simp add: header_size_def)
  have "mx < length (udp_wire m)" using assms(5) h by (simp add: length_udp_wire)
  then have single: "send_single_udp_message fl m link = Returned (Err TooLarge, link)"
    using send_single_ready[OF assms(1) fits, of fl] by simp
  have "frag_udp_message checks ?m mx = Some ?fs"
    using assms(3-6) by (intro frag_udp_message_eq) (auto simp: header_size_def)
  moreover have "length (udp_wire f) \<le> mx \<and> of_nat (length (m_addr f)) \<le> MAX_VARINT" if "f \<in> set ?fs" for f
  proof -
    obtain i where i: "i < length (chunks (mx - h) (m_data m))" and f: "f = ?fs ! i"
      using \<open>f \<in> set ?fs\<close> by (auto simp: in_set_conv_nth)
    have addr: "m_addr f = m_addr m" and data: "m_data f = chunks (mx - h) (m_data m) ! i"
      using i f by (simp_all add: nth_fragments_of fragment_of_def)
    have "length (m_data f) \<le> mx - h"
      unfolding data using chunks_bounds[OF nth_mem[OF i]] by simp
    then show ?thesis using fits assms(4) addr by (simp add: length_udp_wire h)
  qed
  moreover have "link_ready mx (length (concat (map udp_wire ?fs))) link"
    using assms(1,7) by (auto simp: link_ready_def)
  ultimately have "send_fragments fl ?fs link = Returned (Ok (), queued (map udp_wire ?fs) link)"
    by (intro send_fragments_ready[where mx = mx]) auto
  moreover have "max_datagram_size (ul_datagrams link) = Some mx"
    using assms(1) by (simp add: link_ready_def max_datagram_size_def)
  ultimately show ?thesis
    using single assms(3,4,8) \<open>frag_udp_message checks ?m mx = Some ?fs\<close>
    by (simp add: send_udp_message_def Let_def)
qed

lemma parsed_mset:
  assumes "mset ds = mset es"
  shows "mset (parsed ds) = mset (parsed es)"
proof -
  have eq: "mset (parsed xs) = sum_mset (image_mset (\<lambda>d. mset (parsed [d])) (mset xs))" for xs
    by (induction xs) (simp_all add: parsed_def)
  show ?thesis unfolding eq[of ds] eq[of es] assms ..
qed

lemma length_concat_le: "\<forall>x \<in> set xs. length (f x) \<le> n \<Longrightarrow> length (concat (map f xs)) \<le> length xs * n"
  by (induction xs) auto

lemma fragment_wire_le:
  assumes "addr_fits (m_addr m)" and "header_size m = Some h" and "h < mx" and "f \<in> set (fragments_of m (mx - h))"
  shows "length (udp_wire f) \<le> mx" and "m_addr f = m_addr m"
proof -
  obtain i where i: "i < length (chunks (mx - h) (m_data m))" and f: "f = fragments_of m (mx - h) ! i"
    using assms(4) by (auto simp: in_set_conv_nth)
  show addr: "m_addr f = m_addr m" using i f by (simp add: nth_fragments_of fragment_of_def)
  have "h = 8 + varint_size (of_nat (length (m_addr m))) + length (m_addr m)"
    using assms(2) varint_len_size[OF addr_fits_varint[OF assms(1)]] by (simp add: header_size_def)
  moreover have "length (m_data f) \<le> mx - h"
    using chunks_bounds[OF nth_mem[OF i]] i f by (simp add: nth_fragments_of fragment_of_def)
  ultimately show "length (udp_wire f) \<le> mx" using assms(3) addr by (simp add: length_udp_wire)
qed

lemma fragment_session: "f \<in> set (fragments_of m k) \<Longrightarrow> m_session_id f = m_session_id m"
  by (auto simp: in_set_conv_nth nth_fragments_of fragment_of_def)

lemma udp_delivery:
  assumes "link_ready mx (255 * mx) link" and "dg_outgoing (ul_datagrams link) = []"
    and "addr_fits (m_addr m)" and "str_ok (m_addr m)" and "m_frag_id m = 0" and "m_frag_count m = 1"
    and "header_size m = Some h" and "h < mx" and "div_ceil (length (m_data m)) (mx - h) \<le> 255"
  shows "\<exists>link'. send_udp_message checks fl random m link = Returned (Ok (), link') \<and>
    (\<forall>d \<in> set (dg_outgoing (ul_datagrams link')). length d \<le> mx) \<and>
    (\<forall>ds. mset ds = mset (dg_outgoing (ul_datagrams link')) \<longrightarrow>
      (\<exists>outs d. run_steps (feed checks') new_defragger (parsed ds) = Some (outs, d) \<and>
        map (\<lambda>x. (m_session_id x, m_addr x, m_data x)) (delivered outs) =
          [(m_session_id m, m_addr m, m_data m)]) \<and>
      (\<forall>x \<in> set (parsed ds). m_session_id x = m_session_id m))"
proof (cases "h + length (m_data m) \<le> mx")
  case True
  have fits: "of_nat (length (m_addr m)) \<le> MAX_VARINT" by (rule addr_fits_varint[OF assms(3)])
  have "length (udp_wire m) \<le> mx"
    using True assms(7) varint_len_size[OF fits] by (simp add: header_size_def length_udp_wire)
  then have "send_udp_message checks fl random m link = Returned (Ok (), queued [udp_wire m] link)"
    using send_single_ready[OF assms(1) fits, of fl] by (simp add: send_udp_message_def)
  moreover have "parsed [udp_wire m] = [m]"
    using parsed_wires[of "[m]"] assms(3,4) by simp
  moreover have "feed checks' new_defragger m = Some (Some m, new_defragger)"
    using assms(6) by (simp add: feed_def)
  ultimately show ?thesis
    using \<open>length (udp_wire m) \<le> mx\<close> assms(2) by (simp add: queued_def)
next
  case False
  define p where "p = max random 1"
  let ?m = "m\<lparr>m_packet_id := p\<rparr>" and ?k = "mx - h"
  let ?fs = "fragments_of ?m ?k"
  have hm: "header_size ?m = Some h" using assms(7) by (simp add: header_size_def)
  have k: "0 < ?k" "?k < length (m_data ?m)" using assms(8) False by auto
  have wire: "\<forall>f \<in> set ?fs. length (udp_wire f) \<le> mx \<and> addr_fits (m_addr f) \<and> str_ok (m_addr f)"
  proof
    fix f assume f: "f \<in> set ?fs"
    have "addr_fits (m_addr ?m)" using assms(3) by simp
    note le = fragment_wire_le[OF this hm assms(8) f]
    show "length (udp_wire f) \<le> mx \<and> addr_fits (m_addr f) \<and> str_ok (m_addr f)"
      using le(1) assms(3,4) unfolding le(2) by simp
  qed
  have "length (concat (map udp_wire ?fs)) \<le> length ?fs * mx"
    using wire by (intro length_concat_le) auto
  also have "\<dots> \<le> 255 * mx"
    using assms(9) length_chunks[OF k(1), of "m_data m"] by simp
  finally have "send_udp_message checks fl random m link = Returned (Ok (), queued (map udp_wire ?fs) link)"
    using assms False p_def by (intro send_udp_message_fragments) auto
  moreover have "\<exists>outs d. run_steps (feed checks') new_defragger (parsed ds) = Some (outs, d) \<and>
      map (\<lambda>x. (m_session_id x, m_addr x, m_data x)) (delivered outs) =
        [(m_session_id m, m_addr m, m_data m)]" "\<forall>x \<in> set (parsed ds). m_session_id x = m_session_id m"
    if "mset ds = mset (map udp_wire ?fs)" for ds
  proof -
    have eq: "mset (parsed ds) = mset ?fs"
      using parsed_mset[OF that] parsed_wires wire by metis
    from fragments_reassembled[OF k _ eq, of checks'] assms(9)
    show "\<exists>outs d. run_steps (feed checks') new_defragger (parsed ds) = Some (outs, d) \<and>
      map (\<lambda>x. (m_session_id x, m_addr x, m_data x)) (delivered outs) = [(m_session_id m, m_addr m, m_data m)]"
      by auto
    show "\<forall>x \<in> set (parsed ds). m_session_id x = m_session_id m"
      using mset_eq_setD[OF eq] fragment_session[of _ ?m ?k] by auto
  qed
  ultimately show ?thesis
    using wire assms(2) by (auto simp: queued_def simp del: mset_map)
qed

section \<open>Properties\<close>


definition sample_link :: udp_link where
  "sample_link = \<lparr>ul_datagrams = \<lparr>dg_lost = None, dg_enabled = True, dg_max = Some 12,
      dg_send_buffer = 100000, dg_outgoing = [], dg_total = 0\<rparr>, ul_limiter = None, ul_clock = []\<rparr>"


text \<open>
  C8: On a rate-limited connection, sending a message whose encoding exceeds the limiter's burst
  blocks forever: the limiter is asked for the whole message before the connection gets a
  chance to report that it must be fragmented.
\<close>

theorem udp_send_starves:
  assumes "rounding fl" and "message_size m = Some n" and "n \<le> 2 ^ 53"
    and "ul_limiter link = Some (limiter_new fl now rate)"
    and "unat (max (rate div 250) MIN_BURST_BYTES) < n" and "of_nat (length (m_addr m)) \<le> MAX_VARINT"
  shows "send_udp_message checks fl random m link = Blocked"
proof -
  have none: "fst (wait_for fl nows n (limiter_new fl now rate)) = None" for nows
    using assms(5) limiter_new_burst[OF assms(1,5,3)] by (intro wait_for_starves) auto
  have "wait_limiter fl n link = None"
    using assms(4) none[of "case ul_clock link of [] \<Rightarrow> [] | nows # _ \<Rightarrow> nows"]
    by (auto simp: wait_limiter_def split: prod.split option.split)
  moreover have "serialize m (replicate n 0) = Some (Some n, udp_wire m)"
    using serialize_wire[OF assms(6), of "replicate n 0"] assms(2) message_size_wire[OF assms(6)] by simp
  ultimately have "send_single_udp_message fl m link = Blocked"
    using assms(2) by (simp add: send_single_udp_message_def)
  then show ?thesis by (simp add: send_udp_message_def)
qed

theorem udp_send_starves_witness:
  "send_udp_message True exact 7 ((sample_message 0)\<lparr>m_data := replicate 20000 0\<rparr>)
     (sample_link\<lparr>ul_limiter := Some (limiter_new exact 0 1000000)\<rparr>) = Blocked"
proof (rule udp_send_starves[OF rounding_exact])
  show "message_size ((sample_message 0)\<lparr>m_data := replicate 20000 0\<rparr>) = Some 20010"
    by (simp add: message_size_def header_size_def sample_message_def varint_len_def MAX_VARINT_def)
  show "unat (max (1000000 div 250) MIN_BURST_BYTES) < 20010" by (simp add: MIN_BURST_BYTES_def)
qed (simp_all add: sample_message_def MAX_VARINT_def)

end
