(* ===== verification/Udp_Client.thy ===== *)
theory Udp_Client
  imports Udp_Send "HOL-Library.Sublist"
begin

text \<open>
  The client's UDP sessions (\<open>ClientUdpManager\<close>, \<open>UdpSession\<close> and \<open>client_udp_reader_loop\<close> of
  \<open>core/src/udp.rs\<close>). The manager is shared by the reader task and by the callers of
  \<open>new_udp\<close>, \<open>receive\<close> and \<open>close\<close>; its concurrent executions are the interleavings of the
  steps of the relation \<open>client_step\<close>, one rule per atomic action of the code. \<open>new_udp\<close> is
  two actions, because it tests the closed flag before it takes the session lock.
\<close>

section \<open>State and operations\<close>

text \<open>
  A session with its channel: the receiving half exists until the last handle is dropped;
  the sending half is what the manager's table or the reader task holds.
\<close>

record ClientUdpSession =
  cs_id :: u32
  cs_capacity :: nat
  cs_queue :: "UDPMessage list"
  cs_defragger :: Defragger
  cs_closed :: bool
  cs_receiver :: bool

datatype reader = Reading | Delivering nat UDPMessage | ReaderStopped

text \<open>
  Sessions are numbered in the order of their creation; \<open>um_sessions\<close> maps the session ids on
  the wire to those numbers, \<open>um_opening\<close> holds the channel sizes of the \<open>new_udp\<close> calls that
  have passed the test of the closed flag.
\<close>

record ClientUdpManager =
  um_sessions :: "u32 \<Rightarrow> nat option"
  um_created :: "ClientUdpSession list"
  um_next_id :: u32
  um_closed :: bool
  um_reader :: reader
  um_opening :: "nat list"

definition DEFAULT_CLIENT_UDP_MESSAGE_CHANNEL_SIZE :: nat where
  "DEFAULT_CLIENT_UDP_MESSAGE_CHANNEL_SIZE = 1024"

definition manager_new :: ClientUdpManager where
  "manager_new = \<lparr>um_sessions = Map.empty, um_created = [], um_next_id = 1, um_closed = False,
     um_reader = Reading, um_opening = []\<rparr>"

definition new_udp_check :: "nat \<Rightarrow> ClientUdpManager \<Rightarrow> CoreError + unit" where
  "new_udp_check message_channel_size m =
     (if um_closed m then Err (Closed ''udp session manager closed'')
      else if message_channel_size = 0
      then Err (Config ''udp session message_channel_size must be greater than 0'')
      else Ok ())"

definition new_udp_insert :: "nat \<Rightarrow> ClientUdpManager \<Rightarrow> ClientUdpManager" where
  "new_udp_insert message_channel_size m =
     (let session_id = um_next_id m in
      m\<lparr>um_next_id := session_id + 1,
        um_created := um_created m @ [\<lparr>cs_id = session_id, cs_capacity = message_channel_size,
          cs_queue = [], cs_defragger = new_defragger, cs_closed = False, cs_receiver = True\<rparr>],
        um_sessions := (um_sessions m)(session_id \<mapsto> length (um_created m))\<rparr>)"

definition remove_session :: "u32 \<Rightarrow> ClientUdpManager \<Rightarrow> ClientUdpManager" where
  "remove_session session_id m = m\<lparr>um_sessions := (um_sessions m)(session_id := None)\<rparr>"

definition close_all :: "ClientUdpManager \<Rightarrow> ClientUdpManager" where
  "close_all m = m\<lparr>um_closed := True, um_sessions := Map.empty\<rparr>"

definition update_session ::
    "nat \<Rightarrow> (ClientUdpSession \<Rightarrow> ClientUdpSession) \<Rightarrow> ClientUdpManager \<Rightarrow> ClientUdpManager" where
  "update_session h f m = m\<lparr>um_created := (um_created m)[h := f (um_created m ! h)]\<rparr>"

text \<open>Closing a session, by \<open>close\<close> or by dropping any of its handles.\<close>

definition session_close :: "nat \<Rightarrow> ClientUdpManager \<Rightarrow> ClientUdpManager" where
  "session_close h m =
     (if cs_closed (um_created m ! h) then m
      else remove_session (cs_id (um_created m ! h)) (update_session h (cs_closed_update (\<lambda>_. True)) m))"

text \<open>Dropping the last handle also drops the receiving half of the channel.\<close>

definition session_drop :: "nat \<Rightarrow> ClientUdpManager \<Rightarrow> ClientUdpManager" where
  "session_drop h m = update_session h (\<lambda>s. s\<lparr>cs_receiver := False, cs_queue := []\<rparr>) (session_close h m)"

text \<open>The reader task: a datagram, a lost connection, and the wait for room in a channel.\<close>

definition reader_datagram :: "bytes \<Rightarrow> ClientUdpManager \<Rightarrow> ClientUdpManager option" where
  "reader_datagram datagram m =
     (case parse_udp_message datagram of
        None \<Rightarrow> None
      | Some (Inl _) \<Rightarrow> Some m
      | Some (Inr message) \<Rightarrow>
          (case um_sessions m (m_session_id message) of
             None \<Rightarrow> Some m
           | Some h \<Rightarrow> Some (m\<lparr>um_reader := Delivering h message\<rparr>)))"

definition reader_lost :: "ClientUdpManager \<Rightarrow> ClientUdpManager" where
  "reader_lost m = (close_all m)\<lparr>um_reader := ReaderStopped\<rparr>"

definition channel_push :: "UDPMessage \<Rightarrow> ClientUdpSession \<Rightarrow> ClientUdpSession" where
  "channel_push message s = s\<lparr>cs_queue := cs_queue s @ [message]\<rparr>"

definition sender_alive :: "nat \<Rightarrow> ClientUdpManager \<Rightarrow> bool" where
  "sender_alive h m \<longleftrightarrow>
     um_sessions m (cs_id (um_created m ! h)) = Some h \<or> (\<exists>message. um_reader m = Delivering h message)"

text \<open>
  One turn of the loop of \<open>receive\<close>: it returns data, an error, or nothing because it keeps
  waiting; the second component is the manager afterwards.
\<close>

definition receive_turn ::
    "bool \<Rightarrow> nat \<Rightarrow> ClientUdpManager \<Rightarrow> ((CoreError + bytes \<times> string) option \<times> ClientUdpManager) option" where
  "receive_turn checks h m =
     (case cs_queue (um_created m ! h) of
        [] \<Rightarrow>
          if sender_alive h m then Some (None, m)
          else Some (Some (Err (Closed ''udp session closed'')), m)
      | message # queue \<Rightarrow> do {
          (out, d) \<leftarrow> feed checks (cs_defragger (um_created m ! h)) message;
          let m = update_session h (\<lambda>s. s\<lparr>cs_queue := queue, cs_defragger := d\<rparr>) m;
          Some (map_option (\<lambda>x. Ok (m_data x, m_addr x)) out, m)
        })"

definition session_send ::
    "bool \<Rightarrow> (real \<Rightarrow> real) \<Rightarrow> u16 \<Rightarrow> nat \<Rightarrow> bytes \<Rightarrow> string \<Rightarrow> ClientUdpManager \<Rightarrow> udp_link \<Rightarrow>
     ((CoreError + unit) \<times> udp_link) run" where
  "session_send checks fl random h data addr m link =
     (if cs_closed (um_created m ! h) then Returned (Err (Closed ''udp session closed''), link)
      else send_udp_message checks fl random
        \<lparr>m_session_id = cs_id (um_created m ! h), m_packet_id = 0, m_frag_id = 0, m_frag_count = 1,
         m_addr = addr, m_data = data\<rparr> link)"

section \<open>Interleavings\<close>

text \<open>
  The atomic actions. \<open>ReceiveTurn h taken out\<close> is one turn of \<open>receive\<close> on session \<open>h\<close> with the
  message it took from the channel, if any, and the value it returned, if any.
\<close>

datatype client_event =
    OpenCheck nat
  | OpenInsert nat
  | CloseSession nat
  | DropSession nat
  | ReadDatagram bytes
  | ConnectionLost
  | DeliverMessage
  | ReceiveTurn nat "UDPMessage option" "(CoreError + bytes \<times> string) option"

inductive client_step :: "bool \<Rightarrow> client_event \<Rightarrow> ClientUdpManager \<Rightarrow> ClientUdpManager \<Rightarrow> bool" for checks where
  open_check: "new_udp_check n m = Ok () \<Longrightarrow>
    client_step checks (OpenCheck n) m (m\<lparr>um_opening := n # um_opening m\<rparr>)"
| open_insert: "n \<in> set (um_opening m) \<Longrightarrow>
    client_step checks (OpenInsert n) m (new_udp_insert n (m\<lparr>um_opening := remove1 n (um_opening m)\<rparr>))"
| close: "h < length (um_created m) \<Longrightarrow> client_step checks (CloseSession h) m (session_close h m)"
| drop: "h < length (um_created m) \<Longrightarrow> client_step checks (DropSession h) m (session_drop h m)"
| datagram: "um_reader m = Reading \<Longrightarrow> reader_datagram d m = Some m' \<Longrightarrow>
    client_step checks (ReadDatagram d) m m'"
| lost: "um_reader m = Reading \<Longrightarrow> client_step checks ConnectionLost m (reader_lost m)"
| deliver: "um_reader m = Delivering h message \<Longrightarrow> cs_receiver (um_created m ! h) \<Longrightarrow>
    length (cs_queue (um_created m ! h)) < cs_capacity (um_created m ! h) \<Longrightarrow>
    client_step checks DeliverMessage m (update_session h (channel_push message) (m\<lparr>um_reader := Reading\<rparr>))"
| discard: "um_reader m = Delivering h message \<Longrightarrow> \<not> cs_receiver (um_created m ! h) \<Longrightarrow>
    client_step checks DeliverMessage m (m\<lparr>um_reader := Reading\<rparr>)"
| receive: "h < length (um_created m) \<Longrightarrow> cs_receiver (um_created m ! h) \<Longrightarrow>
    receive_turn checks h m = Some (out, m') \<Longrightarrow>
    taken = (case cs_queue (um_created m ! h) of [] \<Rightarrow> None | message # _ \<Rightarrow> Some message) \<Longrightarrow>
    client_step checks (ReceiveTurn h taken out) m m'"

inductive_cases client_stepE: "client_step checks e m m'"
inductive_cases receive_stepE: "client_step checks (ReceiveTurn h taken out) m m'"

inductive client_exec ::
    "bool \<Rightarrow> ClientUdpManager \<Rightarrow> client_event list \<Rightarrow> ClientUdpManager \<Rightarrow> bool" for checks m where
  stay: "client_exec checks m [] m"
| step: "client_exec checks m es m' \<Longrightarrow> client_step checks e m' m'' \<Longrightarrow> client_exec checks m (es @ [e]) m''"

inductive_simps client_exec_Nil [simp]: "client_exec checks m [] m'"

definition client_run :: "bool \<Rightarrow> client_event list \<Rightarrow> ClientUdpManager \<Rightarrow> bool" where
  "client_run checks es m \<longleftrightarrow> client_exec checks manager_new es m"

text \<open>\<open>receive\<close> without interference: turns until one returns, or \<open>None\<close> while it is waiting.\<close>

primrec receive ::
    "bool \<Rightarrow> nat \<Rightarrow> nat \<Rightarrow> ClientUdpManager \<Rightarrow>
     (((CoreError + bytes \<times> string) option) \<times> ClientUdpManager) option" where
  "receive checks 0 h m = Some (None, m)"
| "receive checks (Suc turns) h m =
     (case receive_turn checks h m of
        None \<Rightarrow> None
      | Some (Some r, m') \<Rightarrow> Some (Some r, m')
      | Some (None, m') \<Rightarrow> receive checks turns h m')"

section \<open>The invariant\<close>

text \<open>
  Registered ids name sessions that carry them and are open; a channel never exceeds its
  capacity and only holds messages for its session; the reader only delivers to the session
  whose id the message carries; the table is closed exactly when the reader has stopped.
\<close>

definition session_ok :: "nat \<Rightarrow> ClientUdpSession \<Rightarrow> bool" where
  "session_ok h s \<longleftrightarrow> cs_id s = of_nat (Suc h) \<and> length (cs_queue s) \<le> cs_capacity s \<and> 0 < cs_capacity s \<and>
     list_all (\<lambda>x. m_session_id x = cs_id s) (cs_queue s) \<and> defragger_ok (cs_defragger s)"

definition sessions_ok :: "ClientUdpManager \<Rightarrow> bool" where
  "sessions_ok m \<longleftrightarrow> (\<forall>h < length (um_created m). session_ok h (um_created m ! h))"

definition table_ok :: "ClientUdpManager \<Rightarrow> bool" where
  "table_ok m \<longleftrightarrow> (\<forall>i h. um_sessions m i = Some h \<longrightarrow> h < length (um_created m) \<and>
     cs_id (um_created m ! h) = i \<and> \<not> cs_closed (um_created m ! h) \<and> cs_receiver (um_created m ! h))"

definition reader_ok :: "ClientUdpManager \<Rightarrow> bool" where
  "reader_ok m \<longleftrightarrow> (um_closed m \<longleftrightarrow> um_reader m = ReaderStopped) \<and>
     (\<forall>h message. um_reader m = Delivering h message \<longrightarrow> h < length (um_created m) \<and>
        m_session_id message = cs_id (um_created m ! h))"

definition manager_ok :: "ClientUdpManager \<Rightarrow> bool" where
  "manager_ok m \<longleftrightarrow> sessions_ok m \<and> table_ok m \<and> reader_ok m \<and>
     um_next_id m = of_nat (Suc (length (um_created m))) \<and> list_all (\<lambda>n. 0 < n) (um_opening m)"

lemma manager_new_ok: "manager_ok manager_new"
  by (simp add: manager_ok_def sessions_ok_def table_ok_def reader_ok_def manager_new_def)

lemma manager_okD:
  assumes "manager_ok m"
  shows "sessions_ok m" "table_ok m" "reader_ok m" "um_next_id m = of_nat (Suc (length (um_created m)))"
    "list_all (\<lambda>n. 0 < n) (um_opening m)"
  using assms by (simp_all add: manager_ok_def)

lemma opening_ok [simp]:
  "sessions_ok (m\<lparr>um_opening := ns\<rparr>) = sessions_ok m" "table_ok (m\<lparr>um_opening := ns\<rparr>) = table_ok m"
  "reader_ok (m\<lparr>um_opening := ns\<rparr>) = reader_ok m"
  by (simp_all add: sessions_ok_def table_ok_def reader_ok_def)

lemma registeredD:
  assumes "manager_ok m" and "um_sessions m i = Some h"
  shows "h < length (um_created m)" "cs_id (um_created m ! h) = i"
    "\<not> cs_closed (um_created m ! h)" "cs_receiver (um_created m ! h)"
  using assms by (auto simp: manager_ok_def table_ok_def)

lemma remove_session_fields [simp]:
  "um_created (remove_session i m) = um_created m"
  "um_sessions (remove_session i m) = (um_sessions m)(i := None)"
  "um_reader (remove_session i m) = um_reader m"
  "um_closed (remove_session i m) = um_closed m"
  "um_opening (remove_session i m) = um_opening m"
  by (simp_all add: remove_session_def)

lemma new_udp_insert_ok:
  assumes "manager_ok m" and "0 < n"
  shows "manager_ok (new_udp_insert n m)"
proof -
  let ?m = "new_udp_insert n m" and ?k = "length (um_created m)"
  let ?s = "\<lparr>cs_id = um_next_id m, cs_capacity = n, cs_queue = [], cs_defragger = new_defragger,
    cs_closed = False, cs_receiver = True\<rparr>"
  have len: "length (um_created ?m) = Suc ?k" by (simp add: new_udp_insert_def Let_def)
  have old: "um_created ?m ! h = um_created m ! h" if "h < ?k" for h
    using that by (simp add: new_udp_insert_def Let_def nth_append)
  have new: "um_created ?m ! ?k = ?s" by (simp add: new_udp_insert_def Let_def)
  have "session_ok ?k ?s"
    using assms manager_okD(4)[OF assms(1)] by (simp add: session_ok_def new_defragger_ok)
  then have "sessions_ok ?m"
    using manager_okD(1)[OF assms(1)] old new unfolding sessions_ok_def len less_Suc_eq by metis
  moreover have "table_ok ?m"
    unfolding table_ok_def
  proof (intro allI impI)
    fix i h assume "um_sessions ?m i = Some h"
    then have "i = um_next_id m \<and> h = ?k \<or> um_sessions m i = Some h"
      by (auto simp: new_udp_insert_def Let_def split: if_splits)
    then show "h < length (um_created ?m) \<and> cs_id (um_created ?m ! h) = i \<and>
        \<not> cs_closed (um_created ?m ! h) \<and> cs_receiver (um_created ?m ! h)"
      using registeredD[OF assms(1), of i h] old[of h] by (elim disjE) (simp_all add: len new)
  qed
  moreover have "reader_ok ?m"
    using manager_okD(3)[OF assms(1)] old len by (auto simp: reader_ok_def new_udp_insert_def Let_def nth_append)
  ultimately show ?thesis
    using manager_okD(4,5)[OF assms(1)] by (simp add: manager_ok_def new_udp_insert_def Let_def add.commute)
qed

text \<open>An update of one session that keeps its id and its channel in order.\<close>

lemma update_session_ok:
  assumes "manager_ok m" and "h < length (um_created m)"
    and "session_ok h (um_created m ! h) \<Longrightarrow> session_ok h (f (um_created m ! h))"
    and "um_sessions m (cs_id (um_created m ! h)) = Some h \<Longrightarrow>
      \<not> cs_closed (f (um_created m ! h)) \<and> cs_receiver (f (um_created m ! h))"
  shows "manager_ok (update_session h f m)"
proof -
  have "session_ok h (f (um_created m ! h))" "session_ok h (um_created m ! h)"
    using assms(1-3) by (auto simp: manager_ok_def sessions_ok_def)
  then have same: "cs_id (f (um_created m ! h)) = cs_id (um_created m ! h)" by (simp add: session_ok_def)
  have "table_ok (update_session h f m)"
    unfolding table_ok_def
  proof (intro allI impI)
    fix i k assume "um_sessions (update_session h f m) i = Some k"
    then have k: "um_sessions m i = Some k" by (simp add: update_session_def)
    show "k < length (um_created (update_session h f m)) \<and> cs_id (um_created (update_session h f m) ! k) = i \<and>
        \<not> cs_closed (um_created (update_session h f m) ! k) \<and> cs_receiver (um_created (update_session h f m) ! k)"
      using registeredD[OF assms(1) k] assms(2,4) k same
      by (cases "k = h") (simp_all add: update_session_def)
  qed
  moreover have "reader_ok (update_session h f m)"
    using manager_okD(3)[OF assms(1)] same assms(2) by (auto simp: reader_ok_def update_session_def nth_list_update)
  moreover have "sessions_ok (update_session h f m)"
    using manager_okD(1)[OF assms(1)] \<open>session_ok h (f (um_created m ! h))\<close> assms(2)
    by (simp add: sessions_ok_def update_session_def nth_list_update)
  ultimately show ?thesis
    using manager_okD(4,5)[OF assms(1)] by (simp add: manager_ok_def update_session_def)
qed

text \<open>Steps that only shrink the table or move the reader.\<close>

lemma shrink_ok:
  assumes "manager_ok m" and "um_created m' = um_created m" and "um_next_id m' = um_next_id m"
    and "um_opening m' = um_opening m" and "reader_ok m'"
    and "\<And>i h. um_sessions m' i = Some h \<Longrightarrow> um_sessions m i = Some h"
  shows "manager_ok m'"
proof -
  have "table_ok m'"
    unfolding table_ok_def assms(2) using assms(6) registeredD[OF assms(1)] by blast
  with assms manager_okD[OF assms(1)] show ?thesis by (simp add: manager_ok_def sessions_ok_def)
qed

lemma remove_session_ok: "manager_ok m \<Longrightarrow> manager_ok (remove_session i m)"
  by (rule shrink_ok) (auto simp: remove_session_def reader_ok_def manager_ok_def split: if_splits)

lemma session_close_eq:
  "session_close h m = (if cs_closed (um_created m ! h) then m
     else update_session h (cs_closed_update (\<lambda>_. True)) (remove_session (cs_id (um_created m ! h)) m))"
  by (simp add: session_close_def update_session_def remove_session_def)

lemma session_close_ok:
  assumes "manager_ok m" and "h < length (um_created m)"
  shows "manager_ok (session_close h m)"
  unfolding session_close_eq using assms
  by (auto intro!: update_session_ok remove_session_ok simp: session_ok_def)

lemma session_close_unregisters:
  assumes "manager_ok m" and "h < length (um_created m)"
  shows "um_sessions (session_close h m) i \<noteq> Some h"
proof
  assume "um_sessions (session_close h m) i = Some h"
  then have "h < length (um_created (session_close h m)) \<and> \<not> cs_closed (um_created (session_close h m) ! h)"
    using session_close_ok[OF assms] by (auto simp: manager_ok_def table_ok_def)
  then show False
    using assms(2) by (auto simp: session_close_def update_session_def remove_session_def split: if_splits)
qed

lemma length_session_close [simp]: "length (um_created (session_close h m)) = length (um_created m)"
  by (simp add: session_close_def update_session_def remove_session_def)

lemma session_drop_ok:
  assumes "manager_ok m" and "h < length (um_created m)"
  shows "manager_ok (session_drop h m)"
  unfolding session_drop_def using assms session_close_unregisters[OF assms]
  by (intro update_session_ok) (auto simp: session_close_ok session_ok_def)

lemma reader_datagram_total: "\<exists>m'. reader_datagram d m = Some m'"
  using parse_udp_message_total[of d] by (auto simp: reader_datagram_def split: sum.split option.split)

lemma reader_datagram_ok:
  assumes "manager_ok m" and "reader_datagram d m = Some m'" and "um_reader m = Reading"
  shows "manager_ok m'"
proof -
  have "m' = m \<or> (\<exists>h x. m' = m\<lparr>um_reader := Delivering h x\<rparr> \<and> um_sessions m (m_session_id x) = Some h)"
    using assms(2) by (auto simp: reader_datagram_def split: option.splits sum.splits)
  then show ?thesis
  proof (elim disjE exE conjE)
    fix h x assume m': "m' = m\<lparr>um_reader := Delivering h x\<rparr>" and reg: "um_sessions m (m_session_id x) = Some h"
    have "reader_ok m'"
      using registeredD[OF assms(1) reg] manager_okD(3)[OF assms(1)] assms(3) by (simp add: m' reader_ok_def)
    with assms(1) show ?thesis by (rule_tac shrink_ok) (simp_all add: m')
  qed (simp add: assms(1))
qed

lemma reader_lost_ok: "manager_ok m \<Longrightarrow> manager_ok (reader_lost m)"
  by (rule shrink_ok) (simp_all add: reader_lost_def close_all_def reader_ok_def)

lemma reader_resume_ok:
  assumes "manager_ok m" and "um_reader m = Delivering h x"
  shows "manager_ok (m\<lparr>um_reader := Reading\<rparr>)"
  using assms(1) by (rule shrink_ok) (use assms in \<open>simp_all add: manager_ok_def reader_ok_def\<close>)

lemma receive_turn_total:
  assumes "manager_ok m" and "h < length (um_created m)"
  shows "\<exists>out m'. receive_turn checks h m = Some (out, m')"
proof (cases "cs_queue (um_created m ! h)")
  case (Cons message queue)
  have "defragger_ok (cs_defragger (um_created m ! h))"
    using assms by (simp add: manager_ok_def sessions_ok_def session_ok_def)
  with feed_total obtain r d' where "feed checks (cs_defragger (um_created m ! h)) message = Some (r, d')" by blast
  with Cons show ?thesis by (simp add: receive_turn_def Let_def)
qed (simp add: receive_turn_def)

lemma receive_turn_ok:
  assumes "manager_ok m" and "h < length (um_created m)" and "receive_turn checks h m = Some (out, m')"
  shows "manager_ok m'"
proof (cases "cs_queue (um_created m ! h)")
  case Nil
  with assms(1,3) show ?thesis by (auto simp: receive_turn_def split: if_splits)
next
  case (Cons message queue)
  have s: "session_ok h (um_created m ! h)"
    using assms(1,2) by (simp add: manager_ok_def sessions_ok_def)
  then obtain r d where d: "feed checks (cs_defragger (um_created m ! h)) message = Some (r, d)" "defragger_ok d"
    using feed_total by (metis session_ok_def)
  with Cons assms(3) have "m' = update_session h (\<lambda>s. s\<lparr>cs_queue := queue, cs_defragger := d\<rparr>) m"
    by (simp add: receive_turn_def Let_def)
  moreover have "manager_ok (update_session h (\<lambda>s. s\<lparr>cs_queue := queue, cs_defragger := d\<rparr>) m)"
    using assms(1,2) d(2) Cons registeredD[OF assms(1)]
    by (intro update_session_ok) (auto simp: session_ok_def)
  ultimately show ?thesis by simp
qed

lemma client_step_ok:
  assumes "client_step checks e m m'" and "manager_ok m"
  shows "manager_ok m'"
  using assms(1)
proof (cases rule: client_step.cases)
  case (open_check n)
  from open_check(3) have "0 < n" by (simp add: new_udp_check_def split: if_splits)
  with assms(2) show ?thesis
    unfolding open_check(2) by (simp add: manager_ok_def)
next
  case (open_insert n)
  have "list_all (\<lambda>n. 0 < n) (remove1 n (um_opening m))" "0 < n"
    using open_insert(3) manager_okD(5)[OF assms(2)] set_remove1_subset[of n "um_opening m"]
    by (auto simp: list_all_iff)
  then have "manager_ok (m\<lparr>um_opening := remove1 n (um_opening m)\<rparr>)"
    using assms(2) by (simp add: manager_ok_def)
  with \<open>0 < n\<close> show ?thesis using open_insert(2) by (simp add: new_udp_insert_ok)
next
  case (deliver h message)
  have ok: "manager_ok (m\<lparr>um_reader := Reading\<rparr>)" using assms(2) deliver(3) by (rule reader_resume_ok)
  have "h < length (um_created m)" "m_session_id message = cs_id (um_created m ! h)"
    using manager_okD(3)[OF assms(2)] deliver(3) by (auto simp: reader_ok_def)
  with ok deliver(4,5) have
    "manager_ok (update_session h (channel_push message) (m\<lparr>um_reader := Reading\<rparr>))"
    by (intro update_session_ok) (auto simp: session_ok_def channel_push_def dest: registeredD(3)[OF assms(2)])
  then show ?thesis using deliver(2) by simp
qed (use assms(2) in \<open>auto intro: session_close_ok session_drop_ok reader_datagram_ok reader_lost_ok
      reader_resume_ok receive_turn_ok\<close>)

lemma client_exec_ok: "client_exec checks m es m' \<Longrightarrow> manager_ok m \<Longrightarrow> manager_ok m'"
  by (induction rule: client_exec.induct) (auto intro: client_step_ok)

lemma client_run_ok: "client_run checks es m \<Longrightarrow> manager_ok m"
  unfolding client_run_def using client_exec_ok manager_new_ok by blast

section \<open>What reaches a session\<close>

definition datagrams_read :: "client_event list \<Rightarrow> bytes list" where
  "datagrams_read es = concat (map (\<lambda>e. case e of ReadDatagram d \<Rightarrow> [d] | _ \<Rightarrow> []) es)"

definition taken_by :: "nat \<Rightarrow> client_event list \<Rightarrow> UDPMessage list" where
  "taken_by h es = concat (map (\<lambda>e. case e of
     ReceiveTurn h' (Some message) _ \<Rightarrow> if h' = h then [message] else [] | _ \<Rightarrow> []) es)"

definition addressed_to :: "nat \<Rightarrow> client_event list \<Rightarrow> UDPMessage list" where
  "addressed_to h es = filter (\<lambda>x. m_session_id x = of_nat (Suc h)) (parsed (datagrams_read es))"

text \<open>The messages on their way to session \<open>h\<close>: in its channel, then in the reader's hands.\<close>

definition waiting :: "nat \<Rightarrow> ClientUdpManager \<Rightarrow> UDPMessage list" where
  "waiting h m = (if h < length (um_created m) then cs_queue (um_created m ! h) else []) @
     (case um_reader m of Delivering h' message \<Rightarrow> if h' = h then [message] else [] | _ \<Rightarrow> [])"

lemma history_append [simp]:
  "taken_by h (es @ es') = taken_by h es @ taken_by h es'"
  "addressed_to h (es @ es') = addressed_to h es @ addressed_to h es'"
  by (simp_all add: taken_by_def addressed_to_def datagrams_read_def parsed_def)

lemma history_Nil [simp]: "taken_by h [] = []" "addressed_to h [] = []"
  by (simp_all add: taken_by_def addressed_to_def datagrams_read_def parsed_def)

lemma quiet_events [simp]:
  "taken_by h [OpenCheck n] = []" "addressed_to h [OpenCheck n] = []"
  "taken_by h [OpenInsert n] = []" "addressed_to h [OpenInsert n] = []"
  "taken_by h [CloseSession k] = []" "addressed_to h [CloseSession k] = []"
  "taken_by h [DropSession k] = []" "addressed_to h [DropSession k] = []"
  "taken_by h [ConnectionLost] = []" "addressed_to h [ConnectionLost] = []"
  "taken_by h [DeliverMessage] = []" "addressed_to h [DeliverMessage] = []"
  "taken_by h [ReadDatagram d] = []" "addressed_to h [ReceiveTurn k taken out] = []"
  by (simp_all add: taken_by_def addressed_to_def datagrams_read_def parsed_def)

lemma taken_by_receive [simp]:
  "taken_by h [ReceiveTurn k taken out] = (if k = h then case taken of None \<Rightarrow> [] | Some x \<Rightarrow> [x] else [])"
  by (auto simp: taken_by_def split: option.split)

lemma waiting_update_session:
  assumes "k < length (um_created m)"
  shows "waiting h (update_session k f m) =
    (if h = k then cs_queue (f (um_created m ! k)) @ (case um_reader m of
        Delivering h' message \<Rightarrow> if h' = h then [message] else [] | _ \<Rightarrow> []) else waiting h m)"
  using assms by (simp add: waiting_def update_session_def)

lemma waiting_session_close [simp]: "waiting h (session_close k m) = waiting h m"
  by (cases "h = k") (auto simp: session_close_def update_session_def remove_session_def waiting_def)

lemma waiting_session_drop:
  assumes "k < length (um_created m)"
  shows "subseq (waiting h (session_drop k m)) (waiting h m)"
proof -
  have "waiting h (session_close k m) = waiting h m" by simp
  moreover have "um_reader (session_close k m) = um_reader m"
    by (simp add: session_close_def update_session_def remove_session_def)
  ultimately show ?thesis
    using assms by (auto simp: session_drop_def waiting_update_session) (auto simp: waiting_def)
qed

lemma waiting_new_udp: "manager_ok m \<Longrightarrow> waiting h (new_udp_insert n m) = waiting h m"
  by (auto simp: waiting_def new_udp_insert_def Let_def nth_append manager_ok_def reader_ok_def split: reader.split)

lemma waiting_datagram:
  assumes "manager_ok m" and "um_reader m = Reading" and "reader_datagram d m = Some m'"
  shows "subseq (waiting h m') (waiting h m @ addressed_to h [ReadDatagram d])"
proof (cases "m' = m")
  case True
  then show ?thesis by (simp add: list_emb_prefix)
next
  case False
  then obtain k x where x: "parse_udp_message d = Some (Ok x)" "um_sessions m (m_session_id x) = Some k"
    and m': "m' = m\<lparr>um_reader := Delivering k x\<rparr>"
    using assms(3) by (auto simp: reader_datagram_def split: option.splits sum.splits)
  have "k < length (um_created m)" "m_session_id x = of_nat (Suc k)"
    using registeredD[OF assms(1) x(2)] manager_okD(1)[OF assms(1)] by (auto simp: sessions_ok_def session_ok_def)
  then show ?thesis
    using x(1) assms(2) by (auto simp: m' waiting_def addressed_to_def datagrams_read_def parsed_def)
qed

lemma waiting_deliver:
  assumes "um_reader m = Delivering k x" and "k < length (um_created m)"
  shows "waiting h (update_session k (channel_push x) (m\<lparr>um_reader := Reading\<rparr>)) = waiting h m"
  using assms by (simp add: waiting_update_session) (simp add: waiting_def channel_push_def)

lemma waiting_receive:
  assumes "k < length (um_created m)" and "receive_turn checks k m = Some (out, m')"
    and "taken = (case cs_queue (um_created m ! k) of [] \<Rightarrow> None | x # _ \<Rightarrow> Some x)"
  shows "taken_by h [ReceiveTurn k taken out] @ waiting h m' = waiting h m"
proof (cases "cs_queue (um_created m ! k)")
  case Nil
  with assms show ?thesis by (auto simp: receive_turn_def split: if_splits)
next
  case (Cons x queue)
  with assms(2) obtain d where "m' = update_session k (\<lambda>s. s\<lparr>cs_queue := queue, cs_defragger := d\<rparr>) m"
    by (auto simp: receive_turn_def Let_def split: bind_splits)
  with Cons assms(1,3) show ?thesis
    by (cases "h = k") (simp_all add: waiting_update_session, simp add: waiting_def)
qed

lemma client_step_history:
  assumes "client_step checks e m m'" and "manager_ok m"
  shows "subseq (taken_by h [e] @ waiting h m') (waiting h m @ addressed_to h [e])"
  using assms(1)
proof (cases rule: client_step.cases)
  case (open_insert n)
  have "manager_ok (m\<lparr>um_opening := remove1 n (um_opening m)\<rparr>)"
    using assms(2) set_remove1_subset[of n "um_opening m"] by (auto simp: manager_ok_def list_all_iff)
  from waiting_new_udp[OF this, of h n] show ?thesis
    using open_insert(1,2) by (simp add: waiting_def)
next
  case (close k)
  then show ?thesis by simp
next
  case (drop k)
  then show ?thesis using waiting_session_drop by simp
next
  case (datagram d)
  then show ?thesis using waiting_datagram[OF assms(2)] by simp
next
  case (deliver k x)
  then have "k < length (um_created m)" using manager_okD(3)[OF assms(2)] by (simp add: reader_ok_def)
  with deliver show ?thesis by (simp add: waiting_deliver)
next
  case (receive k out taken)
  then show ?thesis using waiting_receive[of k m checks out m' taken h] by simp
qed (auto simp: waiting_def reader_lost_def close_all_def)

lemma client_exec_history:
  assumes "client_exec checks m es m'" and "manager_ok m"
  shows "subseq (taken_by h es @ waiting h m') (waiting h m @ addressed_to h es)"
  using assms
proof (induction rule: client_exec.induct)
  case (step es m' e m'')
  have "subseq (taken_by h [e] @ waiting h m'') (waiting h m' @ addressed_to h [e])"
    by (rule client_step_history[OF step.hyps(2) client_exec_ok[OF step.hyps(1) step.prems]])
  then have "subseq (taken_by h es @ taken_by h [e] @ waiting h m'')
      ((taken_by h es @ waiting h m') @ addressed_to h [e])"
    by (simp only: append_assoc) (rule list_emb_append_mono, simp_all)
  also have "subseq \<dots> ((waiting h m @ addressed_to h es) @ addressed_to h [e])"
    by (rule list_emb_append_mono[OF step.IH[OF step.prems] subseq_order.refl])
  finally show ?case by simp
qed simp

section \<open>Termination of \<open>receive\<close>, and a session that is opened too late\<close>

lemma receive_returns:
  assumes "manager_ok m" and "h < length (um_created m)" and "\<not> sender_alive h m"
    and "length (cs_queue (um_created m ! h)) = n"
  shows "\<exists>r m'. receive checks (Suc n) h m = Some (Some r, m')"
  using assms
proof (induction n arbitrary: m)
  case 0
  then show ?case by (simp add: receive_turn_def)
next
  case (Suc n)
  obtain out m' where turn: "receive_turn checks h m = Some (out, m')"
    using receive_turn_total[OF Suc.prems(1,2)] by blast
  obtain message queue where q: "cs_queue (um_created m ! h) = message # queue"
    using Suc.prems(4) by (cases "cs_queue (um_created m ! h)") auto
  then obtain d where m': "m' = update_session h (\<lambda>s. s\<lparr>cs_queue := queue, cs_defragger := d\<rparr>) m"
    using turn by (auto simp: receive_turn_def Let_def split: bind_splits)
  show ?case
  proof (cases out)
    case None
    have "\<exists>r m''. receive checks (Suc n) h m' = Some (Some r, m'')"
      using Suc.prems q receive_turn_ok[OF Suc.prems(1,2) turn]
      by (intro Suc.IH) (auto simp: m' update_session_def sender_alive_def)
    with None turn show ?thesis by simp
  qed (use turn in simp)
qed

definition stranded :: "ClientUdpManager \<Rightarrow> bool" where
  "stranded m \<longleftrightarrow> um_reader m = ReaderStopped \<and> um_closed m \<and> um_opening m = [] \<and>
     length (um_created m) = 1 \<and> um_sessions m (cs_id (um_created m ! 0)) = Some 0 \<and>
     cs_queue (um_created m ! 0) = []"

lemma stranded_step:
  assumes "client_step checks e m m'" and "stranded m" and "e \<noteq> CloseSession 0" and "e \<noteq> DropSession 0"
  shows "stranded m'"
  using assms by (cases rule: client_step.cases)
    (auto simp: stranded_def new_udp_check_def receive_turn_def split: if_splits)

lemma stranded_exec:
  "client_exec checks m es m' \<Longrightarrow> stranded m \<Longrightarrow> CloseSession 0 \<notin> set es \<Longrightarrow> DropSession 0 \<notin> set es \<Longrightarrow>
    stranded m'"
  by (induction rule: client_exec.induct) (auto dest: stranded_step)

lemma client_exec_snoc:
  "client_exec checks m (es @ [e]) m'' \<longleftrightarrow> (\<exists>m'. client_exec checks m es m' \<and> client_step checks e m' m'')"
  by (subst client_exec.simps) auto

lemma race_stranded:
  assumes "client_exec checks manager_new [OpenCheck n, ConnectionLost, OpenInsert n] m"
  shows "stranded m"
proof -
  obtain a b where "client_step checks (OpenCheck n) manager_new a" "client_step checks ConnectionLost a b"
    "client_step checks (OpenInsert n) b m"
    using assms client_exec_snoc[of checks manager_new "[OpenCheck n, ConnectionLost]"]
      client_exec_snoc[of checks manager_new "[OpenCheck n]"] client_exec_snoc[of checks manager_new "[]"]
    by auto
  then show ?thesis
    by (auto elim!: client_stepE simp: manager_new_def reader_lost_def close_all_def new_udp_insert_def
        Let_def stranded_def)
qed

text \<open>A concrete execution: a session is opened, a datagram for it is read, delivered and received.\<close>

definition sample_datagram :: bytes where
  "sample_datagram = [0, 0, 0, 1, 0, 0, 0, 1, 3, 97, 58, 49, 104, 105]"

definition sample_arrival :: UDPMessage where
  "sample_arrival = \<lparr>m_session_id = 1, m_packet_id = 0, m_frag_id = 0, m_frag_count = 1,
     m_addr = ''a:1'', m_data = [104, 105]\<rparr>"

definition sample_opened :: ClientUdpManager where
  "sample_opened = new_udp_insert 4 manager_new"

definition sample_queued :: ClientUdpManager where
  "sample_queued = update_session 0 (channel_push sample_arrival) sample_opened"

definition sample_received :: ClientUdpManager where
  "sample_received = update_session 0 (\<lambda>s. s\<lparr>cs_queue := [], cs_defragger := new_defragger\<rparr>) sample_queued"

definition sample_events :: "client_event list" where
  "sample_events = [OpenCheck 4, OpenInsert 4, ReadDatagram sample_datagram, DeliverMessage,
     ReceiveTurn 0 (Some sample_arrival) (Some (Ok ([104, 105], ''a:1'')))]"

lemma sample_parsed: "parse_udp_message sample_datagram = Some (Ok sample_arrival)"
  by code_simp

lemma client_exec_Cons:
  "client_step checks e m m' \<Longrightarrow> client_exec checks m' es m'' \<Longrightarrow> client_exec checks m (e # es) m''"
proof (rotate_tac, induction rule: client_exec.induct)
  case stay
  then show ?case using client_exec.step[OF client_exec.stay, of checks e m m'] by simp
next
  case (step es a e' b)
  then show ?case using client_exec.step[of checks m "e # es" a e' b] by simp
qed

lemma sample_prefix: "client_run checks (take 4 sample_events) sample_queued"
  and sample_run: "client_run checks sample_events sample_received"
proof -
  let ?opening = "manager_new\<lparr>um_opening := [4]\<rparr>"
  have a: "client_step checks (OpenCheck 4) manager_new ?opening"
    using client_step.open_check[of 4 manager_new checks] by (simp add: new_udp_check_def manager_new_def)
  have b: "client_step checks (OpenInsert 4) ?opening sample_opened"
    using client_step.open_insert[of 4 ?opening checks] by (simp add: sample_opened_def manager_new_def)
  have c: "client_step checks (ReadDatagram sample_datagram) sample_opened
      (sample_opened\<lparr>um_reader := Delivering 0 sample_arrival\<rparr>)"
    by (rule client_step.datagram) (simp_all add: reader_datagram_def sample_parsed sample_opened_def
        new_udp_insert_def Let_def manager_new_def sample_arrival_def)
  have d: "client_step checks DeliverMessage (sample_opened\<lparr>um_reader := Delivering 0 sample_arrival\<rparr>) sample_queued"
    using client_step.deliver[of "sample_opened\<lparr>um_reader := Delivering 0 sample_arrival\<rparr>" 0 sample_arrival checks]
    by (simp add: sample_opened_def sample_queued_def update_session_def new_udp_insert_def Let_def manager_new_def)
  have e: "client_step checks (ReceiveTurn 0 (Some sample_arrival) (Some (Ok ([104, 105], ''a:1''))))
      sample_queued sample_received"
    by (rule client_step.receive) (simp_all add: receive_turn_def feed_def sample_opened_def sample_queued_def
        sample_received_def update_session_def new_udp_insert_def Let_def manager_new_def channel_push_def
        sample_arrival_def)
  have p: "client_run checks [OpenCheck 4, OpenInsert 4, ReadDatagram sample_datagram, DeliverMessage] sample_queued"
    unfolding client_run_def by (intro client_exec_Cons[OF a] client_exec_Cons[OF b] client_exec_Cons[OF c]
        client_exec_Cons[OF d] client_exec.stay)
  then show "client_run checks (take 4 sample_events) sample_queued" by (simp add: sample_events_def)
  show "client_run checks sample_events sample_received"
    using client_exec.step[OF p[unfolded client_run_def] e] by (simp add: client_run_def sample_events_def)
qed

lemma length_sample_received: "length (um_created sample_received) = 1"
  by (simp add: sample_received_def sample_queued_def sample_opened_def update_session_def new_udp_insert_def
      Let_def manager_new_def)

section \<open>Properties\<close>

text \<open>
  C12: Sessions are isolated and ordered: in every interleaving of opening, closing, dropping,
  reading datagrams and receiving, the messages that one session takes from its channel are
  a subsequence of the datagrams read that parse and carry this session's id, in the order of
  their arrival and without duplicates.
\<close>

theorem client_sessions_isolated:
  assumes "client_run checks es m" and "h < length (um_created m)"
  shows "subseq (taken_by h es)
    (filter (\<lambda>x. m_session_id x = cs_id (um_created m ! h)) (parsed (datagrams_read es)))"
proof -
  have "subseq (taken_by h es @ waiting h m) (waiting h manager_new @ addressed_to h es)"
    using assms(1) client_exec_history manager_new_ok unfolding client_run_def by blast
  moreover have "cs_id (um_created m ! h) = of_nat (Suc h)"
    using client_run_ok[OF assms(1)] assms(2) by (simp add: manager_ok_def sessions_ok_def session_ok_def)
  moreover have "waiting h manager_new = []" by (simp add: waiting_def manager_new_def)
  ultimately show ?thesis
    by (simp add: addressed_to_def) (metis list_emb_append_mono list_emb_Nil append_Nil2 subseq_order.refl
        subseq_order.trans)
qed

theorem client_sessions_isolated_witness:
  "taken_by 0 sample_events = [sample_arrival] \<and>
   subseq (taken_by 0 sample_events)
    (filter (\<lambda>x. m_session_id x = cs_id (um_created sample_received ! 0)) (parsed (datagrams_read sample_events)))"
  using client_sessions_isolated[OF sample_run[of True], of 0] length_sample_received
  by (simp add: taken_by_def sample_events_def)



text \<open>
  Once nothing can send to a session any more, because it was closed or because the
  connection was lost, \<open>receive\<close> returns: it drains at most the messages still queued and then
  reports that the session is closed.
\<close>

lemma receive_ends:
  assumes "client_run checks es m" and "h < length (um_created m)" and "\<not> sender_alive h m"
  shows "\<exists>r m'. receive checks (Suc (length (cs_queue (um_created m ! h)))) h m = Some (Some r, m')"
  by (rule receive_returns[OF client_run_ok[OF assms(1)] assms(2,3) refl])

text \<open>
  C14: A race in \<open>new_udp\<close>: when the connection is lost between its test of the closed flag and its
  insertion of the session, the manager is closed and its reader has stopped, but the session
  stays in the table. Whatever happens next short of closing that session, its \<open>receive\<close> never
  returns, neither data nor an error.
\<close>

theorem new_udp_race:
  assumes "client_exec checks manager_new [OpenCheck n, ConnectionLost, OpenInsert n] m"
    and "client_exec checks m es m'" and "CloseSession 0 \<notin> set es" and "DropSession 0 \<notin> set es"
    and "client_step checks (ReceiveTurn 0 taken out) m' m''"
  shows "um_closed m' \<and> um_reader m' = ReaderStopped \<and> sender_alive 0 m' \<and> out = None"
proof -
  have "stranded m'" using stranded_exec[OF assms(2) race_stranded[OF assms(1)] assms(3,4)] .
  with assms(5) show ?thesis
    by (auto elim!: receive_stepE simp: stranded_def sender_alive_def receive_turn_def)
qed

theorem new_udp_race_witness:
  "\<exists>m m''. client_exec True manager_new [OpenCheck 4, ConnectionLost, OpenInsert 4] m \<and>
     client_step True (ReceiveTurn 0 None None) m m'' \<and> um_closed m \<and> sender_alive 0 m"
proof -
  let ?a = "manager_new\<lparr>um_opening := [4]\<rparr>"
  let ?m = "new_udp_insert 4 ((reader_lost ?a)\<lparr>um_opening := []\<rparr>)"
  have "client_step True (OpenCheck 4) manager_new ?a" "client_step True ConnectionLost ?a (reader_lost ?a)"
    "client_step True (OpenInsert 4) (reader_lost ?a) ?m"
    using client_step.open_check[of 4 manager_new True] client_step.lost[of ?a True]
      client_step.open_insert[of 4 "reader_lost ?a" True]
    by (simp_all add: new_udp_check_def manager_new_def reader_lost_def close_all_def)
  then have run: "client_exec True manager_new [OpenCheck 4, ConnectionLost, OpenInsert 4] ?m"
    by (intro client_exec_Cons) (simp_all add: client_exec.stay)
  have turn: "client_step True (ReceiveTurn 0 None None) ?m ?m"
    by (rule client_step.receive) (simp_all add: receive_turn_def sender_alive_def new_udp_insert_def Let_def
        manager_new_def reader_lost_def close_all_def)
  show ?thesis
    using new_udp_race[OF run client_exec.stay _ _ turn] run turn by auto
qed

end
