(* ===== verification/Rust_Text.thy ===== *)
theory Rust_Text
  imports Rust_Std "HOL-Library.Sublist"
begin

text \<open>
  The text functions of the Rust standard library the components call: printing and parsing
  unsigned integers, trimming, splitting and case folding. Strings are UTF-8 byte lists, so
  \<open>trim\<close> knows the byte sequences of the Unicode white space characters.
\<close>

section \<open>Numbers\<close>

definition digit_char :: "nat \<Rightarrow> char" where
  "digit_char d = char_of (if d < 10 then 48 + d else 87 + d)"

text \<open>\<open>to_string\<close> and the lower-case hexadecimal format of an unsigned integer.\<close>

function print_radix :: "nat \<Rightarrow> nat \<Rightarrow> string" where
  "print_radix r n = (if n < r \<or> r < 2 then [digit_char n] else print_radix r (n div r) @ [digit_char (n mod r)])"
  by auto
termination
  by (relation "measure snd") auto

declare print_radix.simps [simp del]

abbreviation dec :: "nat \<Rightarrow> string" where
  "dec n \<equiv> print_radix 10 n"

text \<open>\<open>char::to_digit\<close>.\<close>

definition to_digit :: "nat \<Rightarrow> char \<Rightarrow> nat option" where
  "to_digit r c =
     (let b = of_char c :: nat;
          d = (if 48 \<le> b \<and> b \<le> 57 then b - 48
               else if 97 \<le> b \<and> b \<le> 122 then b - 87
               else if 65 \<le> b \<and> b \<le> 90 then b - 55 else 36)
      in if d < r then Some d else None)"

fun parse_digits :: "nat \<Rightarrow> nat \<Rightarrow> string \<Rightarrow> nat option" where
  "parse_digits r acc [] = Some acc"
| "parse_digits r acc (c # cs) = (case to_digit r c of None \<Rightarrow> None | Some d \<Rightarrow> parse_digits r (acc * r + d) cs)"

text \<open>
  \<open>from_str_radix\<close> of an unsigned type with \<open>bound\<close> values: one leading plus sign is accepted,
  an empty digit string and an overflow are errors.
\<close>

definition parse_radix :: "nat \<Rightarrow> nat \<Rightarrow> string \<Rightarrow> nat option" where
  "parse_radix r bound s =
     (let ds = (if take 1 s = ''+'' then drop 1 s else s) in
      if ds = [] then None
      else case parse_digits r 0 ds of None \<Rightarrow> None | Some n \<Rightarrow> if n < bound then Some n else None)"

abbreviation parse_uint :: "nat \<Rightarrow> string \<Rightarrow> nat option" where
  "parse_uint bound s \<equiv> parse_radix 10 bound s"

definition parse_bool :: "string \<Rightarrow> bool option" where
  "parse_bool s = (if s = ''true'' then Some True else if s = ''false'' then Some False else None)"

lemma of_char_digit_char: "d < 16 \<Longrightarrow> of_char (digit_char d) = (if d < 10 then 48 + d else 87 + d)"
  by (simp add: digit_char_def)

lemma to_digit_digit_char: "d < r \<Longrightarrow> r \<le> 16 \<Longrightarrow> to_digit r (digit_char d) = Some d"
  by (simp add: to_digit_def of_char_digit_char Let_def)

lemma parse_digits_append:
  "parse_digits r acc (xs @ ys) = (case parse_digits r acc xs of None \<Rightarrow> None | Some n \<Rightarrow> parse_digits r n ys)"
  by (induction xs arbitrary: acc) (auto split: option.split)

lemma parse_print_radix: "2 \<le> r \<Longrightarrow> r \<le> 16 \<Longrightarrow> parse_digits r 0 (print_radix r n) = Some n"
proof (induction r n rule: print_radix.induct)
  case (1 r n)
  show ?case
  proof (cases "n < r")
    case True
    with "1.prems" show ?thesis by (simp add: print_radix.simps[of r n] to_digit_digit_char)
  next
    case False
    with 1 show ?thesis
      by (simp add: print_radix.simps[of r n] parse_digits_append to_digit_digit_char)
  qed
qed

lemma print_radix_not_Nil [simp]: "print_radix r n \<noteq> []"
  by (subst print_radix.simps) simp

lemma print_radix_digits:
  assumes "2 \<le> r" and "c \<in> set (print_radix r n)"
  shows "\<exists>d < r. c = digit_char d"
  using assms
proof (induction r n rule: print_radix.induct)
  case (1 r n)
  show ?case
  proof (cases "n < r")
    case True
    with "1.prems" show ?thesis by (auto simp: print_radix.simps[of r n])
  next
    case False
    with 1 show ?thesis by (auto simp: print_radix.simps[of r n] intro: exI[of _ "n mod r"])
  qed
qed

definition is_digit_char :: "char \<Rightarrow> bool" where
  "is_digit_char c \<longleftrightarrow> to_digit 16 c \<noteq> None \<and> (of_char c :: nat) < 128"

lemma print_radix_chars:
  assumes "2 \<le> r" and "r \<le> 16" and "c \<in> set (print_radix r n)"
  shows "is_digit_char c" and "to_digit r c \<noteq> None"
  using print_radix_digits[OF assms(1,3)] assms(2)
  by (auto simp: is_digit_char_def to_digit_digit_char of_char_digit_char)

lemma digit_char_neq:
  "\<not> is_digit_char (CHR ''+'')" "\<not> is_digit_char (CHR ''.'')" "\<not> is_digit_char (CHR '':'')"
  "\<not> is_digit_char (CHR ''['')" "\<not> is_digit_char (CHR '']'')" "\<not> is_digit_char (CHR ''%'')"
  "\<not> is_digit_char (CHR '' '')"
  by code_simp+

lemma print_radix_hd:
  assumes "2 \<le> r" and "r \<le> 16"
  shows "is_digit_char (hd (print_radix r n))"
  by (rule print_radix_chars(1)[OF assms, of _ n]) simp

lemma parse_radix_print:
  assumes "2 \<le> r" and "r \<le> 16" and "n < bound"
  shows "parse_radix r bound (print_radix r n) = Some n"
proof -
  have "take 1 (print_radix r n) \<noteq> ''+''"
    using print_radix_hd[OF assms(1,2), of n] digit_char_neq(1)
    by (cases "print_radix r n") auto
  then show ?thesis using assms by (simp add: parse_radix_def Let_def parse_print_radix)
qed

lemma parse_uint_dec [simp]: "n < bound \<Longrightarrow> parse_uint bound (dec n) = Some n"
  by (rule parse_radix_print) simp_all

lemma parse_radix_bound: "parse_radix r bound s = Some n \<Longrightarrow> n < bound"
  by (auto simp: parse_radix_def Let_def split: if_splits option.splits)

text \<open>Only zero is printed with a leading zero.\<close>

lemma print_radix_leading:
  assumes "2 \<le> r" and "r \<le> 16" and "hd (print_radix r n) = CHR ''0''"
  shows "n = 0"
  using assms
proof (induction r n rule: print_radix.induct)
  case (1 r n)
  show ?case
  proof (cases "n < r")
    case True
    then have "of_char (digit_char n) = (48 :: nat)"
      using "1.prems" by (simp add: print_radix.simps[of r n])
    then show ?thesis using True "1.prems"(2) by (simp add: of_char_digit_char split: if_splits)
  next
    case False
    then have "n div r = 0" using 1 by (simp add: print_radix.simps[of r n])
    with False "1.prems" show ?thesis by (simp add: div_eq_0_iff)
  qed
qed

lemma length_print_radix:
  "2 \<le> r \<Longrightarrow> 0 < k \<Longrightarrow> n < r ^ k \<Longrightarrow> length (print_radix r n) \<le> k"
proof (induction r n arbitrary: k rule: print_radix.induct)
  case (1 r n)
  show ?case
  proof (cases "n < r")
    case True
    with "1.prems" show ?thesis by (simp add: print_radix.simps[of r n])
  next
    case False
    with "1.prems" obtain j where j: "k = Suc j" "0 < j" by (cases k; cases "k - 1") auto
    have "n div r < r ^ j" using "1.prems" j by (simp add: less_mult_imp_div_less mult.commute)
    with False 1 j show ?thesis by (simp add: print_radix.simps[of r n])
  qed
qed

lemma str_ok_ascii: "(\<And>c. c \<in> set s \<Longrightarrow> (of_char c :: nat) < 128) \<Longrightarrow> str_ok s"
  unfolding str_ok_def
proof (rule utf8_valid_ascii)
  fix b assume ascii: "\<And>c. c \<in> set s \<Longrightarrow> (of_char c :: nat) < 128" and "b \<in> set (as_bytes s)"
  then obtain c where c: "c \<in> set s" "b = of_char c" by (auto simp: as_bytes_def)
  then have "(of_char c :: nat) < 128" using ascii by simp
  moreover have "b = of_nat (of_char c)" using c(2) by (simp only: of_nat_of_char)
  ultimately show "b < 0x80" by (simp add: word_less_nat_alt unat_of_nat del: of_nat_of_char)
qed

lemma str_ok_print_radix: "2 \<le> r \<Longrightarrow> r \<le> 16 \<Longrightarrow> str_ok (print_radix r n)"
  by (rule str_ok_ascii) (use print_radix_chars(1) in \<open>auto simp: is_digit_char_def\<close>)

section \<open>Trimming\<close>

text \<open>Removing any of some patterns from the front for as long as one matches.\<close>

function strip_front :: "string list \<Rightarrow> string \<Rightarrow> string" where
  "strip_front pats s =
     (case find (\<lambda>w. w \<noteq> [] \<and> prefix w s) pats of
        None \<Rightarrow> s
      | Some w \<Rightarrow> strip_front pats (drop (length w) s))"
  by auto
termination
  by (relation "measure (length \<circ> snd)") (auto simp: find_Some_iff prefix_def)

declare strip_front.simps [simp del]

definition strip_back :: "string list \<Rightarrow> string \<Rightarrow> string" where
  "strip_back pats s = rev (strip_front (map rev pats) (rev s))"

text \<open>The UTF-8 encodings of the characters with the property White\_Space.\<close>

definition whitespace :: "string list" where
  "whitespace = map str_of ([[9], [10], [11], [12], [13], [32], [0xC2, 0x85], [0xC2, 0xA0], [0xE1, 0x9A, 0x80]] @
     map (\<lambda>b. [0xE2, 0x80, b]) [0x80, 0x81, 0x82, 0x83, 0x84, 0x85, 0x86, 0x87, 0x88, 0x89, 0x8A, 0xA8, 0xA9, 0xAF] @
     [[0xE2, 0x81, 0x9F], [0xE3, 0x80, 0x80]])"

definition trim :: "string \<Rightarrow> string" where
  "trim s = strip_back whitespace (strip_front whitespace s)"

definition trim_start_matches :: "char \<Rightarrow> string \<Rightarrow> string" where
  "trim_start_matches c s = strip_front [[c]] s"

definition trim_end_matches :: "char \<Rightarrow> string \<Rightarrow> string" where
  "trim_end_matches c s = strip_back [[c]] s"

definition trim_matches :: "char list \<Rightarrow> string \<Rightarrow> string" where
  "trim_matches cs s = strip_back (map (\<lambda>c. [c]) cs) (strip_front (map (\<lambda>c. [c]) cs) s)"

lemma strip_front_id: "(\<And>w. w \<in> set pats \<Longrightarrow> w \<noteq> [] \<Longrightarrow> \<not> prefix w s) \<Longrightarrow> strip_front pats s = s"
proof -
  assume "\<And>w. w \<in> set pats \<Longrightarrow> w \<noteq> [] \<Longrightarrow> \<not> prefix w s"
  then have "find (\<lambda>w. w \<noteq> [] \<and> prefix w s) pats = None" by (auto simp: find_None_iff)
  then show ?thesis by (subst strip_front.simps) simp
qed

lemma strip_front_Nil [simp]: "strip_front pats [] = []"
  by (rule strip_front_id) simp

lemma strip_front_suffix: "suffix (strip_front pats s) s"
proof (induction pats s rule: strip_front.induct)
  case (1 pats s)
  show ?case
  proof (cases "find (\<lambda>w. w \<noteq> [] \<and> prefix w s) pats")
    case None
    then show ?thesis by (simp add: strip_front.simps[of pats s])
  next
    case (Some w)
    have "suffix (strip_front pats (drop (length w) s)) (drop (length w) s)" by (rule 1[OF Some])
    with Some show ?thesis
      by (simp add: strip_front.simps[of pats s]) (metis suffix_drop suffix_order.trans)
  qed
qed

text \<open>Nothing matches at the front of what is left.\<close>

lemma strip_front_done:
  "w \<in> set pats \<Longrightarrow> w \<noteq> [] \<Longrightarrow> \<not> prefix w (strip_front pats s)"
proof (induction pats s rule: strip_front.induct)
  case (1 pats s)
  show ?case
  proof (cases "find (\<lambda>w. w \<noteq> [] \<and> prefix w s) pats")
    case None
    then have "strip_front pats s = s" by (simp add: strip_front.simps[of pats s])
    with None show ?thesis using "1.prems" by (auto simp: find_None_iff)
  next
    case (Some v)
    with 1 show ?thesis by (simp add: strip_front.simps[of pats s])
  qed
qed

lemma strip_front_idem [simp]: "strip_front pats (strip_front pats s) = strip_front pats s"
  by (rule strip_front_id) (rule strip_front_done)

text \<open>Printable ASCII text has nothing to trim.\<close>

definition graphic :: "char \<Rightarrow> bool" where
  "graphic c \<longleftrightarrow> 32 < (of_char c :: nat) \<and> (of_char c :: nat) < 127"

lemma whitespace_hd: "w \<in> set whitespace \<Longrightarrow> w \<noteq> [] \<and> \<not> graphic (hd w) \<and> \<not> graphic (last w)"
proof -
  have "list_all (\<lambda>w. w \<noteq> [] \<and> \<not> graphic (hd w) \<and> \<not> graphic (last w)) whitespace"
    by (simp add: whitespace_def str_of_def graphic_def)
  then show "w \<in> set whitespace \<Longrightarrow> ?thesis" by (auto simp: list_all_iff)
qed

lemma trim_id:
  assumes "s = [] \<or> graphic (hd s) \<and> graphic (last s)"
  shows "trim s = s"
proof -
  have "\<not> prefix w s" if "w \<in> set whitespace" for w
    using whitespace_hd[OF that] assms by (cases w; cases s) auto
  then have "strip_front whitespace s = s" by (intro strip_front_id) auto
  moreover have "\<not> prefix (rev w) (rev s)" if "w \<in> set whitespace" for w
    using whitespace_hd[OF that] assms
    by (cases w rule: rev_cases; cases s rule: rev_cases) auto
  then have "strip_front (map rev whitespace) (rev s) = rev s" by (intro strip_front_id) auto
  ultimately show ?thesis by (simp add: trim_def strip_back_def)
qed

section \<open>Splitting and case\<close>

definition split_once :: "char \<Rightarrow> string \<Rightarrow> (string \<times> string) option" where
  "split_once c s =
     (if c \<in> set s then Some (takeWhile (\<lambda>x. x \<noteq> c) s, tl (dropWhile (\<lambda>x. x \<noteq> c) s)) else None)"

definition rsplit_once :: "char \<Rightarrow> string \<Rightarrow> (string \<times> string) option" where
  "rsplit_once c s = map_option (\<lambda>(a, b). (rev b, rev a)) (split_once c (rev s))"

definition strip_prefix :: "string \<Rightarrow> string \<Rightarrow> string option" where
  "strip_prefix p s = (if prefix p s then Some (drop (length p) s) else None)"

fun split_on :: "char \<Rightarrow> string \<Rightarrow> string list" where
  "split_on c [] = [[]]"
| "split_on c (x # xs) =
     (if x = c then [] # split_on c xs
      else case split_on c xs of [] \<Rightarrow> [[x]] | w # ws \<Rightarrow> (x # w) # ws)"

text \<open>\<open>split("\r\n")\<close>, and the position of the first occurrence of a pattern.\<close>

fun split_crlf :: "string \<Rightarrow> string list" where
  "split_crlf [] = [[]]"
| "split_crlf [x] = [[x]]"
| "split_crlf (x # y # xs) =
     (if x = CHR 13 \<and> y = CHR 10 then [] # split_crlf xs
      else case split_crlf (y # xs) of [] \<Rightarrow> [[x]] | w # ws \<Rightarrow> (x # w) # ws)"

definition ascii_lower :: "char \<Rightarrow> char" where
  "ascii_lower c = (let b = of_char c :: nat in if 65 \<le> b \<and> b \<le> 90 then char_of (b + 32) else c)"

definition to_ascii_lowercase :: "string \<Rightarrow> string" where
  "to_ascii_lowercase s = map ascii_lower s"

definition eq_ignore_ascii_case :: "string \<Rightarrow> string \<Rightarrow> bool" where
  "eq_ignore_ascii_case s t \<longleftrightarrow> to_ascii_lowercase s = to_ascii_lowercase t"

lemma split_once_append: "c \<notin> set a \<Longrightarrow> split_once c (a @ c # b) = Some (a, b)"
  by (simp add: split_once_def takeWhile_append dropWhile_append)

lemma split_once_Some:
  assumes "split_once c s = Some (a, b)"
  shows "s = a @ c # b" and "c \<notin> set a"
proof -
  have c: "c \<in> set s" "a = takeWhile (\<lambda>x. x \<noteq> c) s" "b = tl (dropWhile (\<lambda>x. x \<noteq> c) s)"
    using assms by (auto simp: split_once_def split: if_splits)
  then have "dropWhile (\<lambda>x. x \<noteq> c) s = c # b"
    using hd_dropWhile[of "\<lambda>x. x \<noteq> c" s] by (cases "dropWhile (\<lambda>x. x \<noteq> c) s") (auto simp: dropWhile_eq_Nil_conv)
  then show "s = a @ c # b" using takeWhile_dropWhile_id[of "\<lambda>x. x \<noteq> c" s] c(2) by simp
  show "c \<notin> set a" using c(2) set_takeWhileD by fastforce
qed

lemma rsplit_once_append: "c \<notin> set b \<Longrightarrow> rsplit_once c (a @ c # b) = Some (a, b)"
  by (simp add: rsplit_once_def split_once_append)

lemma rsplit_once_Some:
  assumes "rsplit_once c s = Some (a, b)"
  shows "s = a @ c # b" and "c \<notin> set b"
proof -
  have r: "split_once c (rev s) = Some (rev b, rev a)"
    using assms by (auto simp: rsplit_once_def)
  show "s = a @ c # b" using split_once_Some(1)[OF r] by (simp add: rev_swap)
  show "c \<notin> set b" using split_once_Some(2)[OF r] by simp
qed

lemma eq_ignore_ascii_case_refl [simp]: "eq_ignore_ascii_case s s"
  by (simp add: eq_ignore_ascii_case_def)

lemma split_on_not_Nil [simp]: "split_on c s \<noteq> []"
  by (induction s) (auto split: list.split)

lemma split_crlf_not_Nil [simp]: "split_crlf s \<noteq> []"
  by (induction s rule: split_crlf.induct) (auto split: list.split)

lemma split_on_no_sep: "c \<notin> set s \<Longrightarrow> split_on c s = [s]"
  by (induction s) auto

lemma split_on_append: "c \<notin> set a \<Longrightarrow> split_on c (a @ c # b) = a # split_on c b"
  by (induction a) auto

lemma split_crlf_append:
  "CHR 13 \<notin> set a \<Longrightarrow> split_crlf (a @ CHR 13 # CHR 10 # b) = a # split_crlf b"
proof (induction a)
  case (Cons x a)
  then show ?case by (cases a) auto
qed simp

lemma split_crlf_no_sep: "CHR 13 \<notin> set a \<Longrightarrow> split_crlf a = [a]"
  by (induction a rule: split_crlf.induct) auto

end
