(* ===== verification/Net_Addr.thy ===== *)
theory Net_Addr
  imports Rust_Text
begin

text \<open>
  Internet addresses of the Rust standard library: IPv4, IPv6 and socket addresses, how they
  are printed (with the compressed form of IPv6) and how \<open>str::parse\<close> reads them back. The
  lemmas show that parsing inverts printing, which the address codecs rely on.
\<close>

section \<open>Addresses and their printed form\<close>

datatype Ipv4Addr = Ipv4Addr u8 u8 u8 u8

datatype Ipv6Addr = Ipv6Addr u16 u16 u16 u16 u16 u16 u16 u16

text \<open>Socket addresses; the last two fields of the second form are the flow info and the scope id.\<close>

datatype SocketAddr = SocketV4 Ipv4Addr u16 | SocketV6 Ipv6Addr u16 u32 u32

datatype IpAddr = IpV4 Ipv4Addr | IpV6 Ipv6Addr

fun octets4 :: "Ipv4Addr \<Rightarrow> bytes" where
  "octets4 (Ipv4Addr a b c d) = [a, b, c, d]"

definition ipv4_from :: "bytes \<Rightarrow> Ipv4Addr" where
  "ipv4_from bs = Ipv4Addr (bs ! 0) (bs ! 1) (bs ! 2) (bs ! 3)"

fun segments :: "Ipv6Addr \<Rightarrow> u16 list" where
  "segments (Ipv6Addr a b c d e f g h) = [a, b, c, d, e, f, g, h]"

definition ipv6_of :: "u16 list \<Rightarrow> Ipv6Addr" where
  "ipv6_of gs = Ipv6Addr (gs ! 0) (gs ! 1) (gs ! 2) (gs ! 3) (gs ! 4) (gs ! 5) (gs ! 6) (gs ! 7)"

definition octets6 :: "Ipv6Addr \<Rightarrow> bytes" where
  "octets6 ip = concat (map (be_bytes 2) (segments ip))"

definition ipv6_from :: "bytes \<Rightarrow> Ipv6Addr" where
  "ipv6_from bs = ipv6_of (map (\<lambda>i. be_word (take 2 (drop (2 * i) bs))) [0..<8])"

definition u8_str :: "u8 \<Rightarrow> string" where
  "u8_str b = dec (unat b)"

definition show_ipv4 :: "Ipv4Addr \<Rightarrow> string" where
  "show_ipv4 ip = (case ip of Ipv4Addr a b c d \<Rightarrow>
     u8_str a @ ''.'' @ u8_str b @ ''.'' @ u8_str c @ ''.'' @ u8_str d)"

definition hex_group :: "u16 \<Rightarrow> string" where
  "hex_group g = print_radix 16 (unat g)"

definition colon_groups :: "u16 list \<Rightarrow> string" where
  "colon_groups gs = concat (map (\<lambda>g. '':'' @ hex_group g) gs)"

fun show_groups :: "u16 list \<Rightarrow> string" where
  "show_groups [] = []"
| "show_groups (g # gs) = hex_group g @ colon_groups gs"

text \<open>The first longest run of zero groups: \<open>current\<close> and \<open>longest\<close> are a start and a length.\<close>

fun zero_span :: "nat \<Rightarrow> nat \<times> nat \<Rightarrow> nat \<times> nat \<Rightarrow> u16 list \<Rightarrow> nat \<times> nat" where
  "zero_span i current longest [] = longest"
| "zero_span i current longest (g # gs) =
     (if g = 0
      then let current = (if snd current = 0 then (i, 1) else (fst current, Suc (snd current)))
        in zero_span (Suc i) current (if snd longest < snd current then current else longest) gs
      else zero_span (Suc i) (0, 0) longest gs)"

definition to_ipv4_mapped :: "Ipv6Addr \<Rightarrow> Ipv4Addr option" where
  "to_ipv4_mapped ip =
     (if take 6 (segments ip) = [0, 0, 0, 0, 0, 0xffff] then Some (ipv4_from (drop 12 (octets6 ip))) else None)"

definition show_ipv6 :: "Ipv6Addr \<Rightarrow> string" where
  "show_ipv6 ip =
     (case to_ipv4_mapped ip of
        Some v4 \<Rightarrow> ''::ffff:'' @ show_ipv4 v4
      | None \<Rightarrow>
          (let (start, len) = zero_span 0 (0, 0) (0, 0) (segments ip) in
           if 1 < len
           then show_groups (take start (segments ip)) @ ''::'' @ show_groups (drop (start + len) (segments ip))
           else show_groups (segments ip)))"

definition show_ip :: "IpAddr \<Rightarrow> string" where
  "show_ip ip = (case ip of IpV4 a \<Rightarrow> show_ipv4 a | IpV6 a \<Rightarrow> show_ipv6 a)"

definition show_socket_addr :: "SocketAddr \<Rightarrow> string" where
  "show_socket_addr a =
     (case a of
        SocketV4 ip port \<Rightarrow> show_ipv4 ip @ '':'' @ dec (unat port)
      | SocketV6 ip port flowinfo scope \<Rightarrow>
          ''['' @ show_ipv6 ip @ (if scope = 0 then [] else ''%'' @ dec (unat scope)) @ '']:'' @ dec (unat port))"

fun sock_ip :: "SocketAddr \<Rightarrow> IpAddr" where
  "sock_ip (SocketV4 ip port) = IpV4 ip"
| "sock_ip (SocketV6 ip port flowinfo scope) = IpV6 ip"

fun sock_port :: "SocketAddr \<Rightarrow> u16" where
  "sock_port (SocketV4 ip port) = port"
| "sock_port (SocketV6 ip port flowinfo scope) = port"

definition socket_addr_new :: "IpAddr \<Rightarrow> u16 \<Rightarrow> SocketAddr" where
  "socket_addr_new ip port = (case ip of IpV4 a \<Rightarrow> SocketV4 a port | IpV6 a \<Rightarrow> SocketV6 a port 0 0)"

section \<open>Parsing\<close>

text \<open>
  Each reader returns the value and the rest of the input. \<open>read_number\<close> consumes the longest
  digit prefix; it fails without digits, with too many digits, on a leading zero where none
  is allowed, and when the value does not fit.
\<close>

definition is_digit :: "nat \<Rightarrow> char \<Rightarrow> bool" where
  "is_digit r c \<longleftrightarrow> to_digit r c \<noteq> None"

definition read_number :: "nat \<Rightarrow> nat option \<Rightarrow> bool \<Rightarrow> nat \<Rightarrow> string \<Rightarrow> (nat \<times> string) option" where
  "read_number r max_digits allow_zero_prefix bound s =
     (let ds = takeWhile (is_digit r) s in
      if (case max_digits of Some m \<Rightarrow> m < length ds | None \<Rightarrow> False) then None
      else if ds = [] \<or> \<not> allow_zero_prefix \<and> hd ds = CHR ''0'' \<and> 1 < length ds then None
      else case parse_digits r 0 ds of
          None \<Rightarrow> None
        | Some n \<Rightarrow> if n < bound then Some (n, dropWhile (is_digit r) s) else None)"

fun read_char :: "char \<Rightarrow> string \<Rightarrow> string option" where
  "read_char c [] = None"
| "read_char c (x # s) = (if x = c then Some s else None)"

definition read_separator :: "char \<Rightarrow> nat \<Rightarrow> (string \<Rightarrow> 'a option) \<Rightarrow> string \<Rightarrow> 'a option" where
  "read_separator c i inner s = (if 0 < i then Option.bind (read_char c s) inner else inner s)"

definition read_octet :: "nat \<Rightarrow> string \<Rightarrow> (nat \<times> string) option" where
  "read_octet i s = read_separator (CHR ''.'') i (read_number 10 (Some 3) False 256) s"

definition read_ipv4 :: "string \<Rightarrow> (Ipv4Addr \<times> string) option" where
  "read_ipv4 s = do {
     (a, s) \<leftarrow> read_octet 0 s;
     (b, s) \<leftarrow> read_octet 1 s;
     (c, s) \<leftarrow> read_octet 2 s;
     (d, s) \<leftarrow> read_octet 3 s;
     Some (Ipv4Addr (of_nat a) (of_nat b) (of_nat c) (of_nat d), s)
   }"

text \<open>
  Up to \<open>k\<close> groups, the first with index \<open>i\<close>; the flag tells that the last two came from an
  embedded IPv4 address.
\<close>

fun read_groups :: "nat \<Rightarrow> nat \<Rightarrow> string \<Rightarrow> u16 list \<times> bool \<times> string" where
  "read_groups 0 i s = ([], False, s)"
| "read_groups (Suc k) i s =
     (case (if 0 < k then read_separator (CHR '':'') i read_ipv4 s else None) of
        Some (Ipv4Addr a b c d, s') \<Rightarrow> ([be_word [a, b], be_word [c, d]], True, s')
      | None \<Rightarrow>
          (case read_separator (CHR '':'') i (read_number 16 (Some 4) True 65536) s of
             Some (g, s') \<Rightarrow> (case read_groups k (Suc i) s' of (gs, v4, s'') \<Rightarrow> (of_nat g # gs, v4, s''))
           | None \<Rightarrow> ([], False, s)))"

definition read_ipv6 :: "string \<Rightarrow> (Ipv6Addr \<times> string) option" where
  "read_ipv6 s =
     (case read_groups 8 0 s of (head, v4, s) \<Rightarrow>
        if length head = 8 then Some (ipv6_of head, s)
        else if v4 then None
        else do {
          s \<leftarrow> read_char (CHR '':'') s;
          s \<leftarrow> read_char (CHR '':'') s;
          case read_groups (8 - (length head + 1)) 0 s of (tail, _, s) \<Rightarrow>
            Some (ipv6_of (head @ replicate (8 - length head - length tail) 0 @ tail), s)
        })"

definition read_port :: "string \<Rightarrow> (nat \<times> string) option" where
  "read_port s = Option.bind (read_char (CHR '':'') s) (read_number 10 None True 65536)"

definition read_scope :: "string \<Rightarrow> nat \<times> string" where
  "read_scope s =
     (case Option.bind (read_char (CHR ''%'') s) (read_number 10 None True 4294967296) of
        None \<Rightarrow> (0, s) | Some r \<Rightarrow> r)"

definition read_socket_v4 :: "string \<Rightarrow> (SocketAddr \<times> string) option" where
  "read_socket_v4 s = do {
     (ip, s) \<leftarrow> read_ipv4 s;
     (port, s) \<leftarrow> read_port s;
     Some (SocketV4 ip (of_nat port), s)
   }"

definition read_socket_v6 :: "string \<Rightarrow> (SocketAddr \<times> string) option" where
  "read_socket_v6 s = do {
     s \<leftarrow> read_char (CHR ''['') s;
     (ip, s) \<leftarrow> read_ipv6 s;
     let (scope, s) = read_scope s;
     s \<leftarrow> read_char (CHR '']'') s;
     (port, s) \<leftarrow> read_port s;
     Some (SocketV6 ip (of_nat port) 0 (of_nat scope), s)
   }"

definition complete :: "('a \<times> string) option \<Rightarrow> 'a option" where
  "complete r = (case r of Some (x, []) \<Rightarrow> Some x | _ \<Rightarrow> None)"

definition parse_ipv4 :: "string \<Rightarrow> Ipv4Addr option" where
  "parse_ipv4 s = (if 15 < length s then None else complete (read_ipv4 s))"

definition parse_ipv6 :: "string \<Rightarrow> Ipv6Addr option" where
  "parse_ipv6 s = complete (read_ipv6 s)"

definition parse_socket_addr :: "string \<Rightarrow> SocketAddr option" where
  "parse_socket_addr s =
     complete (case read_socket_v4 s of Some r \<Rightarrow> Some r | None \<Rightarrow> read_socket_v6 s)"

section \<open>Numbers and IPv4 addresses read back\<close>

definition ends_digits :: "nat \<Rightarrow> string \<Rightarrow> bool" where
  "ends_digits r s \<longleftrightarrow> s = [] \<or> \<not> is_digit r (hd s)"

lemma span_digits:
  assumes "\<forall>c \<in> set ds. is_digit r c" and "ends_digits r rest"
  shows "takeWhile (is_digit r) (ds @ rest) = ds" and "dropWhile (is_digit r) (ds @ rest) = rest"
  using assms by (cases rest; simp add: ends_digits_def)+

lemma read_number_eq:
  "read_number r max_digits z bound s =
     (let ds = takeWhile (is_digit r) s in
      if (\<exists>m. max_digits = Some m \<and> m < length ds) then None
      else if ds = [] \<or> \<not> z \<and> hd ds = CHR ''0'' \<and> 1 < length ds then None
      else case parse_digits r 0 ds of
          None \<Rightarrow> None
        | Some n \<Rightarrow> if n < bound then Some (n, dropWhile (is_digit r) s) else None)"
  by (cases max_digits) (simp_all add: read_number_def Let_def)

lemma read_number_print:
  assumes "2 \<le> r" and "r \<le> 16" and "n < bound" and "ends_digits r rest"
    and "\<And>m. max_digits = Some m \<Longrightarrow> length (print_radix r n) \<le> m"
  shows "read_number r max_digits z bound (print_radix r n @ rest) = Some (n, rest)"
proof -
  have ds: "\<forall>c \<in> set (print_radix r n). is_digit r c"
    using print_radix_chars(2)[OF assms(1,2)] by (auto simp: is_digit_def)
  have "length (print_radix r n) = 1" if "hd (print_radix r n) = CHR ''0''"
    using print_radix_leading[OF assms(1,2) that] assms(1) by (simp add: print_radix.simps[of r 0])
  then show ?thesis
    using assms(3,5) parse_print_radix[OF assms(1,2), of n]
    by (fastforce simp: read_number_eq Let_def span_digits[OF ds assms(4)])
qed

lemma ends_digits_char [simp]:
  "ends_digits r []" "ends_digits r (c # s) \<longleftrightarrow> \<not> is_digit r c"
  by (simp_all add: ends_digits_def)

lemma separators [simp]:
  "\<not> is_digit 10 (CHR ''.'')" "\<not> is_digit 10 (CHR '':'')" "\<not> is_digit 16 (CHR '':'')"
  "\<not> is_digit 10 (CHR '']'')" "\<not> is_digit 16 (CHR '']'')" "\<not> is_digit 10 (CHR ''%'')"
  "\<not> is_digit 16 (CHR ''%'')" "\<not> is_digit 16 (CHR ''.'')" "\<not> is_digit 16 (CHR ''['')"
  "\<not> is_digit 10 (CHR ''['')"
  by code_simp+

lemma unat_bounds: "unat (b :: u8) < 256" "unat (p :: u16) < 65536" "unat (x :: u32) < 4294967296"
  by (rule order_less_le_trans[OF unsigned_less]; simp)+

lemma length_u8_str: "length (u8_str b) \<le> 3"
  unfolding u8_str_def by (rule length_print_radix) (use unat_bounds(1)[of b] in simp_all)

lemma read_u8_str:
  assumes "ends_digits 10 rest"
  shows "read_number 10 (Some 3) False 256 (u8_str b @ rest) = Some (unat b, rest)"
  unfolding u8_str_def
  by (rule read_number_print) (use assms unat_bounds(1)[of b] length_u8_str[of b] in \<open>simp_all add: u8_str_def\<close>)

lemma read_ipv4_show:
  assumes "ends_digits 10 rest"
  shows "read_ipv4 (show_ipv4 ip @ rest) = Some (ip, rest)"
  using assms
  by (cases ip) (simp add: read_ipv4_def show_ipv4_def read_octet_def read_separator_def read_u8_str)

lemma length_show_ipv4: "length (show_ipv4 ip) \<le> 15"
proof (cases ip)
  case (Ipv4Addr a b c d)
  then show ?thesis
    using length_u8_str[of a] length_u8_str[of b] length_u8_str[of c] length_u8_str[of d]
    by (simp add: show_ipv4_def)
qed

lemma parse_show_ipv4: "parse_ipv4 (show_ipv4 ip) = Some ip"
  using read_ipv4_show[of "[]" ip] length_show_ipv4[of ip] by (simp add: parse_ipv4_def complete_def)

section \<open>IPv6 addresses read back\<close>

text \<open>Text that no further group can start with.\<close>

definition ends_groups :: "string \<Rightarrow> bool" where
  "ends_groups s \<longleftrightarrow> ends_digits 16 s \<and> (s \<noteq> [] \<longrightarrow> hd s \<noteq> CHR ''.'') \<and>
     (s \<noteq> [] \<and> hd s = CHR '':'' \<longrightarrow> ends_digits 16 (tl s))"

lemma is_digit_10_16: "is_digit 10 c \<Longrightarrow> is_digit 16 c"
  by (auto simp: is_digit_def to_digit_def Let_def split: if_splits)

lemma ends_digits_16_10: "ends_digits 16 s \<Longrightarrow> ends_digits 10 s"
  by (auto simp: ends_digits_def dest: is_digit_10_16)

lemma read_number_none: "ends_digits r s \<Longrightarrow> read_number r m z bound s = None"
  by (cases s) (simp_all add: read_number_eq Let_def)

lemma read_ipv4_none:
  assumes "dropWhile (is_digit 10) s = [] \<or> hd (dropWhile (is_digit 10) s) \<noteq> CHR ''.''"
  shows "read_ipv4 s = None"
proof (cases "read_number 10 (Some 3) False 256 s")
  case (Some r)
  then obtain n where "r = (n, dropWhile (is_digit 10) s)"
    by (auto simp: read_number_eq Let_def split: if_splits option.splits)
  with Some assms show ?thesis
    by (cases "dropWhile (is_digit 10) s") (auto simp: read_ipv4_def read_octet_def read_separator_def)
qed (simp add: read_ipv4_def read_octet_def read_separator_def)

lemma hex_group_digits: "\<forall>c \<in> set (hex_group g). is_digit 16 c"
  using print_radix_chars(2)[of 16 _ "unat g"] by (auto simp: hex_group_def is_digit_def)

text \<open>The decimal reader stops inside a hexadecimal group or right behind it, never at a dot.\<close>

lemma read_ipv4_group:
  assumes "rest = [] \<or> hd rest \<noteq> CHR ''.'' \<and> \<not> is_digit 10 (hd rest)"
  shows "read_ipv4 (hex_group g @ rest) = None"
proof (rule read_ipv4_none)
  have "xs = [] \<or> hd xs \<noteq> CHR ''.''" if xs: "xs = dropWhile (is_digit 10) (ds @ rest)"
    and ds: "\<forall>c \<in> set ds. is_digit 16 c" for ds xs
    using ds unfolding xs
  proof (induction ds)
    case Nil
    with assms show ?case by (cases rest) auto
  next
    case (Cons c ds)
    then have "c \<noteq> CHR ''.''" using separators(8) by auto
    with Cons show ?case by auto
  qed
  from this[OF refl hex_group_digits]
  show "dropWhile (is_digit 10) (hex_group g @ rest) = [] \<or>
      hd (dropWhile (is_digit 10) (hex_group g @ rest)) \<noteq> CHR ''.''" .
qed

lemma read_hex_group:
  assumes "ends_digits 16 rest"
  shows "read_number 16 (Some 4) True 65536 (hex_group g @ rest) = Some (unat g, rest)"
proof -
  have "unat g < 65536" by (rule unat_bounds)
  then show ?thesis
    unfolding hex_group_def
    by (intro read_number_print) (use assms length_print_radix[of 16 4 "unat g"] in auto)
qed

lemma colon_groups_simps [simp]:
  "colon_groups [] = []" "colon_groups (g # gs) = CHR '':'' # hex_group g @ colon_groups gs"
  by (simp_all add: colon_groups_def)

lemma ends_groups_D:
  assumes "ends_groups s"
  shows "ends_digits 16 s" and "s = [] \<or> hd s \<noteq> CHR ''.'' \<and> \<not> is_digit 10 (hd s)"
  using assms ends_digits_16_10[of s] by (auto simp: ends_groups_def ends_digits_def)

lemma colon_groups_ends:
  assumes "ends_groups rest"
  shows "ends_digits 16 (colon_groups gs @ rest)"
    and "colon_groups gs @ rest = [] \<or> hd (colon_groups gs @ rest) \<noteq> CHR ''.'' \<and> \<not> is_digit 10 (hd (colon_groups gs @ rest))"
  using ends_groups_D[OF assms] by (cases gs; auto)+

lemma read_groups_stop:
  assumes "ends_groups rest"
  shows "read_groups k i rest = ([], False, rest)"
proof (cases k)
  case (Suc n)
  have "read_number 16 (Some 4) True 65536 rest = None" "read_ipv4 rest = None"
    using ends_groups_D[OF assms] read_ipv4_none[of rest]
    by (auto simp: read_number_none) (cases rest; auto)
  moreover have "ends_digits 16 s \<Longrightarrow> read_ipv4 s = None" for s
    using ends_digits_16_10[of s] by (simp add: read_ipv4_def read_octet_def read_separator_def read_number_none)
  then have "Option.bind (read_char (CHR '':'') rest) read_ipv4 = None"
    "Option.bind (read_char (CHR '':'') rest) (read_number 16 (Some 4) True 65536) = None"
    using assms by (cases rest; auto simp: ends_groups_def read_number_none)+
  ultimately show ?thesis
    using Suc by (simp add: read_separator_def read_number_none)
qed simp

lemma read_colon_groups:
  assumes "length gs \<le> k" and "length gs = k \<or> ends_groups rest" and "ends_groups rest"
  shows "read_groups k (Suc i) (colon_groups gs @ rest) = (gs, False, rest)"
  using assms
proof (induction gs arbitrary: k i)
  case Nil
  then show ?case by (simp add: read_groups_stop)
next
  case (Cons g gs)
  then obtain n where k: "k = Suc n" by (cases k) auto
  note e = colon_groups_ends[OF Cons.prems(3), of gs]
  have "read_groups n (Suc (Suc i)) (colon_groups gs @ rest) = (gs, False, rest)" "n = 0 \<Longrightarrow> gs = []"
    using Cons k by auto
  then show ?case
    by (auto simp: k read_separator_def read_ipv4_group[OF e(2)] read_hex_group[OF e(1)]
        read_hex_group[OF ends_groups_D(1)[OF Cons.prems(3)]])
qed

lemma read_show_groups:
  assumes "length gs \<le> k" and "ends_groups rest"
  shows "read_groups k 0 (show_groups gs @ rest) = (gs, False, rest)"
proof (cases gs)
  case Nil
  then show ?thesis using assms by (simp add: read_groups_stop)
next
  case (Cons g gs')
  then obtain n where k: "k = Suc n" using assms(1) by (cases k) auto
  note e = colon_groups_ends[OF assms(2), of gs']
  have "read_groups n (Suc 0) (colon_groups gs' @ rest) = (gs', False, rest)" "n = 0 \<Longrightarrow> gs' = []"
    using assms Cons k by (auto intro: read_colon_groups)
  then show ?thesis
    by (auto simp: k Cons read_separator_def read_ipv4_group[OF e(2)] read_hex_group[OF e(1)]
        read_hex_group[OF ends_groups_D(1)[OF assms(2)]])
qed

lemma zero_span_ok:
  assumes "length done = i" and "snd longest \<le> i" and "fst longest + snd longest \<le> i"
    and "\<forall>j < snd longest. done ! (fst longest + j) = 0"
    and "snd current = 0 \<or> fst current + snd current = i \<and> (\<forall>j < snd current. done ! (fst current + j) = 0)"
    and "zero_span i current longest gs = (start, len)"
  shows "start + len \<le> i + length gs \<and> (\<forall>j < len. (done @ gs) ! (start + j) = 0)"
  using assms
proof (induction i current longest gs arbitrary: "done" rule: zero_span.induct)
  case (1 i current longest)
  then show ?case by auto
next
  case (2 i current longest g gs)
  show ?case
  proof (cases "g = 0")
    case False
    have "start + len \<le> Suc i + length gs \<and> (\<forall>j < len. ((done @ [g]) @ gs) ! (start + j) = 0)"
      by (rule "2.IH"(2)) (use "2.prems" False in \<open>auto simp: nth_append\<close>)
    then show ?thesis by simp
  next
    case True
    define cur where "cur = (if snd current = 0 then (i, 1) else (fst current, Suc (snd current)))"
    define lon where "lon = (if snd longest < snd cur then cur else longest)"
    have cur: "fst cur + snd cur = Suc i" "\<forall>j < snd cur. (done @ [g]) ! (fst cur + j) = 0"
      using "2.prems" True by (auto simp: cur_def nth_append less_Suc_eq split: if_splits)
    have "start + len \<le> Suc i + length gs \<and> (\<forall>j < len. ((done @ [g]) @ gs) ! (start + j) = 0)"
    proof (rule "2.IH"(1)[OF True cur_def])
      show "zero_span (Suc i) cur (if snd longest < snd cur then cur else longest) gs = (start, len)"
        using "2.prems"(6) by (simp only: zero_span.simps True if_True refl Let_def cur_def)
    qed (use "2.prems" cur in \<open>auto simp: nth_append\<close>)
    then show ?thesis by simp
  qed
qed

lemma segments_ipv6_of: "length gs = 8 \<Longrightarrow> segments (ipv6_of gs) = gs"
  by (auto simp: numeral_eq_Suc length_Suc_conv ipv6_of_def)

lemma ipv6_of_segments [simp]: "ipv6_of (segments ip) = ip"
  by (cases ip) (simp add: ipv6_of_def)

lemma length_segments [simp]: "length (segments ip) = 8"
  by (cases ip) simp

lemma ends_groups_rest [simp]:
  "ends_groups []" "ends_groups (CHR '']'' # s)" "ends_groups (CHR ''%'' # s)" "ends_groups (CHR '':'' # CHR '':'' # s)"
  by (simp_all add: ends_groups_def)

lemma read_ipv6_plain:
  assumes "ends_groups rest"
  shows "read_ipv6 (show_groups (segments ip) @ rest) = Some (ip, rest)"
  using read_show_groups[of "segments ip" 8 rest] assms by (simp add: read_ipv6_def)

lemma read_ipv6_compressed:
  assumes "ends_groups rest" and "length hs + length ts + n = 8" and "0 < n"
  shows "read_ipv6 (show_groups hs @ ''::'' @ show_groups ts @ rest) = Some (ipv6_of (hs @ replicate n 0 @ ts), rest)"
proof -
  have "read_groups 8 0 (show_groups hs @ (''::'' @ show_groups ts @ rest)) = (hs, False, ''::'' @ show_groups ts @ rest)"
    using assms by (intro read_show_groups) auto
  moreover have "read_groups (8 - (length hs + 1)) 0 (show_groups ts @ rest) = (ts, False, rest)"
    using assms by (intro read_show_groups) auto
  moreover have "8 - length hs - length ts = n" "length hs \<noteq> 8" using assms by auto
  ultimately show ?thesis by (simp add: read_ipv6_def)
qed

lemma read_groups_mapped:
  assumes "ends_digits 10 rest" and "0 < k"
  shows "read_groups (Suc (Suc k)) 0 (hex_group g @ CHR '':'' # show_ipv4 (Ipv4Addr a b c d) @ rest) =
    ([g, be_word [a, b], be_word [c, d]], True, rest)"
  using assms(2) read_ipv4_group[of "CHR '':'' # show_ipv4 (Ipv4Addr a b c d) @ rest" g]
    read_hex_group[of "CHR '':'' # show_ipv4 (Ipv4Addr a b c d) @ rest" g]
    read_ipv4_show[OF assms(1), of "Ipv4Addr a b c d"]
  by (simp add: read_separator_def)

lemma read_ipv6_mapped:
  assumes "ends_digits 10 rest"
  shows "read_ipv6 (''::ffff:'' @ show_ipv4 (Ipv4Addr a b c d) @ rest) =
    Some (Ipv6Addr 0 0 0 0 0 0xffff (be_word [a, b]) (be_word [c, d]), rest)"
proof -
  let ?v4 = "show_ipv4 (Ipv4Addr a b c d)"
  have "digit_char 15 = CHR ''f''" by code_simp
  then have ffff: "hex_group 0xffff = ''ffff''" by (simp add: hex_group_def print_radix.simps)
  have "read_groups 8 0 (''::ffff:'' @ ?v4 @ rest) = ([], False, ''::ffff:'' @ ?v4 @ rest)"
    by (rule read_groups_stop) simp
  moreover have "read_groups 7 0 (hex_group 0xffff @ '':'' @ ?v4 @ rest) =
      ([0xffff, be_word [a, b], be_word [c, d]], True, rest)"
    using read_groups_mapped[OF assms, of 5 "0xffff"] by (simp del: read_groups.simps)
  moreover have "ipv6_of (replicate 5 0 @ [0xffff, x, y]) = Ipv6Addr 0 0 0 0 0 0xffff x y" for x y
    by (simp add: ipv6_of_def nth_append)
  ultimately show ?thesis
    by (simp add: read_ipv6_def ffff)
qed

lemma be_bytes_pair: "\<exists>a b. be_bytes 2 g = [a, b]"
  using length_be_bytes[of 2 g] by (simp only: numeral_2_eq_2 length_Suc_conv length_0_conv) blast

lemma be_word_pair: "be_bytes 2 g = [a, b] \<Longrightarrow> be_word [a, b] = (g :: u16)"
  using be_word_be_bytes[of 2 g] by simp

lemma read_ipv6_show:
  assumes "ends_groups rest"
  shows "read_ipv6 (show_ipv6 ip @ rest) = Some (ip, rest)"
proof (cases "to_ipv4_mapped ip")
  case (Some v4)
  obtain g h where ip: "ip = Ipv6Addr 0 0 0 0 0 0xffff g h"
    and v4: "v4 = ipv4_from (be_bytes 2 g @ be_bytes 2 h)"
    using Some by (cases ip) (auto simp: to_ipv4_mapped_def octets6_def split: if_splits)
  obtain a b c d where gh: "be_bytes 2 g = [a, b]" "be_bytes 2 h = [c, d]"
    using be_bytes_pair[of g] be_bytes_pair[of h] by blast
  then have "v4 = Ipv4Addr a b c d" by (simp add: v4 ipv4_from_def)
  then show ?thesis
    using Some read_ipv6_mapped[of rest a b c d] ends_digits_16_10 ends_groups_D(1)[OF assms] be_word_pair[OF gh(1)]
      be_word_pair[OF gh(2)] by (simp add: show_ipv6_def ip)
next
  case None
  obtain start len where span: "zero_span 0 (0, 0) (0, 0) (segments ip) = (start, len)" by fastforce
  have z: "start + len \<le> 8" "\<forall>j < len. segments ip ! (start + j) = 0"
    using zero_span_ok[of "[]" 0 "(0, 0)" "(0, 0)" "segments ip" start len] span by auto
  have "take start (segments ip) @ replicate len 0 @ drop (start + len) (segments ip) = segments ip" (is "?gs = _")
  proof (rule nth_equalityI)
    fix i assume "i < length ?gs"
    with z show "?gs ! i = segments ip ! i" using z(2)[rule_format, of "i - start"] by (auto simp: nth_append min_def)
  qed (use z in simp)
  then have "ipv6_of ?gs = ip" by simp
  then show ?thesis
    using None span read_ipv6_plain[OF assms, of ip] z
      read_ipv6_compressed[OF assms, of "take start (segments ip)" "drop (start + len) (segments ip)" len]
    by (simp add: show_ipv6_def min_def)
qed

lemma parse_show_ipv6: "parse_ipv6 (show_ipv6 ip) = Some ip"
  using read_ipv6_show[of "[]" ip] by (simp add: parse_ipv6_def complete_def)

section \<open>Socket addresses read back\<close>

lemma read_port_show: "read_port (CHR '':'' # dec (unat port)) = Some (unat port, [])" for port :: u16
  using read_number_print[of 10 "unat port" 65536 "[]" None True] unat_bounds(2)[of port]
  by (simp add: read_port_def)

lemma read_scope_show:
  "read_scope ((if scope = 0 then [] else ''%'' @ dec (unat scope)) @ CHR '']'' # s) = (unat scope, CHR '']'' # s)"
  for scope :: u32
  using read_number_print[of 10 "unat scope" 4294967296 "CHR '']'' # s" None True] unat_bounds(3)[of scope]
  by (simp add: read_scope_def)

text \<open>The flow info is not part of the printed form.\<close>

lemma parse_show_socket_addr:
  "parse_socket_addr (show_socket_addr (SocketV4 ip port)) = Some (SocketV4 ip port)"
  "parse_socket_addr (show_socket_addr (SocketV6 ip6 port flowinfo scope)) = Some (SocketV6 ip6 port 0 scope)"
proof -
  show "parse_socket_addr (show_socket_addr (SocketV4 ip port)) = Some (SocketV4 ip port)"
    using read_ipv4_show[of "CHR '':'' # dec (unat port)" ip] read_port_show[of port]
    by (simp add: parse_socket_addr_def show_socket_addr_def read_socket_v4_def complete_def)
  let ?sc = "if scope = 0 then [] else ''%'' @ dec (unat scope)"
  let ?s = "?sc @ CHR '']'' # CHR '':'' # dec (unat port)"
  have "read_ipv4 (CHR ''['' # show_ipv6 ip6 @ ?s) = None" by (rule read_ipv4_none) simp
  moreover have "read_ipv6 (show_ipv6 ip6 @ ?s) = Some (ip6, ?s)" by (rule read_ipv6_show) simp
  ultimately show "parse_socket_addr (show_socket_addr (SocketV6 ip6 port flowinfo scope)) = Some (SocketV6 ip6 port 0 scope)"
    using read_scope_show[of scope "CHR '':'' # dec (unat port)"] read_port_show[of port]
    by (simp add: parse_socket_addr_def show_socket_addr_def read_socket_v4_def read_socket_v6_def complete_def Let_def
        del: append_assoc)
qed

section \<open>The printed form is short ASCII text\<close>

lemma length_hex_group: "length (hex_group g) \<le> 4"
  unfolding hex_group_def by (rule length_print_radix) (use unat_bounds(2)[of g] in simp_all)

lemma length_colon_groups: "length (colon_groups gs) \<le> 5 * length gs"
proof (induction gs)
  case (Cons g gs)
  then show ?case using length_hex_group[of g] by simp
qed simp

lemma length_show_groups: "length (show_groups gs) \<le> 5 * length gs"
proof (cases gs)
  case (Cons g gs')
  then show ?thesis using length_hex_group[of g] length_colon_groups[of gs'] by simp
qed simp

lemma length_show_ipv6: "length (show_ipv6 ip) \<le> 42"
proof (cases "to_ipv4_mapped ip")
  case None
  obtain a n where z: "zero_span 0 (0, 0) (0, 0) (segments ip) = (a, n)" by fastforce
  have "length (show_groups (take a (segments ip))) \<le> 5 * min 8 a"
    "length (show_groups (drop (a + n) (segments ip))) \<le> 5 * (8 - (a + n))"
    "length (show_groups (segments ip)) \<le> 40"
    using length_show_groups[of "take a (segments ip)"] length_show_groups[of "drop (a + n) (segments ip)"]
      length_show_groups[of "segments ip"] by simp_all
  moreover have "5 * min 8 a + 5 * (8 - (a + n)) \<le> 40" by linarith
  ultimately show ?thesis using None z by (auto simp: show_ipv6_def)
next
  case (Some v4)
  then show ?thesis using length_show_ipv4[of v4] by (simp add: show_ipv6_def)
qed

lemma length_show_socket_addr: "length (show_socket_addr a) \<le> 61"
proof -
  have port: "length (dec (unat p)) \<le> 5" for p :: u16
    by (rule length_print_radix) (use unat_bounds(2)[of p] in simp_all)
  have scope: "length (dec (unat x)) \<le> 10" for x :: u32
    by (rule length_print_radix) (use unat_bounds(3)[of x] in simp_all)
  show ?thesis
  proof (cases a)
    case (SocketV4 ip p)
    then show ?thesis using length_show_ipv4[of ip] port[of p] by (simp add: show_socket_addr_def)
  next
    case (SocketV6 ip p f x)
    then show ?thesis using length_show_ipv6[of ip] port[of p] scope[of x] by (simp add: show_socket_addr_def)
  qed
qed

definition addr_char :: "char \<Rightarrow> bool" where
  "addr_char c \<longleftrightarrow> is_digit_char c \<or> c \<in> set ''.:[]%''"

lemma addr_char_ascii: "addr_char c \<Longrightarrow> (of_char c :: nat) < 128"
  by (auto simp: addr_char_def is_digit_char_def)

lemma dec_addr_chars: "c \<in> set (dec n) \<Longrightarrow> addr_char c"
  using print_radix_chars(1)[of 10 c n] by (simp add: addr_char_def)

lemma show_ipv4_chars: "c \<in> set (show_ipv4 ip) \<Longrightarrow> addr_char c"
  by (cases ip) (auto simp: show_ipv4_def u8_str_def dec_addr_chars addr_char_def[of "CHR ''.''"])

lemma show_groups_chars: "c \<in> set (show_groups gs) \<Longrightarrow> addr_char c"
  using print_radix_chars(1)[of 16 c]
  by (cases gs) (auto simp: colon_groups_def hex_group_def addr_char_def split: if_splits)

lemma show_ipv6_chars: "c \<in> set (show_ipv6 ip) \<Longrightarrow> addr_char c"
proof -
  have "addr_char (CHR '':'')" "addr_char (CHR ''f'')" by code_simp+
  then show "c \<in> set (show_ipv6 ip) \<Longrightarrow> addr_char c"
    by (auto simp: show_ipv6_def show_ipv4_chars split: option.splits prod.splits if_splits dest: show_groups_chars)
qed

lemma show_socket_addr_chars: "c \<in> set (show_socket_addr a) \<Longrightarrow> addr_char c"
  by (cases a) (auto simp: show_socket_addr_def show_ipv4_chars show_ipv6_chars dec_addr_chars
      addr_char_def[of "CHR '':''"] addr_char_def[of "CHR ''[''"] addr_char_def[of "CHR '']''"]
      addr_char_def[of "CHR ''%''"] split: if_splits)

lemma str_ok_show_socket_addr: "str_ok (show_socket_addr a)"
  by (rule str_ok_ascii) (rule addr_char_ascii, rule show_socket_addr_chars)

lemma show_socket_addr_not_Nil: "show_socket_addr a \<noteq> []"
  by (cases a) (simp_all add: show_socket_addr_def)

section \<open>The two kinds of address do not overlap; octets\<close>

lemma read_number_split:
  assumes "read_number r m z bound s = Some (n, s')"
  shows "s = takeWhile (is_digit r) s @ s'"
  using assms by (auto simp: read_number_eq Let_def split: if_splits option.splits)

lemma read_octet_split:
  assumes "read_octet i s = Some (n, s')"
  shows "\<exists>p. s = p @ s' \<and> CHR '':'' \<notin> set p"
proof -
  have d: "CHR '':'' \<notin> set (takeWhile (is_digit 10) x)" for x
    by (auto dest!: set_takeWhileD simp: is_digit_def to_digit_def)
  show ?thesis
  proof (cases "0 < i")
    case True
    then obtain x where x: "s = CHR ''.'' # x" "read_number 10 (Some 3) False 256 x = Some (n, s')"
      using assms by (cases s) (auto simp: read_octet_def read_separator_def split: if_splits)
    then show ?thesis using read_number_split[OF x(2)] d[of x] by (intro exI[of _ "CHR ''.'' # takeWhile (is_digit 10) x"]) auto
  next
    case False
    then have "read_number 10 (Some 3) False 256 s = Some (n, s')" using assms by (simp add: read_octet_def read_separator_def)
    then show ?thesis using read_number_split d[of s] by blast
  qed
qed

lemma read_ipv4_split:
  assumes "read_ipv4 s = Some (ip, s')"
  shows "\<exists>p. s = p @ s' \<and> CHR '':'' \<notin> set p"
proof -
  obtain a b c d s1 s2 s3 where "read_octet 0 s = Some (a, s1)" "read_octet 1 s1 = Some (b, s2)"
    "read_octet 2 s2 = Some (c, s3)" "read_octet 3 s3 = Some (d, s')"
    using assms by (auto simp: read_ipv4_def bind_eq_Some_conv)
  then obtain p q r t where "s = p @ s1" "s1 = q @ s2" "s2 = r @ s3" "s3 = t @ s'"
    "CHR '':'' \<notin> set p" "CHR '':'' \<notin> set q" "CHR '':'' \<notin> set r" "CHR '':'' \<notin> set t"
    by (metis read_octet_split)
  then show ?thesis by (intro exI[of _ "p @ q @ r @ t"]) simp
qed

lemma parse_ipv4_colon: "CHR '':'' \<in> set s \<Longrightarrow> parse_ipv4 s = None"
  using read_ipv4_split by (fastforce simp: parse_ipv4_def complete_def split: option.splits prod.splits list.splits)

lemma show_ipv6_colon: "CHR '':'' \<in> set (show_ipv6 ip)"
proof -
  have "CHR '':'' \<in> set (show_groups (segments ip))" by (cases ip) (simp add: colon_groups_def)
  then show ?thesis by (cases "zero_span 0 (0, 0) (0, 0) (segments ip)") (auto simp: show_ipv6_def split: option.split)
qed

lemma parse_ipv4_show_ipv6 [simp]: "parse_ipv4 (show_ipv6 ip) = None"
  by (rule parse_ipv4_colon[OF show_ipv6_colon])

lemma ipv4_from_octets [simp]: "ipv4_from (octets4 ip) = ip" "length (octets4 ip) = 4"
  by (cases ip; simp add: ipv4_from_def)+

lemma octets4_from: "length bs = 4 \<Longrightarrow> octets4 (ipv4_from bs) = bs"
  by (auto simp: ipv4_from_def numeral_eq_Suc length_Suc_conv)

lemma be_pair: "be_bytes 2 (be_word [a, b] :: u16) = [a, b]"
  using be_bytes_be_word[of "[a, b]", where ?'a = 16] by (simp add: numeral_2_eq_2)

lemma length_be_bytes_pairs: "length (concat (map (be_bytes 2) (gs :: u16 list))) = 2 * length gs"
  by (induction gs) (simp_all add: be_bytes_def)

lemma length_octets6 [simp]: "length (octets6 ip) = 16"
  by (simp add: octets6_def length_be_bytes_pairs)

lemma ipv6_from_octets [simp]: "ipv6_from (octets6 ip) = ip"
proof (cases ip)
  case (Ipv6Addr a b c d e f g h)
  note be_bytes_pair[of a] be_bytes_pair[of b] be_bytes_pair[of c] be_bytes_pair[of d]
    be_bytes_pair[of e] be_bytes_pair[of f] be_bytes_pair[of g] be_bytes_pair[of h]
  then show ?thesis
    using Ipv6Addr by (elim exE) (simp add: octets6_def ipv6_from_def ipv6_of_def be_word_pair upt_conv_Cons)
qed

lemma octets6_from: "length bs = 16 \<Longrightarrow> octets6 (ipv6_from bs) = bs"
  by (auto simp: octets6_def ipv6_from_def ipv6_of_def be_pair[unfolded numeral_2_eq_2] upt_conv_Cons numeral_eq_Suc length_Suc_conv
      simp del: upt_Suc)

end
