(* ===== verification/Udp_Server.thy ===== *)
theory Udp_Server
  imports Udp_Send Net_Addr
begin

text \<open>
  The server's side of the UDP relay (\<open>run_server_udp\<close>, \<open>ServerUdpSession\<close>, \<open>ResolvedUdpTargets\<close>
  and \<open>server_udp_receive_loop\<close> of \<open>core/src/udp.rs\<close>). The \<open>select!\<close> loop is a step function on
  the events it waits for: a tick of the cleanup timer, a close notice of a receive task, a
  datagram, the end of the connection. Name resolution, binding and sending of operating
  system sockets are a parameter that every datagram event carries, so that they may answer
  differently each time.
\<close>

section \<open>Sessions\<close>

record udp_net =
  net_lookup :: "string \<Rightarrow> string + SocketAddr list"
  net_bind :: "SocketAddr \<Rightarrow> io_error + nat"
  net_send_to :: "nat \<Rightarrow> bytes \<Rightarrow> SocketAddr \<Rightarrow> io_error + nat"

type_synonym packet = "nat \<times> SocketAddr \<times> bytes"

type_synonym ResolvedUdpTargets = "string \<Rightarrow> SocketAddr option"

definition UDP_IDLE_CLEANUP_INTERVAL :: nat where
  "UDP_IDLE_CLEANUP_INTERVAL = 10 ^ 9"

definition DEFAULT_UDP_IDLE_TIMEOUT :: nat where
  "DEFAULT_UDP_IDLE_TIMEOUT = 60 * 10 ^ 9"

text \<open>
  The handle of the receive task of a session: \<open>None\<close> before the socket exists and after
  \<open>close\<close>, otherwise whether the task is still running.
\<close>

record ServerUdpSession =
  ss_session_id :: u32
  ss_defragger :: Defragger
  ss_socket :: "nat option"
  ss_resolved_targets :: ResolvedUdpTargets
  ss_receive_task :: "bool option"
  ss_last_activity :: nat

definition server_session_new :: "u32 \<Rightarrow> nat \<Rightarrow> ServerUdpSession" where
  "server_session_new session_id now = \<lparr>ss_session_id = session_id, ss_defragger = new_defragger,
     ss_socket = None, ss_resolved_targets = Map.empty, ss_receive_task = None, ss_last_activity = now\<rparr>"

definition resolve_udp_target :: "udp_net \<Rightarrow> string \<Rightarrow> CoreError + SocketAddr" where
  "resolve_udp_target net addr =
     (case net_lookup net addr of
        Inl e \<Rightarrow> Err (Dial e)
      | Inr [] \<Rightarrow> Err (Dial (''failed to resolve udp target '' @ addr))
      | Inr (target # _) \<Rightarrow> Ok target)"

definition resolve_udp_bind_addr :: "udp_net \<Rightarrow> string \<Rightarrow> CoreError + SocketAddr" where
  "resolve_udp_bind_addr net addr =
     and_then (resolve_udp_target net addr) (\<lambda>target. Ok (case target of
        SocketV4 _ _ \<Rightarrow> SocketV4 (Ipv4Addr 0 0 0 0) 0
      | SocketV6 _ _ _ _ \<Rightarrow> SocketV6 (Ipv6Addr 0 0 0 0 0 0 0 0) 0 0 0))"

definition get_or_resolve ::
    "string \<Rightarrow> (unit \<Rightarrow> CoreError + SocketAddr) \<Rightarrow> ResolvedUdpTargets \<Rightarrow>
     CoreError + (SocketAddr \<times> ResolvedUdpTargets)" where
  "get_or_resolve destination resolver targets =
     (case targets destination of
        Some target \<Rightarrow> Ok (target, targets)
      | None \<Rightarrow> and_then (resolver ()) (\<lambda>target. Ok (target, targets(destination \<mapsto> target))))"

definition targets_resolve ::
    "udp_net \<Rightarrow> string \<Rightarrow> ResolvedUdpTargets \<Rightarrow> CoreError + (SocketAddr \<times> ResolvedUdpTargets)" where
  "targets_resolve net destination targets =
     get_or_resolve destination (\<lambda>_. resolve_udp_target net destination) targets"

definition send_udp_packet :: "udp_net \<Rightarrow> nat \<Rightarrow> SocketAddr \<Rightarrow> bytes \<Rightarrow> CoreError + packet" where
  "send_udp_packet net socket target data =
     (case net_send_to net socket data target of
        Inl e \<Rightarrow> Err (core_from_io e)
      | Inr _ \<Rightarrow> Ok (socket, target, data))"

definition init_socket :: "udp_net \<Rightarrow> string \<Rightarrow> ServerUdpSession \<Rightarrow> CoreError + ServerUdpSession" where
  "init_socket net addr s =
     and_then (resolve_udp_bind_addr net addr) (\<lambda>bind_addr.
     and_then (map_err core_from_io (net_bind net bind_addr)) (\<lambda>socket.
     Ok (s\<lparr>ss_receive_task := Some True, ss_socket := Some socket\<rparr>)))"

text \<open>The packets sent, the result, and the session, which keeps what was done before an error.\<close>

definition session_feed ::
    "bool \<Rightarrow> udp_net \<Rightarrow> nat \<Rightarrow> UDPMessage \<Rightarrow> ServerUdpSession \<Rightarrow>
     ((CoreError + unit) \<times> packet list \<times> ServerUdpSession) option" where
  "session_feed checks net now message s =
     (case feed checks (ss_defragger s) message of
        None \<Rightarrow> None
      | Some (None, d) \<Rightarrow> Some (Ok (), [], s\<lparr>ss_last_activity := now, ss_defragger := d\<rparr>)
      | Some (Some message, d) \<Rightarrow>
          (let s = s\<lparr>ss_last_activity := now, ss_defragger := d\<rparr> in
           case (if ss_socket s = None then init_socket net (m_addr message) s else Ok s) of
             Inl e \<Rightarrow> Some (Err e, [], s)
           | Inr s \<Rightarrow>
               (case ss_socket s of
                  None \<Rightarrow> Some (Ok (), [], s)
                | Some socket \<Rightarrow>
                    (case targets_resolve net (m_addr message) (ss_resolved_targets s) of
                       Inl e \<Rightarrow> Some (Err e, [], s)
                     | Inr (target, targets) \<Rightarrow>
                         (let s = s\<lparr>ss_resolved_targets := targets\<rparr> in
                          case send_udp_packet net socket target (m_data message) of
                            Inl e \<Rightarrow> Some (Err e, [], s)
                          | Inr sent \<Rightarrow> Some (Ok (), [sent], s))))))"

definition is_idle :: "nat \<Rightarrow> nat \<Rightarrow> ServerUdpSession \<Rightarrow> bool" where
  "is_idle now timeout s \<longleftrightarrow> timeout < now - ss_last_activity s"

definition server_session_close :: "ServerUdpSession \<Rightarrow> ServerUdpSession" where
  "server_session_close s = s\<lparr>ss_receive_task := None, ss_socket := None\<rparr>"

section \<open>The loop\<close>

datatype ConnectionError = ApplicationClosed | LocallyClosed | OtherConnectionError string

record UdpServer =
  sv_sessions :: "u32 \<Rightarrow> ServerUdpSession option"
  sv_close_rx :: "u32 list"
  sv_run_result :: "(CoreError + unit) option"

definition udp_server_new :: UdpServer where
  "udp_server_new = \<lparr>sv_sessions = Map.empty, sv_close_rx = [], sv_run_result = None\<rparr>"

definition cleanup_tick :: "nat \<Rightarrow> nat \<Rightarrow> UdpServer \<Rightarrow> UdpServer" where
  "cleanup_tick idle_timeout now sv = sv\<lparr>sv_sessions := (\<lambda>i. case sv_sessions sv i of
     None \<Rightarrow> None | Some s \<Rightarrow> if is_idle now idle_timeout s then None else Some s)\<rparr>"

definition close_notice :: "UdpServer \<Rightarrow> UdpServer" where
  "close_notice sv =
     (case sv_close_rx sv of
        [] \<Rightarrow> sv
      | i # is \<Rightarrow> sv\<lparr>sv_close_rx := is, sv_sessions := (sv_sessions sv)(i := None)\<rparr>)"

definition server_datagram ::
    "bool \<Rightarrow> udp_net \<Rightarrow> nat \<Rightarrow> bytes \<Rightarrow> UdpServer \<Rightarrow> (packet list \<times> UdpServer) option" where
  "server_datagram checks net now datagram sv =
     (case parse_udp_message datagram of
        None \<Rightarrow> None
      | Some (Inl _) \<Rightarrow> Some ([], sv)
      | Some (Inr message) \<Rightarrow>
          (let i = m_session_id message;
               session = (case sv_sessions sv i of Some s \<Rightarrow> s | None \<Rightarrow> server_session_new i now)
           in case session_feed checks net now message session of
                None \<Rightarrow> None
              | Some (r, sent, session) \<Rightarrow>
                  (let session = (case r of Inl _ \<Rightarrow> server_session_close session | Inr _ \<Rightarrow> session)
                   in Some (sent, sv\<lparr>sv_sessions := (sv_sessions sv)(i \<mapsto> session)\<rparr>))))"

definition connection_ended :: "ConnectionError \<Rightarrow> UdpServer \<Rightarrow> UdpServer" where
  "connection_ended e sv = sv\<lparr>sv_sessions := Map.empty, sv_run_result := Some (case e of
     ApplicationClosed \<Rightarrow> Ok ()
   | LocallyClosed \<Rightarrow> Ok ()
   | OtherConnectionError text \<Rightarrow> Err (core_from_connection (\<lambda>t. t) text))\<rparr>"

text \<open>The end of a session's receive task, which then reports the session's id.\<close>

definition receive_task_ended :: "u32 \<Rightarrow> UdpServer \<Rightarrow> UdpServer" where
  "receive_task_ended i sv =
     (case sv_sessions sv i of
        Some s \<Rightarrow>
          if ss_receive_task s = Some True
          then sv\<lparr>sv_sessions := (sv_sessions sv)(i \<mapsto> s\<lparr>ss_receive_task := Some False\<rparr>),
                  sv_close_rx := sv_close_rx sv @ [i]\<rparr>
          else sv
      | None \<Rightarrow> sv)"

datatype udp_event =
    Tick nat
  | CloseNotice
  | Arrived udp_net nat bytes
  | ConnectionEnded ConnectionError
  | ReceiveTaskEnded u32

definition server_udp_step ::
    "bool \<Rightarrow> nat \<Rightarrow> UdpServer \<Rightarrow> udp_event \<Rightarrow> (packet list \<times> UdpServer) option" where
  "server_udp_step checks idle_timeout sv event =
     (if sv_run_result sv \<noteq> None then Some ([], sv)
      else case event of
          Tick now \<Rightarrow> Some ([], cleanup_tick idle_timeout now sv)
        | CloseNotice \<Rightarrow> Some ([], close_notice sv)
        | Arrived net now datagram \<Rightarrow> server_datagram checks net now datagram sv
        | ConnectionEnded e \<Rightarrow> Some ([], connection_ended e sv)
        | ReceiveTaskEnded i \<Rightarrow> Some ([], receive_task_ended i sv))"

definition run_server_udp ::
    "bool \<Rightarrow> nat \<Rightarrow> udp_event list \<Rightarrow> (packet list list \<times> UdpServer) option" where
  "run_server_udp checks idle_timeout events =
     run_steps (server_udp_step checks idle_timeout) udp_server_new events"

text \<open>
  The receive task: each packet of the target, or the error of the socket, with the random
  number drawn should the reply need fragments. \<open>None\<close> in the result means that the task waits
  for the next packet.
\<close>

fun server_udp_receive_loop ::
    "bool \<Rightarrow> (real \<Rightarrow> real) \<Rightarrow> u32 \<Rightarrow> (io_error + u16 \<times> bytes \<times> SocketAddr) list \<Rightarrow> udp_link \<Rightarrow>
     ((CoreError + unit) option \<times> udp_link) run" where
  "server_udp_receive_loop checks fl session_id [] link = Returned (None, link)"
| "server_udp_receive_loop checks fl session_id (Inl e # rs) link = Returned (Some (Err (core_from_io e)), link)"
| "server_udp_receive_loop checks fl session_id (Inr (random, data, from_addr) # rs) link =
     (case send_udp_message checks fl random \<lparr>m_session_id = session_id, m_packet_id = 0, m_frag_id = 0,
        m_frag_count = 1, m_addr = show_socket_addr from_addr, m_data = take MAX_UDP_SIZE data\<rparr> link of
        Returned (Inr _, link) \<Rightarrow> server_udp_receive_loop checks fl session_id rs link
      | Returned (Inl e, link) \<Rightarrow> Returned (Some (Err e), link)
      | Blocked \<Rightarrow> Blocked
      | Panicked \<Rightarrow> Panicked)"

section \<open>The invariant\<close>

text \<open>
  A session has a receive task exactly while it has a socket; a session whose task has ended
  has a close notice pending; a finished loop holds no session.
\<close>

definition server_session_ok :: "u32 list \<Rightarrow> u32 \<Rightarrow> ServerUdpSession \<Rightarrow> bool" where
  "server_session_ok notices i s \<longleftrightarrow> ss_session_id s = i \<and> defragger_ok (ss_defragger s) \<and>
     (ss_socket s = None \<longleftrightarrow> ss_receive_task s = None) \<and>
     (ss_receive_task s = Some False \<longrightarrow> i \<in> set notices)"

definition udp_server_ok :: "UdpServer \<Rightarrow> bool" where
  "udp_server_ok sv \<longleftrightarrow>
     (\<forall>i s. sv_sessions sv i = Some s \<longrightarrow> server_session_ok (sv_close_rx sv) i s) \<and>
     (sv_run_result sv \<noteq> None \<longrightarrow> sv_sessions sv = Map.empty)"

lemma server_session_new_ok: "server_session_ok notices i (server_session_new i now)"
  by (simp add: server_session_ok_def server_session_new_def new_defragger_ok)

lemma server_session_close_ok: "server_session_ok notices i s \<Longrightarrow> server_session_ok notices i (server_session_close s)"
  by (simp add: server_session_ok_def server_session_close_def)

lemma init_socket_ok:
  "server_session_ok notices i s \<Longrightarrow> init_socket net addr s = Ok s' \<Longrightarrow> server_session_ok notices i s'"
  by (auto simp: init_socket_def and_then_Ok_iff server_session_ok_def)

lemma session_feed_ok:
  assumes "server_session_ok notices i s"
  shows "\<exists>r sent s'. session_feed checks net now message s = Some (r, sent, s') \<and> server_session_ok notices i s'"
proof -
  obtain out d where f: "feed checks (ss_defragger s) message = Some (out, d)" "defragger_ok d"
    using feed_total assms unfolding server_session_ok_def by blast
  let ?s = "s\<lparr>ss_last_activity := now, ss_defragger := d\<rparr>"
  have ok: "server_session_ok notices i ?s" using assms f(2) by (simp add: server_session_ok_def)
  show ?thesis
  proof (cases out)
    case None
    with f ok show ?thesis by (simp add: session_feed_def)
  next
    case (Some x)
    let ?init = "if ss_socket s = None then init_socket net (m_addr x) ?s else Ok ?s"
    have init: "server_session_ok notices i s'" if "?init = Ok s'" for s'
      using that ok init_socket_ok by (auto split: if_splits)
    have targets: "server_session_ok notices i (s'\<lparr>ss_resolved_targets := t\<rparr>)" if "server_session_ok notices i s'" for s' t
      using that by (simp add: server_session_ok_def)
    show ?thesis
    proof (cases ?init)
      case (Inl e)
      with f Some ok show ?thesis by (simp add: session_feed_def Let_def)
    next
      case (Inr s')
      with f Some init[OF Inr] targets[OF init[OF Inr]] show ?thesis
        by (auto simp: session_feed_def Let_def split: option.split sum.split)
    qed
  qed
qed

lemma session_ok_notices:
  "server_session_ok notices i s \<Longrightarrow> set notices \<subseteq> set notices' \<Longrightarrow> server_session_ok notices' i s"
  by (auto simp: server_session_ok_def)

lemma server_datagram_ok:
  assumes "udp_server_ok sv" and "sv_run_result sv = None"
  shows "\<exists>sent sv'. server_datagram checks net now datagram sv = Some (sent, sv') \<and> udp_server_ok sv'"
proof -
  obtain r where r: "parse_udp_message datagram = Some r" using parse_udp_message_total by blast
  show ?thesis
  proof (cases r)
    case (Inl e)
    with r assms show ?thesis by (simp add: server_datagram_def)
  next
    case (Inr x)
    let ?i = "m_session_id x"
    let ?s = "case sv_sessions sv ?i of Some s \<Rightarrow> s | None \<Rightarrow> server_session_new ?i now"
    have "server_session_ok (sv_close_rx sv) ?i ?s"
      using assms(1) by (auto simp: udp_server_ok_def server_session_new_ok split: option.split)
    from session_feed_ok[OF this] obtain res sent s' where f:
      "session_feed checks net now x ?s = Some (res, sent, s')" "server_session_ok (sv_close_rx sv) ?i s'" by blast
    then have "server_session_ok (sv_close_rx sv) ?i (case res of Inl _ \<Rightarrow> server_session_close s' | Inr _ \<Rightarrow> s')"
      using server_session_close_ok by (auto split: sum.split)
    with assms show ?thesis using r Inr f(1) by (auto simp: server_datagram_def udp_server_ok_def Let_def)
  qed
qed

lemma server_udp_step_ok:
  assumes "udp_server_ok sv"
  shows "\<exists>sent sv'. server_udp_step checks idle_timeout sv event = Some (sent, sv') \<and> udp_server_ok sv'"
proof (cases "sv_run_result sv")
  case None
  show ?thesis
  proof (cases event)
    case (Tick now)
    then show ?thesis
      using assms None by (auto simp: server_udp_step_def cleanup_tick_def udp_server_ok_def split: option.splits if_splits)
  next
    case CloseNotice
    have "udp_server_ok (close_notice sv)"
      using assms None by (auto simp: close_notice_def udp_server_ok_def server_session_ok_def split: list.split) blast
    with CloseNotice None show ?thesis by (simp add: server_udp_step_def)
  next
    case (Arrived net now datagram)
    then show ?thesis using server_datagram_ok[OF assms None] None by (simp add: server_udp_step_def)
  next
    case (ConnectionEnded e)
    then show ?thesis using None by (simp add: server_udp_step_def connection_ended_def udp_server_ok_def)
  next
    case (ReceiveTaskEnded i)
    have "udp_server_ok (receive_task_ended i sv)"
      using assms None by (auto simp: receive_task_ended_def udp_server_ok_def server_session_ok_def split: option.split)
    with ReceiveTaskEnded None show ?thesis by (simp add: server_udp_step_def)
  qed
qed (use assms in \<open>simp add: server_udp_step_def\<close>)

lemma udp_server_new_ok: "udp_server_ok udp_server_new"
  by (simp add: udp_server_ok_def udp_server_new_def)

interpretation udp_server: panic_free udp_server_new "server_udp_step checks idle_timeout" udp_server_ok
  for checks idle_timeout
  by unfold_locales (rule udp_server_new_ok, rule server_udp_step_ok)

section \<open>Relaying\<close>

text \<open>
  The network answers for a destination: it resolves, first to \<open>target\<close>; the session's socket
  can be bound, as \<open>socket\<close>; and packets can be sent from it.
\<close>

definition answers :: "udp_net \<Rightarrow> string \<Rightarrow> SocketAddr \<Rightarrow> nat \<Rightarrow> bool" where
  "answers net addr target socket \<longleftrightarrow> (\<exists>ts. net_lookup net addr = Inr (target # ts)) \<and>
     (\<forall>b. net_bind net b = Inr socket) \<and> (\<forall>data. \<exists>n. net_send_to net socket data target = Inr n)"

text \<open>The session of an id and its reassembler, while it may still have no socket or no cached target.\<close>

definition relaying :: "UdpServer \<Rightarrow> u32 \<Rightarrow> Defragger \<Rightarrow> string \<Rightarrow> SocketAddr \<Rightarrow> nat \<Rightarrow> bool" where
  "relaying sv i d addr target socket \<longleftrightarrow> sv_run_result sv = None \<and>
     (case sv_sessions sv i of
        None \<Rightarrow> d = new_defragger
      | Some s \<Rightarrow> ss_defragger s = d \<and> ss_socket s \<in> {None, Some socket} \<and>
          ss_resolved_targets s addr \<in> {None, Some target})"

lemma targets_resolve_answers:
  assumes "answers net addr target socket" and "targets addr \<in> {None, Some target}"
  shows "\<exists>targets'. targets_resolve net addr targets = Ok (target, targets') \<and> targets' addr = Some target"
  using assms
  by (auto simp: targets_resolve_def get_or_resolve_def resolve_udp_target_def answers_def)

lemma session_feed_answers:
  assumes "answers net addr target socket" and "ss_socket s \<in> {None, Some socket}"
    and "ss_resolved_targets s addr \<in> {None, Some target}"
    and "feed checks (ss_defragger s) x = Some (out, d)" and "\<And>y. out = Some y \<Longrightarrow> m_addr y = addr"
  shows "\<exists>s'. session_feed checks net now x s =
      Some (Ok (), (case out of None \<Rightarrow> [] | Some y \<Rightarrow> [(socket, target, m_data y)]), s') \<and>
    ss_defragger s' = d \<and> ss_socket s' \<in> {None, Some socket} \<and> ss_resolved_targets s' addr \<in> {None, Some target}"
proof (cases out)
  case None
  with assms show ?thesis by (simp add: session_feed_def)
next
  case (Some y)
  let ?s = "s\<lparr>ss_last_activity := now, ss_defragger := d\<rparr>"
  have "init_socket net addr ?s = Ok (?s\<lparr>ss_receive_task := Some True, ss_socket := Some socket\<rparr>)"
    using assms(1) by (auto simp: init_socket_def resolve_udp_bind_addr_def resolve_udp_target_def answers_def)
  then obtain s1 where init: "(if ss_socket ?s = None then init_socket net addr ?s else Ok ?s) = Ok s1"
    and s1: "ss_socket s1 = Some socket" "ss_defragger s1 = d" "ss_resolved_targets s1 = ss_resolved_targets s"
    using assms(2) by (cases "ss_socket s") auto
  obtain targets' where "targets_resolve net addr (ss_resolved_targets s) = Ok (target, targets')" "targets' addr = Some target"
    using targets_resolve_answers[OF assms(1), of "ss_resolved_targets s"] assms(3) by blast
  moreover have "send_udp_packet net socket target (m_data y) = Ok (socket, target, m_data y)"
    using assms(1) unfolding send_udp_packet_def answers_def by (metis sum.case(2))
  ultimately show ?thesis
    using Some assms(4,5) init s1 by (cases "ss_socket s") (auto simp: session_feed_def Let_def)
qed

lemma server_step_relays:
  assumes "answers net addr target socket" and "relaying sv i d addr target socket"
    and "parse_udp_message datagram = Some (Ok x)" and "m_session_id x = i"
    and "feed checks d x = Some (out, d')" and "\<And>y. out = Some y \<Longrightarrow> m_addr y = addr"
  shows "\<exists>sv'. server_udp_step checks idle sv (Arrived net now datagram) =
      Some ((case out of None \<Rightarrow> [] | Some y \<Rightarrow> [(socket, target, m_data y)]), sv') \<and>
    relaying sv' i d' addr target socket"
proof -
  let ?s = "case sv_sessions sv i of Some s \<Rightarrow> s | None \<Rightarrow> server_session_new i now"
  have "ss_socket ?s \<in> {None, Some socket}" "ss_resolved_targets ?s addr \<in> {None, Some target}" "ss_defragger ?s = d"
    using assms(2) by (auto simp: relaying_def server_session_new_def split: option.splits)
  with session_feed_answers[OF assms(1), of ?s checks x out d' now] assms(5,6) obtain s' where
    "session_feed checks net now x ?s =
      Some (Ok (), (case out of None \<Rightarrow> [] | Some y \<Rightarrow> [(socket, target, m_data y)]), s')"
    "ss_defragger s' = d'" "ss_socket s' \<in> {None, Some socket}" "ss_resolved_targets s' addr \<in> {None, Some target}"
    by auto
  moreover have "sv_run_result sv = None" using assms(2) by (simp add: relaying_def)
  ultimately show ?thesis
    using assms(3,4) by (simp add: server_udp_step_def server_datagram_def Let_def relaying_def)
qed

lemma server_run_relays:
  assumes "answers net addr target socket" and "relaying sv i d addr target socket"
    and "\<forall>x \<in> set (parsed (map snd arrivals)). m_session_id x = i"
    and "run_steps (feed checks) d (parsed (map snd arrivals)) = Some (outs, d')"
    and "\<forall>y \<in> set (delivered outs). m_addr y = addr"
  shows "\<exists>sent sv'. run_steps (server_udp_step checks idle) sv (map (\<lambda>(now, datagram). Arrived net now datagram) arrivals) =
      Some (sent, sv') \<and> concat sent = map (\<lambda>y. (socket, target, m_data y)) (delivered outs) \<and>
    relaying sv' i d' addr target socket"
  using assms(2-)
proof (induction arrivals arbitrary: sv d outs)
  case Nil
  then show ?case by (simp add: parsed_def)
next
  case (Cons a arrivals)
  obtain now datagram where a: "a = (now, datagram)" by fastforce
  obtain r where r: "parse_udp_message datagram = Some r" using parse_udp_message_total by blast
  show ?case
  proof (cases r)
    case (Inl e)
    with Cons.prems(1) r have "server_udp_step checks idle sv (Arrived net now datagram) = Some ([], sv)"
      by (simp add: server_udp_step_def server_datagram_def relaying_def)
    moreover have "parsed (map snd (a # arrivals)) = parsed (map snd arrivals)"
      using r Inl by (simp add: parsed_def a)
    ultimately show ?thesis using Cons by (fastforce simp: a)
  next
    case (Inr x)
    then have p: "parsed (map snd (a # arrivals)) = x # parsed (map snd arrivals)" using r by (simp add: parsed_def a)
    then obtain out d1 outs' where f: "feed checks d x = Some (out, d1)" and
      rest: "run_steps (feed checks) d1 (parsed (map snd arrivals)) = Some (outs', d')" and o: "outs = out # outs'"
      using Cons.prems(3) by (auto split: bind_splits)
    have "m_addr y = addr" if "out = Some y" for y using Cons.prems(4) that by (simp add: o)
    then obtain sv' where step: "server_udp_step checks idle sv (Arrived net now datagram) =
        Some ((case out of None \<Rightarrow> [] | Some y \<Rightarrow> [(socket, target, m_data y)]), sv')"
      and rel: "relaying sv' i d1 addr target socket"
      using server_step_relays[OF assms(1) Cons.prems(1), of datagram x checks out d1 idle now] r Inr f Cons.prems(2) p
      by auto
    have "\<forall>x \<in> set (parsed (map snd arrivals)). m_session_id x = i" "\<forall>y \<in> set (delivered outs'). m_addr y = addr"
      using Cons.prems(2,4) p by (cases out; auto simp: o)+
    from Cons.IH[OF rel this(1) rest this(2)] step show ?thesis
      by (cases out) (auto simp: a o)
  qed
qed

section \<open>Replies\<close>

lemma addr_fits_show_socket_addr: "addr_fits (show_socket_addr a)"
  using length_show_socket_addr[of a] show_socket_addr_not_Nil[of a]
  by (simp add: addr_fits_def MAX_ADDRESS_LENGTH_def)

definition reply_message :: "u32 \<Rightarrow> bytes \<Rightarrow> SocketAddr \<Rightarrow> UDPMessage" where
  "reply_message session_id data from_addr = \<lparr>m_session_id = session_id, m_packet_id = 0, m_frag_id = 0,
     m_frag_count = 1, m_addr = show_socket_addr from_addr, m_data = data\<rparr>"

lemma length_reply_wire: "length (udp_wire (reply_message session_id data from_addr)) \<le> 77 + length data"
proof -
  have "varint_size v \<le> 8" for v by (simp add: varint_size_def)
  from this[of "of_nat (length (show_socket_addr from_addr))"] show ?thesis
    using length_show_socket_addr[of from_addr] by (simp add: length_udp_wire reply_message_def)
qed

lemma receive_loop_ready:
  assumes "link_ready mx (length replies * mx) link" and "mx \<le> MAX_UDP_SIZE"
    and "\<forall>(random, data, from_addr) \<in> set replies. 77 + length data \<le> mx"
  shows "server_udp_receive_loop checks fl session_id (map Inr replies) link = Returned (None,
    queued (map (\<lambda>(random, data, from_addr). udp_wire (reply_message session_id data from_addr)) replies) link)"
  using assms
proof (induction replies arbitrary: link)
  case (Cons r replies)
  obtain random data from_addr where r: "r = (random, data, from_addr)" by (cases r) auto
  let ?m = "reply_message session_id data from_addr"
  have data: "77 + length data \<le> mx" using Cons.prems(3) by (simp add: r)
  then have wire: "length (udp_wire ?m) \<le> mx" using length_reply_wire[of session_id data from_addr] by simp
  have "of_nat (length (m_addr ?m)) \<le> MAX_VARINT"
    by (rule addr_fits_varint) (simp add: reply_message_def addr_fits_show_socket_addr)
  then have "send_udp_message checks fl random ?m link = Returned (Ok (), queued [udp_wire ?m] link)"
    using send_single_ready[OF Cons.prems(1), of ?m fl] wire by (simp add: send_udp_message_def)
  moreover have "link_ready mx (length (udp_wire ?m) + length replies * mx) link"
    using Cons.prems(1) wire by (simp add: link_ready_def)
  then have "link_ready mx (length replies * mx) (queued [udp_wire ?m] link)" by (rule link_ready_queued)
  moreover have "take MAX_UDP_SIZE data = data" using data Cons.prems(2) by simp
  ultimately show ?case
    using Cons by (simp add: r queued_queued reply_message_def)
qed simp

lemma parse_reply: "parse_udp_message (udp_wire (reply_message i data a)) = Some (Ok (reply_message i data a))"
  by (rule parse_wire) (simp_all add: reply_message_def addr_fits_show_socket_addr str_ok_show_socket_addr)

section \<open>Properties\<close>


definition sample_net :: udp_net where
  "sample_net = \<lparr>net_lookup = (\<lambda>_. Inr [SocketV4 (Ipv4Addr 192 0 2 1) 53]), net_bind = (\<lambda>_. Inr 3),
     net_send_to = (\<lambda>_ data _. Inr (length data))\<rparr>"


text \<open>
  C16: No sequence of events, whatever the datagrams contain and however name resolution and
  sockets fail, makes the server's UDP loop panic. At all times a session has a receive task
  exactly while it has a socket, a session whose task has ended has its close notice pending,
  and once the loop has ended no session is left.
\<close>

theorem udp_server_safe:
  "\<exists>sent sv. run_server_udp checks idle_timeout events = Some (sent, sv) \<and> length sent = length events \<and>
    (\<forall>i s. sv_sessions sv i = Some s \<longrightarrow> ss_session_id s = i \<and>
      (ss_socket s = None \<longleftrightarrow> ss_receive_task s = None) \<and>
      (ss_receive_task s = Some False \<longrightarrow> i \<in> set (sv_close_rx sv))) \<and>
    (sv_run_result sv \<noteq> None \<longrightarrow> sv_sessions sv = Map.empty)"
proof -
  obtain sent sv where "run_server_udp checks idle_timeout events = Some (sent, sv)" "length sent = length events"
    "udp_server_ok sv"
    using udp_server.run_init unfolding run_server_udp_def by blast
  then show ?thesis by (auto simp: udp_server_ok_def server_session_ok_def)
qed

theorem udp_server_safe_witness:
  "\<exists>sent sv. run_server_udp True 60 [Arrived sample_net 1 [0, 0, 0, 1, 0, 0, 0, 1, 3, 97, 58, 49, 104, 105],
      ReceiveTaskEnded 1] = Some (sent, sv) \<and>
    (\<forall>s. sv_sessions sv 1 = Some s \<longrightarrow> ss_receive_task s = Some False \<longrightarrow> 1 \<in> set (sv_close_rx sv))"
  using udp_server_safe[of True 60 "[Arrived sample_net 1 [0, 0, 0, 1, 0, 0, 0, 1, 3, 97, 58, 49, 104, 105],
      ReceiveTaskEnded 1]"] by blast

text \<open>
  Replies find their way back: on a ready connection, every packet that a session's socket
  receives is queued as one datagram, in order, that parses to the session's id, the printed
  source address and the unchanged payload, as long as it fits the peer's datagram size.
\<close>

lemma udp_replies_relayed:
  assumes "link_ready mx (length replies * mx) link" and "dg_outgoing (ul_datagrams link) = []"
    and "mx \<le> MAX_UDP_SIZE" and "\<forall>(random, data, from_addr) \<in> set replies. 77 + length data \<le> mx"
  shows "\<exists>link'. server_udp_receive_loop checks fl session_id (map Inr replies) link = Returned (None, link') \<and>
    parsed (dg_outgoing (ul_datagrams link')) = map (\<lambda>(random, data, from_addr).
      \<lparr>m_session_id = session_id, m_packet_id = 0, m_frag_id = 0, m_frag_count = 1,
       m_addr = show_socket_addr from_addr, m_data = data\<rparr>) replies"
proof -
  let ?ds = "map (\<lambda>(random, data, from_addr). udp_wire (reply_message session_id data from_addr)) replies"
  have "parsed ?ds = map (\<lambda>(random, data, from_addr). reply_message session_id data from_addr) replies"
    by (induction replies) (auto simp: parsed_def parse_reply)
  then show ?thesis
    using receive_loop_ready[OF assms(1,3,4), of checks fl session_id] assms(2)
    by (simp add: queued_def reply_message_def)
qed

text \<open>
  C17: Close notices name a session by its id on the wire only. When a receive task ends, its
  session is removed as idle and the client uses the id again before the notice is handled,
  the stale notice removes the new session although its own receive task is running.
\<close>

theorem stale_close_notice:
  assumes "sv_run_result sv = None" and "sv_close_rx sv = []" and "sv_sessions sv i = Some s"
    and "ss_receive_task s = Some True" and "is_idle now idle_timeout s"
    and "parse_udp_message datagram = Some (Ok x)" and "m_session_id x = i" and "m_frag_count x \<le> 1"
    and "answers net (m_addr x) target socket"
  shows "\<exists>sv' sv''. run_steps (server_udp_step checks idle_timeout) sv
      [ReceiveTaskEnded i, Tick now, Arrived net later datagram] = Some ([[], [], [(socket, target, m_data x)]], sv') \<and>
    map_option ss_receive_task (sv_sessions sv' i) = Some (Some True) \<and>
    server_udp_step checks idle_timeout sv' CloseNotice = Some ([], sv'') \<and> sv_sessions sv'' i = None"
proof -
  define a where "a = receive_task_ended i sv"
  define b where "b = cleanup_tick idle_timeout now a"
  have a: "sv_run_result a = None" "sv_close_rx a = [i]" "sv_sessions a i = Some (s\<lparr>ss_receive_task := Some False\<rparr>)"
    using assms(1-4) by (simp_all add: a_def receive_task_ended_def)
  have b: "sv_run_result b = None" "sv_close_rx b = [i]" "sv_sessions b i = None"
    using a assms(5) by (simp_all add: b_def cleanup_tick_def is_idle_def)
  let ?s = "server_session_new i later"
  obtain targets where t: "targets_resolve net (m_addr x) Map.empty = Ok (target, targets)"
    using targets_resolve_answers[OF assms(9), of Map.empty] by auto
  have "send_udp_packet net socket target (m_data x) = Ok (socket, target, m_data x)"
    using assms(9) unfolding send_udp_packet_def answers_def by (metis sum.case(2))
  moreover have "init_socket net (m_addr x) (?s\<lparr>ss_last_activity := later, ss_defragger := new_defragger\<rparr>) =
      Ok (?s\<lparr>ss_receive_task := Some True, ss_socket := Some socket\<rparr>)"
    using assms(9)
    by (auto simp: init_socket_def resolve_udp_bind_addr_def resolve_udp_target_def answers_def server_session_new_def)
  ultimately have "session_feed checks net later x ?s = Some (Ok (), [(socket, target, m_data x)],
      ?s\<lparr>ss_receive_task := Some True, ss_socket := Some socket, ss_resolved_targets := targets\<rparr>)"
    using assms(8) t by (simp add: session_feed_def feed_def Let_def server_session_new_def)
  then have "server_udp_step checks idle_timeout b (Arrived net later datagram) =
      Some ([(socket, target, m_data x)], b\<lparr>sv_sessions := (sv_sessions b)(i \<mapsto>
        ?s\<lparr>ss_receive_task := Some True, ss_socket := Some socket, ss_resolved_targets := targets\<rparr>)\<rparr>)"
    using b assms(6,7) by (simp add: server_udp_step_def server_datagram_def Let_def)
  moreover have "server_udp_step checks idle_timeout sv (ReceiveTaskEnded i) = Some ([], a)"
    "server_udp_step checks idle_timeout a (Tick now) = Some ([], b)"
    using assms(1) a(1) by (simp_all add: server_udp_step_def a_def b_def)
  ultimately show ?thesis
    using b by (simp add: server_udp_step_def close_notice_def)
qed

theorem stale_close_notice_witness:
  "\<exists>sv' sv''. run_steps (server_udp_step True 60)
      (udp_server_new\<lparr>sv_sessions := [1 \<mapsto> (server_session_new 1 0)\<lparr>ss_socket := Some 3, ss_receive_task := Some True\<rparr>]\<rparr>)
      [ReceiveTaskEnded 1, Tick 100, Arrived sample_net 101 [0, 0, 0, 1, 0, 0, 0, 1, 3, 97, 58, 49, 104, 105]] =
      Some ([[], [], [(3, SocketV4 (Ipv4Addr 192 0 2 1) 53, [104, 105])]], sv') \<and>
    map_option ss_receive_task (sv_sessions sv' 1) = Some (Some True) \<and>
    server_udp_step True 60 sv' CloseNotice = Some ([], sv'') \<and> sv_sessions sv'' 1 = None"
proof -
  let ?x = "\<lparr>m_session_id = 1, m_packet_id = 0, m_frag_id = 0, m_frag_count = 1, m_addr = ''a:1'', m_data = [104, 105]\<rparr>"
  have p: "parse_udp_message [0, 0, 0, 1, 0, 0, 0, 1, 3, 97, 58, 49, 104, 105] = Some (Ok ?x)" by code_simp
  have "answers sample_net ''a:1'' (SocketV4 (Ipv4Addr 192 0 2 1) 53) 3" by (simp add: answers_def sample_net_def)
  then show ?thesis
    using stale_close_notice[of "udp_server_new\<lparr>sv_sessions :=
        [1 \<mapsto> (server_session_new 1 0)\<lparr>ss_socket := Some 3, ss_receive_task := Some True\<rparr>]\<rparr>" 1 _ 100 60, OF _ _ _ _ _ p]
    by (simp add: udp_server_new_def server_session_new_def is_idle_def)
qed

end
