(* ===== verification/Auth.thy ===== *)
theory Auth
  imports Protocol Rust_Text
begin

text \<open>
  The authentication headers of \<open>core/src/protocol/auth.rs\<close>. Header maps and header values
  belong to the http crate: they are a parameter of the definitions, and \<open>headers_ok\<close> states
  what the crate documents. The lemmas show that request and response survive the trip
  through the headers, whatever padding is drawn.
\<close>

section \<open>Header maps\<close>

record ('h, 'v) header_api =
  hm_insert :: "string \<Rightarrow> 'v \<Rightarrow> 'h \<Rightarrow> 'h"
  hm_get :: "string \<Rightarrow> 'h \<Rightarrow> 'v option"
  hv_from_str :: "string \<Rightarrow> 'v option"
  hv_to_str :: "'v \<Rightarrow> string option"

text \<open>Visible ASCII text (32 to 126), which \<open>HeaderValue::from_str\<close> accepts and \<open>to_str\<close> returns.\<close>

definition visible :: "string \<Rightarrow> bool" where
  "visible s \<longleftrightarrow> list_all (\<lambda>c. 32 \<le> (of_char c :: nat) \<and> (of_char c :: nat) < 127) s"

definition headers_ok :: "('h, 'v) header_api \<Rightarrow> bool" where
  "headers_ok api \<longleftrightarrow>
     (\<forall>n n' v h. hm_get api n (hm_insert api n' v h) = (if n = n' then Some v else hm_get api n h)) \<and>
     (\<forall>s. visible s \<longrightarrow> (\<exists>v. hv_from_str api s = Some v \<and> hv_to_str api v = Some s))"

section \<open>The code\<close>

definition URL_HOST :: string where
  "URL_HOST = ''hysteria''"

definition URL_PATH :: string where
  "URL_PATH = ''/auth''"

definition REQUEST_HEADER_AUTH :: string where
  "REQUEST_HEADER_AUTH = ''hysteria-auth''"

definition RESPONSE_HEADER_UDP_ENABLED :: string where
  "RESPONSE_HEADER_UDP_ENABLED = ''hysteria-udp''"

definition COMMON_HEADER_CC_RX :: string where
  "COMMON_HEADER_CC_RX = ''hysteria-cc-rx''"

definition COMMON_HEADER_PADDING :: string where
  "COMMON_HEADER_PADDING = ''hysteria-padding''"

definition STATUS_AUTH_OK :: u16 where
  "STATUS_AUTH_OK = 233"

record AuthRequest =
  aq_auth :: string
  aq_rx :: u64

record AuthResponse =
  ap_udp_enabled :: bool
  ap_rx :: u64
  ap_rx_auto :: bool

definition header_text :: "('h, 'v) header_api \<Rightarrow> string \<Rightarrow> 'h \<Rightarrow> string option" where
  "header_text api name headers = Option.bind (hm_get api name headers) (hv_to_str api)"

definition parse_u64 :: "string \<Rightarrow> u64 option" where
  "parse_u64 s = map_option of_nat (parse_uint (2 ^ 64) s)"

definition auth_request_from_headers :: "('h, 'v) header_api \<Rightarrow> 'h \<Rightarrow> AuthRequest" where
  "auth_request_from_headers api headers =
     (let auth = (case header_text api REQUEST_HEADER_AUTH headers of Some s \<Rightarrow> s | None \<Rightarrow> []);
          rx = (case Option.bind (header_text api COMMON_HEADER_CC_RX headers) parse_u64 of Some n \<Rightarrow> n | None \<Rightarrow> 0)
      in \<lparr>aq_auth = auth, aq_rx = rx\<rparr>)"

text \<open>\<open>headers.insert(name, HeaderValue::from_str(value).map_err(..)?)\<close>; the map is kept as it was at an error.\<close>

definition insert_header ::
    "('h, 'v) header_api \<Rightarrow> string \<Rightarrow> string \<Rightarrow> 'h \<Rightarrow> (ProtocolError + unit) \<times> 'h" where
  "insert_header api name value headers =
     (case hv_from_str api value of
        None \<Rightarrow> (Err InvalidHeaderValue, headers)
      | Some v \<Rightarrow> (Ok (), hm_insert api name v headers))"

fun insert_headers ::
    "('h, 'v) header_api \<Rightarrow> (string \<times> string) list \<Rightarrow> 'h \<Rightarrow> (ProtocolError + unit) \<times> 'h" where
  "insert_headers api [] headers = (Ok (), headers)"
| "insert_headers api ((name, value) # rest) headers =
     (case insert_header api name value headers of
        (Inl e, headers) \<Rightarrow> (Err e, headers)
      | (Inr _, headers) \<Rightarrow> insert_headers api rest headers)"

definition auth_request_to_headers ::
    "('h, 'v) header_api \<Rightarrow> rng \<Rightarrow> AuthRequest \<Rightarrow> 'h \<Rightarrow> (ProtocolError + unit) \<times> 'h" where
  "auth_request_to_headers api g request headers =
     insert_headers api
       [(REQUEST_HEADER_AUTH, aq_auth request),
        (COMMON_HEADER_CC_RX, dec (unat (aq_rx request))),
        (COMMON_HEADER_PADDING, auth_request_padding g)] headers"

definition auth_response_from_headers :: "('h, 'v) header_api \<Rightarrow> 'h \<Rightarrow> AuthResponse" where
  "auth_response_from_headers api headers =
     (let udp_enabled = (case Option.bind (header_text api RESPONSE_HEADER_UDP_ENABLED headers) parse_bool of
                           Some b \<Rightarrow> b | None \<Rightarrow> False);
          cc_rx = (case header_text api COMMON_HEADER_CC_RX headers of Some s \<Rightarrow> s | None \<Rightarrow> [])
      in if cc_rx = ''auto''
         then \<lparr>ap_udp_enabled = udp_enabled, ap_rx = 0, ap_rx_auto = True\<rparr>
         else \<lparr>ap_udp_enabled = udp_enabled,
               ap_rx = (case parse_u64 cc_rx of Some n \<Rightarrow> n | None \<Rightarrow> 0), ap_rx_auto = False\<rparr>)"

definition auth_response_to_headers ::
    "('h, 'v) header_api \<Rightarrow> rng \<Rightarrow> AuthResponse \<Rightarrow> 'h \<Rightarrow> (ProtocolError + unit) \<times> 'h" where
  "auth_response_to_headers api g response headers =
     insert_headers api
       [(RESPONSE_HEADER_UDP_ENABLED, if ap_udp_enabled response then ''true'' else ''false''),
        (COMMON_HEADER_CC_RX, if ap_rx_auto response then ''auto'' else dec (unat (ap_rx response))),
        (COMMON_HEADER_PADDING, auth_response_padding g)] headers"

section \<open>Through the headers and back\<close>

lemma parse_u64_dec [simp]: "parse_u64 (dec (unat n)) = Some n"
proof -
  have "unat n < 2 ^ 64" by (rule order_less_le_trans[OF unsigned_less]) simp
  then show ?thesis by (simp add: parse_u64_def)
qed

lemma visible_dec: "visible (dec n)"
  unfolding visible_def list_all_iff
proof
  fix c assume "c \<in> set (dec n)"
  then obtain d where "d < 10" "c = digit_char d" using print_radix_digits[of 10 c n] by auto
  then show "32 \<le> (of_char c :: nat) \<and> (of_char c :: nat) < 127" by (simp add: of_char_digit_char)
qed

lemma visible_alphanumeric: "list_all alphanumeric s \<Longrightarrow> visible s"
  unfolding visible_def list_all_iff
proof
  fix c assume s: "\<forall>c \<in> set s. alphanumeric c" and "c \<in> set s"
  then have "alphanumeric c" by simp
  then show "32 \<le> (of_char c :: nat) \<and> (of_char c :: nat) < 127"
    by (auto simp: alphanumeric_def Let_def word_le_nat_alt unat_of_char)
qed

lemma visible_padding:
  assumes "rng_ok g"
  shows "visible (auth_request_padding g)" "visible (auth_response_padding g)"
  using assms
  by (auto intro!: visible_alphanumeric simp: rng_ok_def auth_request_padding_def auth_response_padding_def sample_def Let_def)

lemma header_text_insert:
  assumes "headers_ok api" and "visible value"
  shows "\<exists>v. hv_from_str api value = Some v \<and> hv_to_str api v = Some value"
  using assms by (simp add: headers_ok_def)

text \<open>Inserting visible values under distinct names succeeds, and each is read back.\<close>

lemma insert_headers_text:
  assumes "headers_ok api" and "\<forall>(name, value) \<in> set hs. visible value" and "distinct (map fst hs)"
  shows "\<exists>headers'. insert_headers api hs headers = (Ok (), headers') \<and>
    (\<forall>(name, value) \<in> set hs. header_text api name headers' = Some value) \<and>
    (\<forall>name. name \<notin> fst ` set hs \<longrightarrow> hm_get api name headers' = hm_get api name headers)"
  using assms(2,3)
proof (induction hs arbitrary: headers)
  case (Cons nv hs)
  obtain name s0 where nv: "nv = (name, s0)" by fastforce
  obtain v where v: "hv_from_str api s0 = Some v" "hv_to_str api v = Some s0"
    using header_text_insert[OF assms(1)] Cons.prems(1) nv by auto
  let ?h = "hm_insert api name v headers"
  obtain headers' where h: "insert_headers api hs ?h = (Ok (), headers')"
    "\<forall>(name, value) \<in> set hs. header_text api name headers' = Some value"
    "\<forall>n. n \<notin> fst ` set hs \<longrightarrow> hm_get api n headers' = hm_get api n ?h"
    using Cons.IH[of ?h] Cons.prems by auto
  have get: "hm_get api n ?h = (if n = name then Some v else hm_get api n headers)" for n
    using assms(1) by (simp add: headers_ok_def)
  have "name \<notin> fst ` set hs" using Cons.prems(2) nv by simp
  then have "header_text api name headers' = Some s0"
    using h(3) get v(2) by (simp add: header_text_def)
  then show ?case using h get v(1) by (simp add: nv insert_header_def)
qed simp

lemma header_names_distinct [simp]:
  "REQUEST_HEADER_AUTH \<noteq> COMMON_HEADER_CC_RX" "REQUEST_HEADER_AUTH \<noteq> COMMON_HEADER_PADDING"
  "RESPONSE_HEADER_UDP_ENABLED \<noteq> COMMON_HEADER_CC_RX" "RESPONSE_HEADER_UDP_ENABLED \<noteq> COMMON_HEADER_PADDING"
  "COMMON_HEADER_CC_RX \<noteq> COMMON_HEADER_PADDING"
  by (simp_all add: REQUEST_HEADER_AUTH_def COMMON_HEADER_CC_RX_def COMMON_HEADER_PADDING_def
      RESPONSE_HEADER_UDP_ENABLED_def)

lemma dec_not_auto: "dec n \<noteq> ''auto''"
proof
  assume "dec n = ''auto''"
  then have "CHR ''u'' \<in> set (dec n)" by simp
  then have "to_digit 10 (CHR ''u'') \<noteq> None" using print_radix_chars(2)[of 10 "CHR ''u''" n] by simp
  then show False by code_simp
qed

lemma auth_request_headers:
  assumes "headers_ok api" and "rng_ok g" and "visible (aq_auth request)"
  shows "\<exists>headers'. auth_request_to_headers api g request headers = (Ok (), headers') \<and>
    auth_request_from_headers api headers' = request"
proof -
  obtain headers' where h: "auth_request_to_headers api g request headers = (Ok (), headers')"
    "header_text api REQUEST_HEADER_AUTH headers' = Some (aq_auth request)"
    "header_text api COMMON_HEADER_CC_RX headers' = Some (dec (unat (aq_rx request)))"
    using insert_headers_text[OF assms(1), of "[(REQUEST_HEADER_AUTH, aq_auth request),
        (COMMON_HEADER_CC_RX, dec (unat (aq_rx request))), (COMMON_HEADER_PADDING, auth_request_padding g)]" headers]
      assms(3) visible_dec[of "unat (aq_rx request)"] visible_padding[OF assms(2)]
    unfolding auth_request_to_headers_def by auto
  then show ?thesis by (simp add: auth_request_from_headers_def)
qed

lemma auth_response_headers:
  assumes "headers_ok api" and "rng_ok g"
  shows "\<exists>headers'. auth_response_to_headers api g response headers = (Ok (), headers') \<and>
    auth_response_from_headers api headers' = (if ap_rx_auto response then response\<lparr>ap_rx := 0\<rparr> else response)"
proof -
  let ?udp = "if ap_udp_enabled response then ''true'' else ''false''"
  let ?rx = "if ap_rx_auto response then ''auto'' else dec (unat (ap_rx response))"
  have "visible ''true''" "visible ''false''" "visible ''auto''" by code_simp+
  then have "visible ?udp" "visible ?rx" using visible_dec[of "unat (ap_rx response)"] by simp_all
  then obtain headers' where h: "auth_response_to_headers api g response headers = (Ok (), headers')"
    "header_text api RESPONSE_HEADER_UDP_ENABLED headers' = Some ?udp"
    "header_text api COMMON_HEADER_CC_RX headers' = Some ?rx"
    using insert_headers_text[OF assms(1), of "[(RESPONSE_HEADER_UDP_ENABLED, ?udp),
        (COMMON_HEADER_CC_RX, ?rx), (COMMON_HEADER_PADDING, auth_response_padding g)]" headers]
      visible_padding[OF assms(2)]
    unfolding auth_response_to_headers_def by (auto simp del: insert_headers.simps)
  then show ?thesis
    by (cases response) (auto simp: auth_response_from_headers_def parse_bool_def dec_not_auto)
qed

end
