(* ===== verification/Relay.thy ===== *)
theory Relay
  imports Limit Rust_Std "HOL-Library.Sublist"
begin

text \<open>
  The rate-limited relay between two byte streams (\<open>core/src/relay.rs\<close>) and the stream handed
  to proxy clients, whose writes are rate-limited poll by poll (\<open>core/src/stream.rs\<close>). A
  reader is the list of results its \<open>read\<close> calls give; an empty read is the end of the
  stream. The lemmas show that a relay neither loses, repeats nor reorders bytes.
\<close>

section \<open>The relay\<close>

definition RELAY_BUFFER_SIZE :: nat where
  "RELAY_BUFFER_SIZE = 64 * 1024"

text \<open>
  The writing side: what it has accepted, the error its \<open>shutdown\<close> would give, whether it has
  been shut down, the limiter, and the clock readings of each wait for the limiter.
\<close>

record relay_side =
  rs_sink :: sink
  rs_shutdown :: "io_error + unit"
  rs_closed :: bool
  rs_limiter :: "BandwidthLimiter option"
  rs_clock :: "nat list list"

text \<open>The inner loop: the rest of the bytes read, written in the chunks the limiter grants.\<close>

function write_chunks ::
    "(real \<Rightarrow> real) \<Rightarrow> bytes \<Rightarrow> relay_side \<Rightarrow> ((io_error + unit) \<times> relay_side) run" where
  "write_chunks fl data w =
     (if data = [] then Returned (Ok (), w)
      else case rs_limiter w of
          None \<Rightarrow> (case write_all data (rs_sink w) of (r, s) \<Rightarrow> Returned (r, w\<lparr>rs_sink := s\<rparr>))
        | Some l \<Rightarrow>
            (case rs_clock w of
               [] \<Rightarrow> Blocked
             | nows # clock \<Rightarrow>
                 (case wait_for_chunk fl nows (length data) l of
                    (None, _) \<Rightarrow> Blocked
                  | (Some chunk, l) \<Rightarrow>
                      (case slice 0 chunk data of
                         None \<Rightarrow> Panicked
                       | Some part \<Rightarrow>
                           (case write_all part (rs_sink w) of
                              (Inl e, s) \<Rightarrow> Returned (Err e, w\<lparr>rs_sink := s, rs_limiter := Some l, rs_clock := clock\<rparr>)
                            | (Inr _, s) \<Rightarrow>
                                write_chunks fl (drop chunk data)
                                  (w\<lparr>rs_sink := s, rs_limiter := Some l, rs_clock := clock\<rparr>))))))"
  by auto
termination
  by (relation "measure (\<lambda>(fl, data, w). length (rs_clock w))") auto

declare write_chunks.simps [simp del]

fun copy_with_limit ::
    "(real \<Rightarrow> real) \<Rightarrow> (io_error + bytes) list \<Rightarrow> u64 \<Rightarrow> relay_side \<Rightarrow> ((io_error + u64) \<times> relay_side) run" where
  "copy_with_limit fl [] tot w = Blocked"
| "copy_with_limit fl (Inl e # reads) tot w = Returned (Err e, w)"
| "copy_with_limit fl (Inr data # reads) tot w =
     (if data = []
      then (case rs_shutdown w of
              Inl e \<Rightarrow> Returned (Err e, w)
            | Inr _ \<Rightarrow> Returned (Ok tot, w\<lparr>rs_closed := True\<rparr>))
      else case write_chunks fl data w of
          Blocked \<Rightarrow> Blocked
        | Panicked \<Rightarrow> Panicked
        | Returned (Inl e, w) \<Rightarrow> Returned (Err e, w)
        | Returned (Inr _, w) \<Rightarrow> copy_with_limit fl reads (saturating_add64 tot (of_nat (length data))) w)"

text \<open>
  Both directions of a connection. \<open>try_join!\<close> ends with the first error; when both directions
  fail, \<open>first\<close> tells whether the first one failed first.
\<close>

definition copy_bidirectional_with_limit ::
    "(real \<Rightarrow> real) \<Rightarrow> bool \<Rightarrow> (io_error + bytes) list \<Rightarrow> relay_side \<Rightarrow> (io_error + bytes) list \<Rightarrow> relay_side \<Rightarrow>
     ((io_error + u64 \<times> u64) \<times> relay_side option \<times> relay_side option) run" where
  "copy_bidirectional_with_limit fl first a_reads b_writer b_reads a_writer =
     (case (copy_with_limit fl a_reads 0 b_writer, copy_with_limit fl b_reads 0 a_writer) of
        (Panicked, _) \<Rightarrow> Panicked
      | (_, Panicked) \<Rightarrow> Panicked
      | (Returned (Inr n, w), Returned (Inr n', w')) \<Rightarrow> Returned (Ok (n, n'), Some w, Some w')
      | (Returned (Inl e, w), Returned (Inl e', w')) \<Rightarrow>
          if first then Returned (Err e, Some w, None) else Returned (Err e', None, Some w')
      | (Returned (Inl e, w), _) \<Rightarrow> Returned (Err e, Some w, None)
      | (_, Returned (Inl e', w')) \<Rightarrow> Returned (Err e', None, Some w')
      | _ \<Rightarrow> Blocked)"

section \<open>Nothing is lost, repeated or reordered\<close>

text \<open>The bytes that arrive before the end of the stream or its first error.\<close>

fun stream_of :: "(io_error + bytes) list \<Rightarrow> bytes" where
  "stream_of [] = []"
| "stream_of (Inl e # reads) = []"
| "stream_of (Inr data # reads) = (if data = [] then [] else data @ stream_of reads)"

lemma write_all_prefix:
  "write_all bs s = (r, s') \<Longrightarrow> \<exists>out. written s' = written s @ out \<and> prefix out bs \<and> (r = Ok () \<longrightarrow> out = bs)"
  by (auto simp: write_all_def take_is_prefix split: option.splits prod.splits if_splits)

lemma write_chunks_prefix:
  "write_chunks fl data w = Returned (r, w') \<Longrightarrow>
    \<exists>out. written (rs_sink w') = written (rs_sink w) @ out \<and> prefix out data \<and> (r = Ok () \<longrightarrow> out = data) \<and>
      rs_closed w' = rs_closed w \<and> rs_shutdown w' = rs_shutdown w"
proof (induction fl data w rule: write_chunks.induct)
  case (1 fl data w)
  show ?case
  proof (cases "data = [] \<or> rs_limiter w = None")
    case True
    with "1.prems" show ?thesis
      by (auto simp: write_chunks.simps[of fl data] split: if_splits prod.splits dest: write_all_prefix)
  next
    case False
    then obtain l where l: "rs_limiter w = Some l" and d: "data \<noteq> []" by auto
    obtain nows clock chunk l' part res s where c: "rs_clock w = nows # clock"
      "wait_for_chunk fl nows (length data) l = (Some chunk, l')" "slice 0 chunk data = Some part"
      "write_all part (rs_sink w) = (res, s)"
      using "1.prems" l d by (simp add: write_chunks.simps[of fl data] split: list.splits prod.splits option.splits)
    let ?w = "w\<lparr>rs_sink := s, rs_limiter := Some l', rs_clock := clock\<rparr>"
    have part: "part = take chunk data" using c(3) by (auto simp: slice_def split: if_splits)
    obtain out where out: "written s = written (rs_sink w) @ out" "prefix out part" "res = Ok () \<longrightarrow> out = part"
      using write_all_prefix[OF c(4)] by blast
    show ?thesis
    proof (cases res)
      case (Inl e)
      with "1.prems" l d c out have "r = Err e" "w' = ?w" by (simp_all add: write_chunks.simps[of fl data])
      then show ?thesis using out part prefix_order.trans[OF out(2)] take_is_prefix by auto
    next
      case (Inr u)
      with "1.prems" l d c have rest: "write_chunks fl (drop chunk data) ?w = Returned (r, w')"
        by (simp add: write_chunks.simps[of fl data])
      from "1.IH"[OF d l c(1) c(2)[symmetric] refl c(3) c(4)[symmetric] Inr rest] obtain out' where
        "written (rs_sink w') = written s @ out'" "prefix out' (drop chunk data)" "r = Ok () \<longrightarrow> out' = drop chunk data"
        "rs_closed w' = rs_closed w" "rs_shutdown w' = rs_shutdown w"
        by auto
      moreover from this(2) have "prefix (part @ out') (take chunk data @ drop chunk data)"
        unfolding part by (simp only: same_prefix_prefix)
      then have "prefix (part @ out') data" by (simp only: append_take_drop_id)
      ultimately show ?thesis
        using out Inr part by (intro exI[of _ "part @ out'"]) auto
    qed
  qed
qed

lemma unat_saturating_length:
  "unat (saturating_add64 n (of_nat (length xs))) = min (unat n + length xs mod 2 ^ 64) (2 ^ 64 - 1)"
  by (simp add: unat_saturating_add64 unat_of_nat)

lemma copy_with_limit_prefix:
  "copy_with_limit fl reads tot w = Returned (r, w') \<Longrightarrow>
    \<exists>out. written (rs_sink w') = written (rs_sink w) @ out \<and> prefix out (stream_of reads) \<and>
      (\<forall>n. r = Ok n \<longrightarrow> out = stream_of reads \<and> rs_closed w')"
proof (induction fl reads tot w rule: copy_with_limit.induct)
  case (3 fl data reads tot w)
  show ?case
  proof (cases "data = []")
    case True
    with "3.prems" show ?thesis by (auto split: sum.splits)
  next
    case False
    then obtain res w1 where w1: "write_chunks fl data w = Returned (res, w1)"
      using "3.prems" by (auto split: run.splits prod.splits)
    from write_chunks_prefix[OF w1] obtain out where out: "written (rs_sink w1) = written (rs_sink w) @ out"
      "prefix out data" "res = Ok () \<longrightarrow> out = data" by blast
    show ?thesis
    proof (cases res)
      case (Inl e)
      with "3.prems" False w1 have "r = Err e" "w' = w1" by auto
      then show ?thesis using out False by (auto intro: prefix_order.trans)
    next
      case (Inr u)
      with "3.prems" False w1 have
        "copy_with_limit fl reads (saturating_add64 tot (of_nat (length data))) w1 = Returned (r, w')" by auto
      from "3.IH"[OF False w1 refl Inr this] obtain out' where
        "written (rs_sink w') = written (rs_sink w1) @ out'" "prefix out' (stream_of reads)"
        "\<forall>n. r = Ok n \<longrightarrow> out' = stream_of reads \<and> rs_closed w'" by blast
      then show ?thesis using out Inr False by (intro exI[of _ "out @ out'"]) auto
    qed
  qed
qed auto

text \<open>Without a limiter and with a writer that works, a stream that ends is relayed to its end.\<close>

fun ends_stream :: "(io_error + bytes) list \<Rightarrow> bool" where
  "ends_stream [] = False"
| "ends_stream (Inl e # reads) = False"
| "ends_stream (Inr data # reads) = (data = [] \<or> ends_stream reads)"

lemma copy_without_limit:
  assumes "ends_stream reads" and "rs_limiter w = None" and "failing (rs_sink w) = None" and "rs_shutdown w = Ok ()"
  shows "\<exists>n w'. copy_with_limit fl reads tot w = Returned (Ok n, w') \<and>
    unat n = min (unat tot + length (stream_of reads)) (2 ^ 64 - 1) \<or> 2 ^ 64 \<le> length (stream_of reads)"
  using assms
proof (induction fl reads tot w rule: copy_with_limit.induct)
  case (3 fl data reads tot w)
  show ?case
  proof (cases "data = []")
    case True
    have "unat tot < 2 ^ 64" by (rule order_less_le_trans[OF unsigned_less]) simp
    with True "3.prems" show ?thesis by simp
  next
    case False
    let ?w = "w\<lparr>rs_sink := rs_sink w\<lparr>written := written (rs_sink w) @ data\<rparr>\<rparr>"
    have w: "write_chunks fl data w = Returned (Ok (), ?w)"
      using False "3.prems" by (simp add: write_chunks.simps)
    let ?tot = "saturating_add64 tot (of_nat (length data))"
    show ?thesis
    proof (cases "2 ^ 64 \<le> length data + length (stream_of reads)")
      case small: False
      have "unat ?tot = min (unat tot + length data) (2 ^ 64 - 1)"
        using small by (simp add: unat_saturating_length)
      moreover obtain n w' where "copy_with_limit fl reads ?tot ?w = Returned (Ok n, w')"
        "unat n = min (unat ?tot + length (stream_of reads)) (2 ^ 64 - 1)"
        using "3.IH"[OF False w refl] "3.prems" False small by auto
      ultimately show ?thesis using w False by auto
    qed (use False in simp)
  qed
qed auto

section \<open>The rate-limited stream\<close>

text \<open>
  The stream of a proxied connection: its limiter and the deadline of the sleep that a write is
  waiting for. The QUIC stream below it belongs to quinn: \<open>send\<close> is the result of its
  \<open>poll_write\<close> on a buffer. \<open>elapsed\<close> tells whether a sleep with some deadline is over.
\<close>

record TcpProxyStream =
  ts_tx_limiter :: "BandwidthLimiter option"
  ts_limiter_sleep :: "nat option"

definition proxy_stream_new :: "BandwidthLimiter option \<Rightarrow> TcpProxyStream" where
  "proxy_stream_new tx_limiter = \<lparr>ts_tx_limiter = tx_limiter, ts_limiter_sleep = None\<rparr>"

text \<open>
  The loop that asks for a budget, one clock reading per turn. A sleep that is over at once
  makes the loop ask again.
\<close>

fun budget_loop ::
    "(real \<Rightarrow> real) \<Rightarrow> (nat \<Rightarrow> bool) \<Rightarrow> nat list \<Rightarrow> nat \<Rightarrow> BandwidthLimiter \<Rightarrow> (nat option \<times> nat option) \<times> BandwidthLimiter" where
  "budget_loop fl elapsed [] len l = ((None, None), l)"
| "budget_loop fl elapsed (now # nows) len l =
     (case take_stream_budget fl now len l of
        (LimReady granted, l) \<Rightarrow> ((Some granted, None), l)
      | (LimWait duration, l) \<Rightarrow>
          if elapsed (now + duration) then budget_loop fl elapsed nows len l
          else ((None, Some (now + duration)), l))"

definition poll_write ::
    "(real \<Rightarrow> real) \<Rightarrow> (nat \<Rightarrow> bool) \<Rightarrow> nat list \<Rightarrow> (bytes \<Rightarrow> (io_error + nat) poll) \<Rightarrow> bytes \<Rightarrow> TcpProxyStream \<Rightarrow>
     (io_error + nat) poll \<times> TcpProxyStream" where
  "poll_write fl elapsed nows send buf s =
     (case ts_tx_limiter s of
        None \<Rightarrow> (send buf, s)
      | Some l \<Rightarrow>
          if (\<exists>deadline. ts_limiter_sleep s = Some deadline \<and> \<not> elapsed deadline) then (Pending, s)
          else
            (case budget_loop fl elapsed nows (length buf) l of
               ((Some granted, _), l) \<Rightarrow>
                 (send (take granted buf), s\<lparr>ts_tx_limiter := Some l, ts_limiter_sleep := None\<rparr>)
             | ((None, sleep), l) \<Rightarrow>
                 (Pending, s\<lparr>ts_tx_limiter := Some l, ts_limiter_sleep := sleep\<rparr>)))"

lemma budget_loop_bounds:
  assumes "rounding fl" and "limiter_ok fl l" and "0 < len"
    and "budget_loop fl elapsed nows len l = ((Some granted, sleep), l')"
  shows "1 \<le> granted \<and> granted \<le> len \<and> granted \<le> MAX_WRITE_CHUNK \<and> limiter_ok fl l'"
  using assms(2,4)
proof (induction nows arbitrary: l)
  case (Cons now nows)
  obtain d l1 where b: "take_stream_budget fl now len l = (d, l1)" by fastforce
  then have ok: "limiter_ok fl l1" using take_stream_budget_ok[OF assms(1) Cons.prems(1), of now len] by simp
  show ?case
  proof (cases d)
    case (LimReady n)
    with b have "take_stream_budget fl now len l = (LimReady n, l1)" by simp
    from take_stream_budget_ready[OF assms(1) Cons.prems(1) assms(3) this] show ?thesis
      using Cons.prems(2) b LimReady by auto
  next
    case (LimWait w)
    with Cons.prems(2) b have "budget_loop fl elapsed nows len l1 = ((Some granted, sleep), l')"
      by (auto split: if_splits)
    then show ?thesis by (rule Cons.IH[OF ok])
  qed
qed simp

section \<open>Properties\<close>





text \<open>
  The budget of a rate-limited write is charged before the QUIC stream is asked: when that
  stream is blocked, the write is pending, nothing has been sent, and the limiter has lost the
  tokens of the whole grant. Each further poll is charged again.
\<close>

lemma poll_write_charges_unsent:
  assumes "rounding fl" and "limiter_ok fl l" and "ts_tx_limiter s = Some l" and "ts_limiter_sleep s = None"
    and "buf \<noteq> []" and "1 \<le> bl_tokens (refill fl now l)" and "\<And>b. send b = Pending"
  shows "\<exists>granted s'. poll_write fl elapsed (now # nows) send buf s = (Pending, s') \<and> 1 \<le> granted \<and>
    ts_tx_limiter s' = Some ((refill fl now l)\<lparr>bl_tokens := fl (bl_tokens (refill fl now l) - real granted)\<rparr>) \<and>
    ts_limiter_sleep s' = None"
proof -
  obtain granted l' where b: "take_stream_budget fl now (length buf) l = (LimReady granted, l')"
    using assms(5,6) by (simp add: take_stream_budget_def Let_def)
  have len: "0 < length buf" using assms(5) by simp
  note r = take_stream_budget_ready[OF assms(1,2) len b]
  have "poll_write fl elapsed (now # nows) send buf s = (Pending, s\<lparr>ts_tx_limiter := Some l', ts_limiter_sleep := None\<rparr>)"
    using assms(3,4,7) b by (simp add: poll_write_def)
  with r(1,6) show ?thesis by (intro exI[of _ granted]) auto
qed

end
