(* ===== verification/Speedtest.thy ===== *)
theory Speedtest
  imports Rust_Text Errors
begin

text \<open>
  The speed test protocol (\<open>extras/src/speedtest.rs\<close>): its messages, the server's handlers and
  the client's transfers. A connection is a byte source and a byte sink. Reads and writes may
  be short: the functions \<open>reads\<close> and \<open>writes\<close> choose how many bytes the i-th call transfers. A
  transfer limited by time is given the number of calls that complete before its deadline.
  The lemmas connect both ends: whatever the chunking, a transfer of a given size moves and
  reports exactly that many bytes.
\<close>

section \<open>Short reads and writes\<close>

definition read_some :: "nat \<Rightarrow> nat \<Rightarrow> source \<Rightarrow> io_error + bytes \<times> source" where
  "read_some cap k s =
     (if pending s = []
      then (case ending s of AtEof \<Rightarrow> Ok ([], s) | AtError e \<Rightarrow> Err e)
      else let n = max 1 (min k (min cap (length (pending s))))
           in Ok (take n (pending s), s\<lparr>pending := drop n (pending s)\<rparr>))"

definition write_some :: "nat \<Rightarrow> bytes \<Rightarrow> sink \<Rightarrow> (io_error + nat) \<times> sink" where
  "write_some k bs w =
     (let n = min (max 1 k) (length bs) in
      case write_all (take n bs) w of
        (Inl e, w) \<Rightarrow> (Err e, w)
      | (Inr _, w) \<Rightarrow> (Ok n, w))"

definition read_uint :: "nat \<Rightarrow> source \<Rightarrow> io_error + 'a::len word \<times> source" where
  "read_uint n s = and_then (read_exact async_eof n s) (\<lambda>(bs, s). Ok (be_word bs, s))"

section \<open>Messages\<close>

definition SPEEDTEST_DEST :: string where
  "SPEEDTEST_DEST = ''@SpeedTest''"

definition SPEEDTEST_ADDR :: string where
  "SPEEDTEST_ADDR = ''@SpeedTest:0''"

definition CHUNK_SIZE :: nat where
  "CHUNK_SIZE = 64 * 1024"

definition TYPE_DOWNLOAD :: u8 where
  "TYPE_DOWNLOAD = 1"

definition TYPE_UPLOAD :: u8 where
  "TYPE_UPLOAD = 2"

definition U32_MAX :: u32 where
  "U32_MAX = 0xffffffff"

record TransferSummary =
  tr_elapsed :: nat
  tr_bytes :: u64

definition read_download_request :: "source \<Rightarrow> io_error + u32 \<times> source" where
  "read_download_request s = read_uint 4 s"

definition write_download_request :: "u32 \<Rightarrow> sink \<Rightarrow> (io_error + unit) \<times> sink" where
  "write_download_request len w = write_all (TYPE_DOWNLOAD # be_bytes 4 len) w"

definition read_download_response :: "source \<Rightarrow> io_error + (bool \<times> string) \<times> source" where
  "read_download_response s =
     and_then (read_uint 1 s) (\<lambda>(status :: u8, s).
     and_then (read_uint 2 s) (\<lambda>(msg_len :: u16, s).
     and_then (read_exact async_eof (unat msg_len) s) (\<lambda>(msg, s).
     Ok ((status = 0, from_utf8_lossy msg), s))))"

definition write_status_message :: "bool \<Rightarrow> string \<Rightarrow> sink \<Rightarrow> (io_error + unit) \<times> sink" where
  "write_status_message ok message w =
     (if length message > 65535
      then (Err (IoError EkInvalidInput ''speedtest message too long''), w)
      else write_all ((if ok then 0 else 1) # be_bytes 2 (of_nat (length message) :: u16) @ as_bytes message) w)"

definition write_download_response :: "bool \<Rightarrow> string \<Rightarrow> sink \<Rightarrow> (io_error + unit) \<times> sink" where
  "write_download_response ok message w = write_status_message ok message w"

definition read_upload_request :: "source \<Rightarrow> io_error + u32 \<times> source" where
  "read_upload_request s = read_uint 4 s"

definition write_upload_request :: "u32 \<Rightarrow> sink \<Rightarrow> (io_error + unit) \<times> sink" where
  "write_upload_request len w = write_all (TYPE_UPLOAD # be_bytes 4 len) w"

definition read_upload_response :: "source \<Rightarrow> io_error + (bool \<times> string) \<times> source" where
  "read_upload_response s =
     and_then (read_uint 1 s) (\<lambda>(status :: u8, s).
     and_then (read_uint 2 s) (\<lambda>(msg_len :: u16, s).
     and_then (read_exact async_eof (unat msg_len) s) (\<lambda>(msg, s).
     Ok ((status = 0, from_utf8_lossy msg), s))))"

definition write_upload_response :: "bool \<Rightarrow> string \<Rightarrow> sink \<Rightarrow> (io_error + unit) \<times> sink" where
  "write_upload_response ok message w = write_status_message ok message w"

text \<open>Durations are nanoseconds.\<close>

definition read_upload_summary :: "source \<Rightarrow> io_error + (nat \<times> u32) \<times> source" where
  "read_upload_summary s =
     and_then (read_uint 4 s) (\<lambda>(millis :: u32, s).
     and_then (read_uint 4 s) (\<lambda>(n :: u32, s).
     Ok ((unat millis * 10 ^ 6, n), s)))"

definition write_upload_summary :: "nat \<Rightarrow> u32 \<Rightarrow> sink \<Rightarrow> (io_error + unit) \<times> sink" where
  "write_upload_summary duration n w =
     (let millis = of_nat (min (duration div 10 ^ 6) (unat U32_MAX)) :: u32 in
      write_all (be_bytes 4 millis @ be_bytes 4 n) w)"

section \<open>The server\<close>

definition is_peer_closed :: "io_error \<Rightarrow> bool" where
  "is_peer_closed e \<longleftrightarrow> io_kind e \<in> {EkBrokenPipe, EkConnectionReset, EkConnectionAborted, EkUnexpectedEof}"

text \<open>The endless download: \<open>Blocked\<close> means that it is still sending after \<open>turns\<close> chunks.\<close>

primrec send_forever :: "nat \<Rightarrow> bytes \<Rightarrow> sink \<Rightarrow> ((io_error + unit) \<times> sink) run" where
  "send_forever 0 chunk w = Blocked"
| "send_forever (Suc turns) chunk w =
     (case write_all chunk w of
        (Inl e, w) \<Rightarrow> Returned (if is_peer_closed e then Ok () else Err e, w)
      | (Inr _, w) \<Rightarrow> send_forever turns chunk w)"

function send_sized :: "nat \<Rightarrow> bytes \<Rightarrow> sink \<Rightarrow> (io_error + unit) \<times> sink" where
  "send_sized remaining chunk w =
     (if remaining > 0
      then let n = min remaining CHUNK_SIZE in
        (case write_all (take n chunk) w of
           (Inl e, w) \<Rightarrow> (Err e, w)
         | (Inr _, w) \<Rightarrow> send_sized (remaining - n) chunk w)
      else (Ok (), w))"
  by auto
termination
  by (relation "measure (\<lambda>(remaining, _). remaining)") (auto simp: CHUNK_SIZE_def)

declare send_sized.simps [simp del]

text \<open>The random bytes of the chunk are the parameter \<open>chunk\<close>.\<close>

definition handle_download ::
    "nat \<Rightarrow> bytes \<Rightarrow> source \<Rightarrow> sink \<Rightarrow> ((io_error + unit) \<times> source \<times> sink) run" where
  "handle_download turns chunk s w =
     (case read_download_request s of
        Inl e \<Rightarrow> Returned (Err e, s, w)
      | Inr (requested, s) \<Rightarrow>
          (case write_download_response True ''OK'' w of
             (Inl e, w) \<Rightarrow> Returned (Err e, s, w)
           | (Inr _, w) \<Rightarrow>
               if requested = U32_MAX
               then (case send_forever turns chunk w of
                       Returned (r, w) \<Rightarrow> Returned (r, s, w) | Blocked \<Rightarrow> Blocked | Panicked \<Rightarrow> Panicked)
               else (case send_sized (unat requested) chunk w of (r, w) \<Rightarrow> Returned (r, s, w))))"

function count_upload :: "(nat \<Rightarrow> nat) \<Rightarrow> nat \<Rightarrow> u64 \<Rightarrow> source \<Rightarrow> (io_error + u64) \<times> source" where
  "count_upload reads i tot s =
     (case read_some CHUNK_SIZE (reads i) s of
        Inl e \<Rightarrow> (Err e, s)
      | Inr (bs, s') \<Rightarrow>
          if bs = [] then (Ok tot, s')
          else count_upload reads (Suc i) (saturating_add64 tot (of_nat (length bs))) s')"
  by auto
termination
  by (relation "measure (\<lambda>(_, _, _, s). length (pending s))") (auto simp: read_some_def Let_def split: if_splits stream_end.splits)

function recv_sized :: "(nat \<Rightarrow> nat) \<Rightarrow> nat \<Rightarrow> nat \<Rightarrow> source \<Rightarrow> (io_error + unit) \<times> source" where
  "recv_sized reads i remaining s =
     (if remaining > 0
      then (case read_some (min remaining CHUNK_SIZE) (reads i) s of
              Inl e \<Rightarrow> (Err e, s)
            | Inr (bs, s') \<Rightarrow>
                if bs = [] then (Err (IoError EkUnexpectedEof ''upload stream closed early''), s')
                else recv_sized reads (Suc i) (remaining - length bs) s')
      else (Ok (), s))"
  by auto
termination
  by (relation "measure (\<lambda>(_, _, remaining, _). remaining)") auto

declare count_upload.simps [simp del] recv_sized.simps [simp del]

definition handle_upload ::
    "(nat \<Rightarrow> nat) \<Rightarrow> nat \<Rightarrow> source \<Rightarrow> sink \<Rightarrow> (io_error + unit) \<times> source \<times> sink" where
  "handle_upload reads elapsed s w =
     (case read_upload_request s of
        Inl e \<Rightarrow> (Err e, s, w)
      | Inr (requested, s) \<Rightarrow>
          (case write_upload_response True ''OK'' w of
             (Inl e, w) \<Rightarrow> (Err e, s, w)
           | (Inr _, w) \<Rightarrow>
               if requested = U32_MAX
               then (case count_upload reads 0 0 s of
                       (Inl e, s) \<Rightarrow> (if is_peer_closed e then Ok () else Err e, s, w)
                     | (Inr tot, s) \<Rightarrow>
                         (case write_upload_summary elapsed (of_nat (min (unat tot) (unat U32_MAX))) w of
                            (r, w) \<Rightarrow> (r, s, w)))
               else (case recv_sized reads 0 (unat requested) s of
                       (Inl e, s) \<Rightarrow> (Err e, s, w)
                     | (Inr _, s) \<Rightarrow>
                         (case write_upload_summary elapsed requested w of (r, w) \<Rightarrow> (r, s, w)))))"

definition serve_conn ::
    "nat \<Rightarrow> bytes \<Rightarrow> (nat \<Rightarrow> nat) \<Rightarrow> nat \<Rightarrow> source \<Rightarrow> sink \<Rightarrow> ((io_error + unit) \<times> source \<times> sink) run" where
  "serve_conn turns chunk reads elapsed s w =
     (case read_exact async_eof 1 s of
        Inl e \<Rightarrow> Returned (Err e, s, w)
      | Inr (typ, s) \<Rightarrow>
          if hd typ = TYPE_DOWNLOAD then handle_download turns chunk s w
          else if hd typ = TYPE_UPLOAD then Returned (handle_upload reads elapsed s w)
          else Returned (Err (IoError EkInvalidData (''unknown speedtest request type '' @ dec (unat (hd typ)))), s, w))"

section \<open>The client\<close>

text \<open>
  The loop of a download limited by size, and of one limited by time, which ends after \<open>turns\<close>
  reads or at the end of the stream. Both return the number of bytes.
\<close>

function download_sized :: "(nat \<Rightarrow> nat) \<Rightarrow> nat \<Rightarrow> nat \<Rightarrow> u64 \<Rightarrow> source \<Rightarrow> (io_error + u64) \<times> source" where
  "download_sized reads i remaining tot s =
     (if remaining = 0 then (Ok tot, s)
      else (case read_some (min remaining CHUNK_SIZE) (reads i) s of
              Inl e \<Rightarrow> (Err e, s)
            | Inr (bs, s') \<Rightarrow>
                if bs = [] then (Err (IoError EkUnexpectedEof ''download stream closed early''), s')
                else download_sized reads (Suc i) (remaining - length bs) (tot + of_nat (length bs)) s'))"
  by auto
termination
  by (relation "measure (\<lambda>(_, _, remaining, _). remaining)") auto

declare download_sized.simps [simp del]

primrec download_timed :: "nat \<Rightarrow> (nat \<Rightarrow> nat) \<Rightarrow> u64 \<Rightarrow> source \<Rightarrow> (io_error + u64) \<times> source" where
  "download_timed 0 reads tot s = (Ok tot, s)"
| "download_timed (Suc turns) reads tot s =
     (case read_some CHUNK_SIZE (reads turns) s of
        Inl e \<Rightarrow> (Err e, s)
      | Inr (bs, s') \<Rightarrow>
          if bs = [] then (Ok tot, s')
          else download_timed turns reads (tot + of_nat (length bs)) s')"

definition rejected :: "string \<Rightarrow> string \<Rightarrow> io_error" where
  "rejected kind message = IoError EkOther (''server rejected '' @ kind @ '' request: '' @ message)"

definition download ::
    "u32 \<Rightarrow> nat \<Rightarrow> nat \<Rightarrow> (nat \<Rightarrow> nat) \<Rightarrow> nat \<Rightarrow> source \<Rightarrow> sink \<Rightarrow> (io_error + TransferSummary) \<times> source \<times> sink" where
  "download data_size duration turns reads elapsed s w =
     (let req_size = (if duration = 0 then data_size else U32_MAX) in
      case write_download_request req_size w of
        (Inl e, w) \<Rightarrow> (Err e, s, w)
      | (Inr _, w) \<Rightarrow>
          (case read_download_response s of
             Inl e \<Rightarrow> (Err e, s, w)
           | Inr ((ok, message), s) \<Rightarrow>
               if \<not> ok then (Err (rejected ''download'' message), s, w)
               else (case (if duration = 0 then download_sized reads 0 (unat data_size) 0 s
                           else download_timed turns reads 0 s) of
                       (Inl e, s) \<Rightarrow> (Err e, s, w)
                     | (Inr tot, s) \<Rightarrow> (Ok \<lparr>tr_elapsed = elapsed, tr_bytes = tot\<rparr>, s, w))))"

function upload_sized :: "(nat \<Rightarrow> nat) \<Rightarrow> nat \<Rightarrow> nat \<Rightarrow> sink \<Rightarrow> (io_error + unit) \<times> sink" where
  "upload_sized writes i remaining w =
     (if remaining = 0 then (Ok (), w)
      else (case write_some (writes i) (replicate (min remaining CHUNK_SIZE) 0) w of
              (Inl e, w) \<Rightarrow> (Err e, w)
            | (Inr n, w) \<Rightarrow>
                if n = 0 then (Err (IoError EkWriteZero ''upload stream wrote zero bytes''), w)
                else upload_sized writes (Suc i) (remaining - n) w))"
  by auto
termination
  by (relation "measure (\<lambda>(_, _, remaining, _). remaining)") auto

declare upload_sized.simps [simp del]

primrec upload_timed :: "nat \<Rightarrow> (nat \<Rightarrow> nat) \<Rightarrow> sink \<Rightarrow> (io_error + unit) \<times> sink" where
  "upload_timed 0 writes w = (Ok (), w)"
| "upload_timed (Suc turns) writes w =
     (case write_some (writes turns) (replicate CHUNK_SIZE 0) w of
        (Inl e, w) \<Rightarrow> (Err e, w)
      | (Inr n, w) \<Rightarrow>
          if n = 0 then (Err (IoError EkWriteZero ''upload stream wrote zero bytes''), w)
          else upload_timed turns writes w)"

text \<open>\<open>shutdown\<close> is the result of shutting the writing side down, done only in the timed mode.\<close>

definition upload ::
    "u32 \<Rightarrow> nat \<Rightarrow> nat \<Rightarrow> (nat \<Rightarrow> nat) \<Rightarrow> io_error + unit \<Rightarrow> source \<Rightarrow> sink \<Rightarrow>
     (io_error + TransferSummary) \<times> source \<times> sink" where
  "upload data_size duration turns writes shutdown s w =
     (let req_size = (if duration = 0 then data_size else U32_MAX) in
      case write_upload_request req_size w of
        (Inl e, w) \<Rightarrow> (Err e, s, w)
      | (Inr _, w) \<Rightarrow>
          (case read_upload_response s of
             Inl e \<Rightarrow> (Err e, s, w)
           | Inr ((ok, message), s) \<Rightarrow>
               if \<not> ok then (Err (rejected ''upload'' message), s, w)
               else (case (if duration = 0 then upload_sized writes 0 (unat data_size) w
                           else upload_timed turns writes w) of
                       (Inl e, w) \<Rightarrow> (Err e, s, w)
                     | (Inr _, w) \<Rightarrow>
                         (case and_then (if duration = 0 then Ok () else shutdown) (\<lambda>_. read_upload_summary s) of
                            Inl e \<Rightarrow> (Err e, s, w)
                          | Inr ((elapsed, n), s) \<Rightarrow>
                              (Ok \<lparr>tr_elapsed = elapsed, tr_bytes = of_nat (unat n)\<rparr>, s, w)))))"

section \<open>Transfers of a given size\<close>

lemma read_uint_front [codec]:
  assumes "LENGTH('a::len) = 8 * n"
  shows "read_uint n (s\<lparr>pending := be_bytes n (w :: 'a word) @ rest\<rparr>) = Ok (w, s\<lparr>pending := rest\<rparr>)"
  using read_exact_front[of "be_bytes n w" n async_eof rest s] be_word_be_bytes[OF assms, of w]
  by (simp add: read_uint_def)

lemma read_some_progress:
  assumes "pending s \<noteq> []" and "0 < cap"
  shows "\<exists>n. 0 < n \<and> n \<le> cap \<and> n \<le> length (pending s) \<and>
    read_some cap k s = Ok (take n (pending s), s\<lparr>pending := drop n (pending s)\<rparr>)"
  using assms by (intro exI[of _ "max 1 (min k (min cap (length (pending s))))"]) (auto simp: read_some_def Let_def Suc_le_eq)

lemma recv_sized_all:
  "n \<le> length (pending s) \<Longrightarrow> recv_sized reads i n s = (Ok (), s\<lparr>pending := drop n (pending s)\<rparr>)"
proof (induction reads i n s rule: recv_sized.induct)
  case (1 reads i n s)
  show ?case
  proof (cases "0 < n")
    case True
    with "1.prems" have "pending s \<noteq> []" "0 < min n CHUNK_SIZE" by (auto simp: CHUNK_SIZE_def)
    from read_some_progress[OF this, of "reads i"] obtain m where m: "0 < m" "m \<le> n" "m \<le> length (pending s)"
      "read_some (min n CHUNK_SIZE) (reads i) s = Ok (take m (pending s), s\<lparr>pending := drop m (pending s)\<rparr>)" by auto
    then have "take m (pending s) \<noteq> []" by auto
    from "1.IH"[OF True m(4) refl this] m "1.prems" True show ?thesis
      by (subst recv_sized.simps) auto
  qed (simp add: recv_sized.simps)
qed

lemma download_sized_all:
  "n \<le> length (pending s) \<Longrightarrow>
    download_sized reads i n tot s = (Ok (tot + of_nat n), s\<lparr>pending := drop n (pending s)\<rparr>)"
proof (induction reads i n tot s rule: download_sized.induct)
  case (1 reads i n tot s)
  show ?case
  proof (cases "n = 0")
    case False
    with "1.prems" have "pending s \<noteq> []" "0 < min n CHUNK_SIZE" by (auto simp: CHUNK_SIZE_def)
    from read_some_progress[OF this, of "reads i"] obtain m where m: "0 < m" "m \<le> n" "m \<le> length (pending s)"
      "read_some (min n CHUNK_SIZE) (reads i) s = Ok (take m (pending s), s\<lparr>pending := drop m (pending s)\<rparr>)" by auto
    then have ne: "take m (pending s) \<noteq> []" by auto
    let ?s = "s\<lparr>pending := drop m (pending s)\<rparr>"
    have len: "length (take m (pending s)) = m" using m(3) by simp
    have "download_sized reads i n tot s = download_sized reads (Suc i) (n - m) (tot + of_nat m) ?s"
      using False m(4) ne len by (subst download_sized.simps) simp
    also have "\<dots> = (Ok (tot + of_nat m + of_nat (n - m)), ?s\<lparr>pending := drop (n - m) (pending ?s)\<rparr>)"
      using "1.IH"[OF False m(4) refl ne] m(2,3) "1.prems" len by simp
    also have "tot + of_nat m + of_nat (n - m) = (tot + of_nat n :: u64)"
      using m(2) by (metis add.assoc le_add_diff_inverse of_nat_add)
    finally show ?thesis using m(2) by simp
  qed (simp add: download_sized.simps)
qed

lemma send_sized_healthy:
  assumes "length chunk = CHUNK_SIZE"
  shows "failing w = None \<Longrightarrow> \<exists>body. length body = n \<and>
    send_sized n chunk w = (Ok (), w\<lparr>written := written w @ body\<rparr>)"
  using assms
proof (induction n chunk w rule: send_sized.induct)
  case (1 n chunk w)
  show ?case
  proof (cases "0 < n")
    case True
    let ?m = "min n CHUNK_SIZE" and ?w = "w\<lparr>written := written w @ take (min n CHUNK_SIZE) chunk\<rparr>"
    have w: "write_all (take ?m chunk) w = (Ok (), ?w)" using "1.prems"(1) by simp
    have "failing ?w = None" using "1.prems"(1) by simp
    from "1.IH"[OF True refl w[symmetric] refl this "1.prems"(2)] obtain body where "length body = n - ?m"
      "send_sized (n - ?m) chunk ?w = (Ok (), ?w\<lparr>written := written ?w @ body\<rparr>)" by blast
    then show ?thesis
      using True "1.prems" by (intro exI[of _ "take ?m chunk @ body"]) (simp add: send_sized.simps[of n] Let_def)
  qed (simp add: send_sized.simps)
qed

lemma upload_sized_healthy:
  "failing w = None \<Longrightarrow> upload_sized writes i n w = (Ok (), w\<lparr>written := written w @ replicate n 0\<rparr>)"
proof (induction writes i n w rule: upload_sized.induct)
  case (1 writes i n w)
  show ?case
  proof (cases "n = 0")
    case False
    let ?m = "min (max 1 (writes i)) (min n CHUNK_SIZE)" and ?z = "replicate (min n CHUNK_SIZE) 0 :: bytes"
    let ?w = "w\<lparr>written := written w @ replicate ?m 0\<rparr>"
    have m: "0 < ?m" "?m \<le> n" using False by (auto simp: CHUNK_SIZE_def)
    have w: "write_some (writes i) ?z w = (Ok ?m, ?w)"
      using "1.prems" by (simp add: write_some_def Let_def min.commute)
    have "upload_sized writes (Suc i) (n - ?m) ?w = (Ok (), ?w\<lparr>written := written ?w @ replicate (n - ?m) 0\<rparr>)"
      by (rule "1.IH"[OF False w[symmetric] refl]) (use m "1.prems" in auto)
    moreover have "replicate ?m 0 @ replicate (n - ?m) 0 = replicate n (0 :: u8)"
      using m(2) by (simp add: replicate_add[symmetric])
    ultimately show ?thesis using False m(1) w by (simp add: upload_sized.simps[of writes i n])
  qed (simp add: upload_sized.simps)
qed

section \<open>Messages read back\<close>

definition ok_message :: bytes where
  "ok_message = [0, 0, 2, 79, 75]"

lemma write_ok: "failing w = None \<Longrightarrow> write_status_message True ''OK'' w = (Ok (), w\<lparr>written := written w @ ok_message\<rparr>)"
proof -
  have "0 # be_bytes 2 (2 :: u16) @ as_bytes ''OK'' = ok_message" by code_simp
  then show "failing w = None \<Longrightarrow> ?thesis" by (simp add: write_status_message_def numeral_2_eq_2)
qed

lemma read_ok: "read_download_response (s\<lparr>pending := ok_message @ rest\<rparr>) = Ok ((True, ''OK''), s\<lparr>pending := rest\<rparr>)"
proof -
  have "be_word [0] = (0 :: u8)" "be_word [0, 2] = (2 :: u16)" "from_utf8_lossy [79, 75] = ''OK''" by code_simp+
  then show ?thesis
    by (simp add: read_download_response_def read_uint_def ok_message_def read_exact_def)
qed

lemma read_upload_response_eq: "read_upload_response s = read_download_response s"
  by (simp add: read_upload_response_def read_download_response_def)

lemma read_upload_summary_front:
  "read_upload_summary (s\<lparr>pending := be_bytes 4 millis @ be_bytes 4 n @ rest\<rparr>) =
    Ok ((unat (millis :: u32) * 10 ^ 6, n), s\<lparr>pending := rest\<rparr>)"
  by (simp add: read_upload_summary_def read_uint_front)

section \<open>Properties\<close>

text \<open>
  C20: A download of a given size is exact: whatever the chunking of the reads, the server sends
  as many bytes as the client asks for, and the client, reading the server's bytes, reports
  exactly this number and leaves nothing unread.
\<close>

theorem speedtest_download_exact:
  assumes "data_size \<noteq> U32_MAX" and "length chunk = CHUNK_SIZE"
  shows "\<exists>request reply. download data_size 0 turns reads elapsed \<lparr>pending = reply, ending = fin\<rparr> new_vec =
      (Ok \<lparr>tr_elapsed = elapsed, tr_bytes = of_nat (unat data_size)\<rparr>, \<lparr>pending = [], ending = fin\<rparr>,
       new_vec\<lparr>written := request\<rparr>) \<and>
    serve_conn turns' chunk reads' elapsed' \<lparr>pending = request, ending = fin'\<rparr> new_vec =
      Returned (Ok (), \<lparr>pending = [], ending = fin'\<rparr>, new_vec\<lparr>written := reply\<rparr>)"
proof -
  let ?w = "new_vec\<lparr>written := ok_message\<rparr>"
  obtain body where body: "length body = unat data_size"
    "send_sized (unat data_size) chunk ?w = (Ok (), ?w\<lparr>written := ok_message @ body\<rparr>)"
    using send_sized_healthy[OF assms(2), of ?w "unat data_size"] by (auto simp: new_vec_def)
  let ?req = "TYPE_DOWNLOAD # be_bytes 4 data_size"
  have "read_download_request \<lparr>pending = be_bytes 4 data_size, ending = fin'\<rparr> = Ok (data_size, \<lparr>pending = [], ending = fin'\<rparr>)"
    using read_uint_front[of 4 data_size "[]" "\<lparr>pending = [], ending = fin'\<rparr>"] by (simp add: read_download_request_def)
  then have "serve_conn turns' chunk reads' elapsed' \<lparr>pending = ?req, ending = fin'\<rparr> new_vec =
      Returned (Ok (), \<lparr>pending = [], ending = fin'\<rparr>, new_vec\<lparr>written := ok_message @ body\<rparr>)"
    using assms(1) body(2) write_ok[of new_vec]
    by (simp add: serve_conn_def handle_download_def write_download_response_def new_vec_def read_exact_def)
  moreover have "download_sized reads 0 (unat data_size) 0 \<lparr>pending = body, ending = fin\<rparr> =
      (Ok (of_nat (unat data_size)), \<lparr>pending = [], ending = fin\<rparr>)"
    using download_sized_all[of "unat data_size" "\<lparr>pending = body, ending = fin\<rparr>" reads 0 0] body(1) by simp
  then have "download data_size 0 turns reads elapsed \<lparr>pending = ok_message @ body, ending = fin\<rparr> new_vec =
      (Ok \<lparr>tr_elapsed = elapsed, tr_bytes = of_nat (unat data_size)\<rparr>, \<lparr>pending = [], ending = fin\<rparr>,
       new_vec\<lparr>written := ?req\<rparr>)"
    using read_ok[of body "\<lparr>pending = [], ending = fin\<rparr>"]
    by (simp add: download_def write_download_request_def new_vec_def)
  ultimately show ?thesis by blast
qed

theorem speedtest_download_exact_witness:
  "\<exists>request reply. download 5 0 0 (\<lambda>_. 2) 9 \<lparr>pending = reply, ending = AtEof\<rparr> new_vec =
      (Ok \<lparr>tr_elapsed = 9, tr_bytes = of_nat (unat (5 :: u32))\<rparr>, \<lparr>pending = [], ending = AtEof\<rparr>,
       new_vec\<lparr>written := request\<rparr>) \<and>
    serve_conn 0 (replicate CHUNK_SIZE 7) (\<lambda>_. 1) 3 \<lparr>pending = request, ending = AtEof\<rparr> new_vec =
      Returned (Ok (), \<lparr>pending = [], ending = AtEof\<rparr>, new_vec\<lparr>written := reply\<rparr>)"
  by (rule speedtest_download_exact) (simp_all add: U32_MAX_def)

text \<open>
  An upload of a given size is exact: the server reads what the client writes, in whatever
  pieces, and confirms exactly the requested number of bytes with its elapsed time in whole
  milliseconds, which is what the client reports.
\<close>

lemma speedtest_upload_exact:
  assumes "data_size \<noteq> U32_MAX" and "elapsed div 10 ^ 6 < 2 ^ 32"
  shows "\<exists>sent reply. upload data_size 0 turns writes shut \<lparr>pending = reply, ending = fin\<rparr> new_vec =
      (Ok \<lparr>tr_elapsed = elapsed div 10 ^ 6 * 10 ^ 6, tr_bytes = of_nat (unat data_size)\<rparr>,
       \<lparr>pending = [], ending = fin\<rparr>, new_vec\<lparr>written := sent\<rparr>) \<and>
    serve_conn turns' chunk reads elapsed \<lparr>pending = sent, ending = fin'\<rparr> new_vec =
      Returned (Ok (), \<lparr>pending = [], ending = fin'\<rparr>, new_vec\<lparr>written := reply\<rparr>)"
proof -
  let ?ms = "of_nat (elapsed div 10 ^ 6) :: u32" and ?data = "replicate (unat data_size) (0 :: u8)"
  let ?req = "TYPE_UPLOAD # be_bytes 4 data_size" and ?sum = "be_bytes 4 (of_nat (elapsed div 10 ^ 6) :: u32) @ be_bytes 4 data_size"
  have ms: "min (elapsed div 10 ^ 6) (unat U32_MAX) = elapsed div 10 ^ 6" "unat ?ms = elapsed div 10 ^ 6"
    using assms(2) by (simp_all add: U32_MAX_def unat_of_nat)
  have t: "TYPE_UPLOAD \<noteq> TYPE_DOWNLOAD" by (simp add: TYPE_UPLOAD_def TYPE_DOWNLOAD_def)
  have "read_upload_request \<lparr>pending = be_bytes 4 data_size @ ?data, ending = fin'\<rparr> = Ok (data_size, \<lparr>pending = ?data, ending = fin'\<rparr>)"
    using read_uint_front[of 4 data_size ?data "\<lparr>pending = [], ending = fin'\<rparr>"] by (simp add: read_upload_request_def)
  then have "serve_conn turns' chunk reads elapsed \<lparr>pending = ?req @ ?data, ending = fin'\<rparr> new_vec =
      Returned (Ok (), \<lparr>pending = [], ending = fin'\<rparr>, new_vec\<lparr>written := ok_message @ ?sum\<rparr>)"
    using assms(1) t ms(1) write_ok[of new_vec] recv_sized_all[of "unat data_size" "\<lparr>pending = ?data, ending = fin'\<rparr>" reads 0]
    by (simp add: serve_conn_def handle_upload_def write_upload_response_def write_upload_summary_def Let_def
        new_vec_def read_exact_def)
  moreover have "upload data_size 0 turns writes shut \<lparr>pending = ok_message @ ?sum, ending = fin\<rparr> new_vec =
      (Ok \<lparr>tr_elapsed = elapsed div 10 ^ 6 * 10 ^ 6, tr_bytes = of_nat (unat data_size)\<rparr>,
       \<lparr>pending = [], ending = fin\<rparr>, new_vec\<lparr>written := ?req @ ?data\<rparr>)"
    using read_ok[of ?sum "\<lparr>pending = [], ending = fin\<rparr>"] ms(2)
      read_upload_summary_front[of ?ms data_size "[]" "\<lparr>pending = [], ending = fin\<rparr>"]
      upload_sized_healthy[of "new_vec\<lparr>written := ?req\<rparr>" writes 0 "unat data_size"]
    by (simp add: upload_def write_upload_request_def new_vec_def read_upload_response_eq)
  ultimately show ?thesis by blast
qed

end
