(* ===== verification/Endpoint.thy ===== *)
theory Endpoint
  imports Complex_Main Varint Obfs Net_Addr
begin

text \<open>
  QUIC configuration (\<open>core/src/quic.rs\<close>) and the creation of endpoints (the first part of
  \<open>core/src/socket.rs\<close>). Durations are nanoseconds. The environment is a parameter, and so are
  the decimal conversion of \<open>f32\<close> and the socket calls; the configuration objects of quinn are
  records of the values that the code stores in them.
\<close>

section \<open>QUIC configuration\<close>

definition secs :: "nat \<Rightarrow> nat" where
  "secs n = n * 10 ^ 9"

definition DEFAULT_STREAM_RECEIVE_WINDOW :: u64 where
  "DEFAULT_STREAM_RECEIVE_WINDOW = 8 * 1024 * 1024"

definition DEFAULT_CONNECTION_RECEIVE_WINDOW :: u64 where
  "DEFAULT_CONNECTION_RECEIVE_WINDOW = DEFAULT_STREAM_RECEIVE_WINDOW * 5 div 2"

definition DEFAULT_MAX_IDLE_TIMEOUT :: nat where
  "DEFAULT_MAX_IDLE_TIMEOUT = secs 30"

definition DEFAULT_KEEP_ALIVE_PERIOD :: nat where
  "DEFAULT_KEEP_ALIVE_PERIOD = secs 10"

definition DEFAULT_MAX_INCOMING_STREAMS :: u64 where
  "DEFAULT_MAX_INCOMING_STREAMS = 1024"

definition MIN_QUIC_RECEIVE_WINDOW :: u64 where
  "MIN_QUIC_RECEIVE_WINDOW = 16 * 1024"

record QuicTransportConfig =
  qt_stream_receive_window :: u64
  qt_receive_window :: u64
  qt_max_idle_timeout :: nat
  qt_keep_alive_interval :: "nat option"
  qt_max_concurrent_bidi_streams :: "u64 option"
  qt_disable_path_mtu_discovery :: bool

definition client_default :: QuicTransportConfig where
  "client_default =
     \<lparr>qt_stream_receive_window = DEFAULT_STREAM_RECEIVE_WINDOW, qt_receive_window = DEFAULT_CONNECTION_RECEIVE_WINDOW,
      qt_max_idle_timeout = DEFAULT_MAX_IDLE_TIMEOUT, qt_keep_alive_interval = Some DEFAULT_KEEP_ALIVE_PERIOD,
      qt_max_concurrent_bidi_streams = None, qt_disable_path_mtu_discovery = False\<rparr>"

definition server_default :: QuicTransportConfig where
  "server_default =
     \<lparr>qt_stream_receive_window = DEFAULT_STREAM_RECEIVE_WINDOW, qt_receive_window = DEFAULT_CONNECTION_RECEIVE_WINDOW,
      qt_max_idle_timeout = DEFAULT_MAX_IDLE_TIMEOUT, qt_keep_alive_interval = None,
      qt_max_concurrent_bidi_streams = Some DEFAULT_MAX_INCOMING_STREAMS, qt_disable_path_mtu_discovery = False\<rparr>"

text \<open>The environment: the variables with their values, and what their values mean as \<open>f32\<close>.\<close>

datatype f32 = F32Nan | F32Neg | F32 real | F32Inf

record environment =
  env_var :: "string \<Rightarrow> string option"
  env_parse_f32 :: "string \<Rightarrow> f32 option"

fun f32_max_one :: "f32 \<Rightarrow> f32" where
  "f32_max_one F32Nan = F32 1"
| "f32_max_one F32Neg = F32 1"
| "f32_max_one (F32 x) = F32 (max x 1)"
| "f32_max_one F32Inf = F32Inf"

definition env_u64 :: "environment \<Rightarrow> string \<Rightarrow> u64 option" where
  "env_u64 env name = Option.bind (env_var env name) (\<lambda>v. map_option of_nat (parse_uint (2 ^ 64) v))"

definition env_f32 :: "environment \<Rightarrow> string \<Rightarrow> f32 option" where
  "env_f32 env name = Option.bind (env_var env name) (env_parse_f32 env)"

definition env_bool :: "environment \<Rightarrow> string \<Rightarrow> bool option" where
  "env_bool env name =
     Option.bind (env_var env name) (\<lambda>v.
       let v = to_ascii_lowercase (trim v) in
       if v \<in> {''1'', ''true'', ''yes'', ''on''} then Some True
       else if v \<in> {''0'', ''false'', ''no'', ''off''} then Some False
       else None)"

definition quic_varint :: "u64 \<Rightarrow> string \<Rightarrow> CoreError + u64" where
  "quic_varint v field = (if v \<le> MAX_VARINT then Ok v else Err (Config (field @ '' is too large for QUIC varint'')))"

text \<open>An idle timeout is a QUIC varint of milliseconds.\<close>

definition idle_timeout :: "nat \<Rightarrow> CoreError + u64" where
  "idle_timeout d =
     (if d div 10 ^ 6 \<le> unat MAX_VARINT then Ok (of_nat (d div 10 ^ 6)) else Err (Config ''quic.max_idle_timeout is too large''))"

definition clamp64 :: "u64 \<Rightarrow> u64 \<Rightarrow> u64 \<Rightarrow> u64" where
  "clamp64 lo hi v = (if v < lo then lo else if v > hi then hi else v)"

definition u32_max64 :: u64 where
  "u32_max64 = 4294967295"

record AckFrequency =
  af_ack_eliciting_threshold :: "u64 option"
  af_max_ack_delay :: "nat option"
  af_reordering_threshold :: "u64 option"

definition ack_frequency_override :: "environment \<Rightarrow> AckFrequency option" where
  "ack_frequency_override env =
     (if env_bool env ''HY_RS_ACK_ENABLE'' \<noteq> Some True then None
      else Some \<lparr>af_ack_eliciting_threshold = map_option (min u32_max64) (env_u64 env ''HY_RS_ACK_THRESH''),
        af_max_ack_delay = map_option (\<lambda>v. unat v * 10 ^ 6) (env_u64 env ''HY_RS_ACK_MAX_DELAY_MS''),
        af_reordering_threshold = map_option (min u32_max64) (env_u64 env ''HY_RS_ACK_REORDER_THRESHOLD'')\<rparr>)"

record BbrSettings =
  bb_initial_window :: u64
  bb_startup_growth_target :: f32
  bb_startup_rounds :: u64
  bb_exit_startup_on_recovery :: bool
  bb_recover_on_non_persistent_loss :: bool
  bb_loss_reduction_factor :: f32

text \<open>The product of a packet count and 1200 is unchecked; it panics on overflow when overflow checks are on.\<close>

definition mul_1200 :: "bool \<Rightarrow> u64 \<Rightarrow> u64 option" where
  "mul_1200 checks v = (if checks \<and> unat v * 1200 \<ge> 2 ^ 64 then None else Some (v * 1200))"

definition initial_window :: "bool \<Rightarrow> environment \<Rightarrow> u64 option" where
  "initial_window checks env =
     (case env_u64 env ''HY_RS_BBR_INITIAL_WINDOW'' of
        Some v \<Rightarrow> Some v
      | None \<Rightarrow>
          (case env_u64 env ''HY_RS_BBR_INITIAL_WINDOW_PKTS'' of
             Some v \<Rightarrow> mul_1200 checks v
           | None \<Rightarrow> Some (512 * 1200)))"

definition build_brutal_config :: "bool \<Rightarrow> environment \<Rightarrow> BbrSettings option" where
  "build_brutal_config checks env =
     map_option (\<lambda>window.
       \<lparr>bb_initial_window = window,
        bb_startup_growth_target = (case env_f32 env ''HY_RS_BBR_STARTUP_GROWTH'' of Some v \<Rightarrow> v | None \<Rightarrow> F32 1.25),
        bb_startup_rounds = clamp64 1 255 (case env_u64 env ''HY_RS_BBR_STARTUP_ROUNDS'' of Some v \<Rightarrow> v | None \<Rightarrow> 6),
        bb_exit_startup_on_recovery = (env_bool env ''HY_RS_BBR_EXIT_ON_RECOVERY'' = Some True),
        bb_recover_on_non_persistent_loss = (env_bool env ''HY_RS_BBR_RECOVER_NON_PERSISTENT'' = Some True),
        bb_loss_reduction_factor = (case env_f32 env ''HY_RS_BBR_NON_PERSISTENT_LOSS_FACTOR'' of Some v \<Rightarrow> v | None \<Rightarrow> F32 0.25)\<rparr>)
       (initial_window checks env)"

record TransportSettings =
  tr_stream_receive_window :: u64
  tr_receive_window :: u64
  tr_send_window :: u64
  tr_ack_frequency :: "AckFrequency option"
  tr_initial_rtt :: nat
  tr_persistent_congestion_threshold :: u64
  tr_max_idle_timeout :: u64
  tr_keep_alive_interval :: "nat option"
  tr_controller :: BbrSettings
  tr_packet_threshold :: "u64 option"
  tr_time_threshold :: "f32 option"
  tr_segmentation_offload :: "bool option"
  tr_max_concurrent_bidi_streams :: "u64 option"
  tr_mtu_discovery :: bool

definition transport_settings ::
    "environment \<Rightarrow> QuicTransportConfig \<Rightarrow> u64 \<Rightarrow> u64 \<Rightarrow> u64 \<Rightarrow> BbrSettings \<Rightarrow> u64 option \<Rightarrow> TransportSettings" where
  "transport_settings env config sw rw idle controller streams =
     \<lparr>tr_stream_receive_window = sw, tr_receive_window = rw,
      tr_send_window = max (qt_receive_window config) (saturating_mul64 (qt_stream_receive_window config) 8),
      tr_ack_frequency = ack_frequency_override env, tr_initial_rtt = 250 * 10 ^ 6,
      tr_persistent_congestion_threshold =
        (case env_u64 env ''HY_RS_PERSISTENT_CONGESTION_THRESHOLD'' of Some v \<Rightarrow> clamp64 1 u32_max64 v | None \<Rightarrow> 5),
      tr_max_idle_timeout = idle, tr_keep_alive_interval = qt_keep_alive_interval config,
      tr_controller = controller,
      tr_packet_threshold = map_option (clamp64 3 u32_max64) (env_u64 env ''HY_RS_PACKET_THRESHOLD''),
      tr_time_threshold = map_option f32_max_one (env_f32 env ''HY_RS_TIME_THRESHOLD''),
      tr_segmentation_offload = map_option Not (env_bool env ''HY_RS_DISABLE_GSO''),
      tr_max_concurrent_bidi_streams = streams,
      tr_mtu_discovery = (\<not> qt_disable_path_mtu_discovery config)\<rparr>"

definition build_transport_config ::
    "bool \<Rightarrow> environment \<Rightarrow> QuicTransportConfig \<Rightarrow> (CoreError + TransportSettings) option" where
  "build_transport_config checks env config =
     (if qt_stream_receive_window config < MIN_QUIC_RECEIVE_WINDOW
      then Some (Err (Config ''quic.stream_receive_window must be at least 16384''))
      else if qt_receive_window config < MIN_QUIC_RECEIVE_WINDOW
      then Some (Err (Config ''quic.receive_window must be at least 16384''))
      else case and_then (quic_varint (qt_stream_receive_window config) ''quic.stream_receive_window'') (\<lambda>sw.
           and_then (quic_varint (qt_receive_window config) ''quic.receive_window'') (\<lambda>rw.
           and_then (idle_timeout (qt_max_idle_timeout config)) (\<lambda>idle. Ok (sw, rw, idle)))) of
         Inl e \<Rightarrow> Some (Err e)
       | Inr (sw, rw, idle) \<Rightarrow>
           (case build_brutal_config checks env of
              None \<Rightarrow> None
            | Some controller \<Rightarrow> Some (
                and_then (case qt_max_concurrent_bidi_streams config of
                    None \<Rightarrow> Ok None
                  | Some n \<Rightarrow> and_then (quic_varint n ''quic.max_concurrent_bidi_streams'') (\<lambda>n. Ok (Some n))) (\<lambda>streams.
                Ok (transport_settings env config sw rw idle controller streams)))))"

section \<open>Endpoints\<close>

datatype ObfsConfig = Salamander string

definition salamander_error_text :: "SalamanderError \<Rightarrow> string" where
  "salamander_error_text e = (case e of PskTooShort \<Rightarrow> ''PSK must be at least '' @ dec SALAMANDER_PSK_MIN_LEN @ '' bytes'')"

definition build_obfuscator :: "ObfsConfig \<Rightarrow> CoreError + SalamanderObfuscator" where
  "build_obfuscator config =
     (case config of Salamander password \<Rightarrow>
        map_err (\<lambda>e. Config (salamander_error_text e)) (salamander_new (as_bytes password)))"

record socket_api =
  sk_bind :: "SocketAddr \<Rightarrow> io_error + unit"
  sk_set_nonblocking :: "io_error + unit"
  sk_wrap :: "io_error + unit"
  sk_endpoint :: "io_error + unit"

text \<open>An endpoint is represented by the obfuscator of its socket.\<close>

definition make_endpoint ::
    "socket_api \<Rightarrow> SocketAddr \<Rightarrow> ObfsConfig option \<Rightarrow> CoreError + SalamanderObfuscator option" where
  "make_endpoint api bind_addr obfs =
     and_then (map_err core_from_io (sk_bind api bind_addr)) (\<lambda>_.
     and_then (map_err core_from_io (sk_set_nonblocking api)) (\<lambda>_.
     case obfs of
       Some o' \<Rightarrow>
         and_then (map_err core_from_io (sk_wrap api)) (\<lambda>_.
         and_then (build_obfuscator o') (\<lambda>obfuscator.
         and_then (map_err core_from_io (sk_endpoint api)) (\<lambda>_. Ok (Some obfuscator))))
     | None \<Rightarrow> and_then (map_err core_from_io (sk_endpoint api)) (\<lambda>_. Ok None)))"

definition make_server_endpoint ::
    "socket_api \<Rightarrow> SocketAddr \<Rightarrow> ObfsConfig option \<Rightarrow> CoreError + SalamanderObfuscator option" where
  "make_server_endpoint api bind_addr obfs = make_endpoint api bind_addr obfs"

definition make_client_endpoint ::
    "socket_api \<Rightarrow> SocketAddr \<Rightarrow> ObfsConfig option \<Rightarrow> CoreError + SalamanderObfuscator option" where
  "make_client_endpoint api bind_addr obfs =
     and_then (map_err core_from_io (sk_bind api bind_addr)) (\<lambda>_.
     and_then (map_err core_from_io (sk_set_nonblocking api)) (\<lambda>_.
     case obfs of
       Some o' \<Rightarrow>
         and_then (map_err core_from_io (sk_wrap api)) (\<lambda>_.
         and_then (build_obfuscator o') (\<lambda>obfuscator.
         and_then (map_err core_from_io (sk_endpoint api)) (\<lambda>_. Ok (Some obfuscator))))
     | None \<Rightarrow> and_then (map_err core_from_io (sk_endpoint api)) (\<lambda>_. Ok None)))"

section \<open>Facts about the configuration\<close>

definition quic_ok :: "QuicTransportConfig \<Rightarrow> bool" where
  "quic_ok config \<longleftrightarrow>
     MIN_QUIC_RECEIVE_WINDOW \<le> qt_stream_receive_window config \<and> qt_stream_receive_window config \<le> MAX_VARINT \<and>
     MIN_QUIC_RECEIVE_WINDOW \<le> qt_receive_window config \<and> qt_receive_window config \<le> MAX_VARINT \<and>
     qt_max_idle_timeout config div 10 ^ 6 \<le> unat MAX_VARINT \<and>
     (\<forall>n. qt_max_concurrent_bidi_streams config = Some n \<longrightarrow> n \<le> MAX_VARINT)"

lemma build_transport_config_accepts:
  assumes "build_brutal_config checks env \<noteq> None"
  shows "(\<exists>tr. build_transport_config checks env config = Some (Ok tr)) \<longleftrightarrow> quic_ok config"
  using assms
  by (auto simp: build_transport_config_def quic_ok_def quic_varint_def idle_timeout_def and_then_Ok_iff not_less
      split: option.splits sum.splits if_splits)

lemma idle_timeout_millis: "idle_timeout d = Ok n \<Longrightarrow> unat n = d div 10 ^ 6"
proof -
  assume "idle_timeout d = Ok n"
  then have "d div 10 ^ 6 \<le> unat MAX_VARINT" "n = of_nat (d div 10 ^ 6)" by (auto simp: idle_timeout_def split: if_splits)
  moreover have "unat MAX_VARINT < 2 ^ 64" by (simp add: MAX_VARINT_def)
  ultimately show ?thesis by (simp add: unat_of_nat)
qed

lemma build_transport_config_result:
  assumes "build_transport_config checks env config = Some (Ok tr)"
  shows "\<exists>idle controller. idle_timeout (qt_max_idle_timeout config) = Ok idle \<and>
    tr = transport_settings env config (qt_stream_receive_window config) (qt_receive_window config) idle controller
      (qt_max_concurrent_bidi_streams config)"
  using assms
  by (auto simp: build_transport_config_def quic_varint_def and_then_Ok_iff split: option.splits sum.splits if_splits)

lemma build_transport_config_windows:
  assumes "build_transport_config checks env config = Some (Ok tr)"
  shows "tr_stream_receive_window tr = qt_stream_receive_window config" "tr_receive_window tr = qt_receive_window config"
    "tr_max_concurrent_bidi_streams tr = qt_max_concurrent_bidi_streams config"
    "tr_receive_window tr \<le> tr_send_window tr" "tr_keep_alive_interval tr = qt_keep_alive_interval config"
    "unat (tr_max_idle_timeout tr) = qt_max_idle_timeout config div 10 ^ 6"
  using build_transport_config_result[OF assms] by (auto simp: transport_settings_def dest: idle_timeout_millis)

end
