(* ===== verification/Server.thy ===== *)
theory Server
  imports Auth Runtime_IO Relay Speedtest Udp_Server Endpoint
begin

text \<open>
  The server (\<open>core/src/server.rs\<close>): authentication of a connection, its streams and the tasks
  of an authenticated connection. QUIC, HTTP/3 and TLS belong to other crates: their calls are
  parameters with their results, errors already converted as the \<open>?\<close> operator does. A stream
  is a byte source and a byte sink; dialling a target yields what the target will send and
  where its input goes.
\<close>

section \<open>Authentication\<close>

record PasswordAuthenticator =
  pa_password :: string
  pa_auth_id :: string

definition password_new :: "string \<Rightarrow> PasswordAuthenticator" where
  "password_new password = \<lparr>pa_password = password, pa_auth_id = password\<rparr>"

definition with_auth_id :: "string \<Rightarrow> string \<Rightarrow> PasswordAuthenticator" where
  "with_auth_id password auth_id = \<lparr>pa_password = password, pa_auth_id = auth_id\<rparr>"

type_synonym authenticator = "SocketAddr \<Rightarrow> string \<Rightarrow> u64 \<Rightarrow> string option"

definition password_authenticate :: "PasswordAuthenticator \<Rightarrow> authenticator" where
  "password_authenticate p remote_addr auth client_tx =
     (if auth = pa_password p then Some (pa_auth_id p) else None)"

record ServerConfig =
  sc_bind_addr :: SocketAddr
  sc_certificates :: "bytes list"
  sc_private_key :: bytes
  sc_authenticator :: authenticator
  sc_obfs :: "ObfsConfig option"
  sc_speed_test :: bool
  sc_disable_udp :: bool
  sc_udp_idle_timeout :: nat
  sc_bandwidth_max_tx :: u64
  sc_bandwidth_max_rx :: u64
  sc_ignore_client_bandwidth :: bool
  sc_quic :: QuicTransportConfig

record ServerState =
  st_quic :: QuicTransportConfig
  st_authenticator :: authenticator
  st_disable_udp :: bool
  st_speed_test :: bool
  st_udp_idle_timeout :: nat
  st_bandwidth_max_tx :: u64
  st_bandwidth_max_rx :: u64
  st_ignore_client_bandwidth :: bool

text \<open>
  \<open>tls\<close> is the result of building the TLS configuration from certificates and key. The endpoint
  is represented by the obfuscator of its socket.
\<close>

definition server_bind ::
    "bool \<Rightarrow> environment \<Rightarrow> (bytes list \<Rightarrow> bytes \<Rightarrow> CoreError + unit) \<Rightarrow> socket_api \<Rightarrow> ServerConfig \<Rightarrow>
     (CoreError + SalamanderObfuscator option \<times> ServerState) option" where
  "server_bind checks env tls sockets config =
     (if sc_certificates config = [] then Some (Err (Config ''at least one certificate must be provided''))
      else case tls (sc_certificates config) (sc_private_key config) of
        Inl e \<Rightarrow> Some (Err e)
      | Inr _ \<Rightarrow>
          (case build_transport_config checks env (sc_quic config) of
             None \<Rightarrow> None
           | Some (Inl e) \<Rightarrow> Some (Err e)
           | Some (Inr _) \<Rightarrow> Some (
               and_then (make_server_endpoint sockets (sc_bind_addr config) (sc_obfs config)) (\<lambda>endpoint.
               Ok (endpoint,
                 \<lparr>st_quic = sc_quic config,
                  st_authenticator = sc_authenticator config,
                  st_disable_udp = sc_disable_udp config,
                  st_speed_test = sc_speed_test config,
                  st_udp_idle_timeout = (if sc_udp_idle_timeout config = 0 then DEFAULT_UDP_IDLE_TIMEOUT
                                         else sc_udp_idle_timeout config),
                  st_bandwidth_max_tx = sc_bandwidth_max_tx config,
                  st_bandwidth_max_rx = sc_bandwidth_max_rx config,
                  st_ignore_client_bandwidth = sc_ignore_client_bandwidth config\<rparr>)))))"

record 'h http_request =
  rq_method :: string
  rq_path :: string
  rq_host :: "string option"
  rq_headers :: 'h

text \<open>The HTTP/3 side of one connection: the results of its calls.\<close>

record 'h h3_conn =
  h3_connected :: "CoreError + SocketAddr"
  h3_opened :: "CoreError + unit"
  h3_accepted :: "CoreError + bool"
  h3_request :: "CoreError + 'h http_request"
  h3_send_response :: "u16 \<Rightarrow> 'h \<Rightarrow> CoreError + unit"
  h3_finish :: "CoreError + unit"

text \<open>
  What a connection becomes: it ended before a request, it is only kept open, or it is served
  with a send rate. Along with it come the responses sent and the value of the rate target.
\<close>

datatype conn_outcome = NoRequest | KeptOpen | Authenticated u64

definition valid_auth_request :: "'h http_request \<Rightarrow> bool" where
  "valid_auth_request request \<longleftrightarrow>
     rq_method request = ''POST'' \<and> rq_path request = URL_PATH \<and> rq_host request = Some URL_HOST"

definition respond :: "'h h3_conn \<Rightarrow> u16 \<Rightarrow> 'h \<Rightarrow> (CoreError + unit) \<times> (u16 \<times> 'h) list" where
  "respond h3 status headers =
     (case h3_send_response h3 status headers of
        Inl e \<Rightarrow> (Err e, [])
      | Inr _ \<Rightarrow> (h3_finish h3, [(status, headers)]))"

definition reject :: "'h h3_conn \<Rightarrow> 'h \<Rightarrow> (CoreError + conn_outcome) \<times> (u16 \<times> 'h) list \<times> u64" where
  "reject h3 empty_headers =
     (case respond h3 404 empty_headers of
        (Inl e, sent) \<Rightarrow> (Err e, sent, 0)
      | (Inr _, sent) \<Rightarrow> (Ok KeptOpen, sent, 0))"

definition handle_connection ::
    "('h, 'v) header_api \<Rightarrow> 'h \<Rightarrow> rng \<Rightarrow> 'h h3_conn \<Rightarrow> ServerState \<Rightarrow>
     (CoreError + conn_outcome) \<times> (u16 \<times> 'h) list \<times> u64" where
  "handle_connection api empty_headers g h3 state =
     (case and_then (h3_connected h3) (\<lambda>remote. and_then (h3_opened h3) (\<lambda>_.
             and_then (h3_accepted h3) (\<lambda>accepted. Ok (remote, accepted)))) of
        Inl e \<Rightarrow> (Err e, [], 0)
      | Inr (remote, accepted) \<Rightarrow>
        if \<not> accepted then (Ok NoRequest, [], 0)
        else case h3_request h3 of
          Inl e \<Rightarrow> (Err e, [], 0)
        | Inr request \<Rightarrow>
          if \<not> valid_auth_request request then reject h3 empty_headers
          else
            let auth_request = auth_request_from_headers api (rq_headers request) in
            case st_authenticator state remote (aq_auth auth_request) (aq_rx auth_request) of
              None \<Rightarrow> reject h3 empty_headers
            | Some _ \<Rightarrow>
                let actual_tx = (if st_ignore_client_bandwidth state then 0
                                 else negotiated_limit (st_bandwidth_max_tx state) (aq_rx auth_request)) in
                (case auth_response_to_headers api g
                    \<lparr>ap_udp_enabled = \<not> st_disable_udp state, ap_rx = st_bandwidth_max_rx state,
                     ap_rx_auto = st_ignore_client_bandwidth state\<rparr> empty_headers of
                   (Inl e, _) \<Rightarrow> (Err (Protocol e), [], actual_tx)
                 | (Inr _, headers) \<Rightarrow>
                     (case respond h3 STATUS_AUTH_OK headers of
                        (Inl e, sent) \<Rightarrow> (Err e, sent, actual_tx)
                      | (Inr _, sent) \<Rightarrow> (Ok (Authenticated actual_tx), sent, actual_tx))))"

text \<open>The task of \<open>Server::serve\<close> for one incoming connection; \<open>accept\<close> is the result of \<open>accept_with\<close>.\<close>

definition serve_incoming ::
    "bool \<Rightarrow> environment \<Rightarrow> ('h, 'v) header_api \<Rightarrow> 'h \<Rightarrow> rng \<Rightarrow> (TransportSettings \<Rightarrow> CoreError + 'h h3_conn) \<Rightarrow> ServerState \<Rightarrow>
     (CoreError + conn_outcome) option" where
  "serve_incoming checks env api empty_headers g accept state =
     (case build_transport_config checks env (st_quic state) of
        None \<Rightarrow> None
      | Some transport \<Rightarrow>
          Some (and_then transport (\<lambda>transport.
            and_then (accept transport) (\<lambda>h3. fst (handle_connection api empty_headers g h3 state)))))"

section \<open>Streams of an authenticated connection\<close>

definition HEALTH_CHECK_DEST :: string where
  "HEALTH_CHECK_DEST = ''@HealthCheck:0''"

definition is_healthcheck_request :: "string \<Rightarrow> bool" where
  "is_healthcheck_request addr \<longleftrightarrow> trim addr = HEALTH_CHECK_DEST"

definition is_speedtest_request :: "string \<Rightarrow> bool" where
  "is_speedtest_request addr \<longleftrightarrow>
     trim addr = SPEEDTEST_DEST \<or> trim addr = ''@SpeedTest:0'' \<or>
     (case split_once (CHR '':'') addr of Some (host, _) \<Rightarrow> host = SPEEDTEST_DEST | None \<Rightarrow> False)"

text \<open>
  A dialled target: the results of reading from it and its writing side. The sending half of
  the QUIC stream is a relay side without a limiter until the relay starts; \<open>finish\<close> shuts it
  down.
\<close>

record remote_conn =
  rc_reads :: "(io_error + bytes) list"
  rc_writer :: relay_side

text \<open>\<open>RecvStream::read_to_end\<close> with a limit.\<close>

definition read_to_end :: "nat \<Rightarrow> source \<Rightarrow> CoreError + bytes" where
  "read_to_end limit s =
     (if length (pending s) > limit then Err (Transport ''stream too long'')
      else case ending s of AtEof \<Rightarrow> Ok (pending s) | AtError e \<Rightarrow> Err (core_from_io e))"

definition finish :: "relay_side \<Rightarrow> (CoreError + unit) \<times> relay_side" where
  "finish w = (case rs_shutdown w of
     Inl e \<Rightarrow> (Err (core_from_io e), w) | Inr _ \<Rightarrow> (Ok (), w\<lparr>rs_closed := True\<rparr>))"

definition write_response ::
    "rng \<Rightarrow> bool \<Rightarrow> string \<Rightarrow> relay_side \<Rightarrow> ((CoreError + unit) \<times> relay_side) option" where
  "write_response g ok message w =
     map_option (\<lambda>(r, s). (r, w\<lparr>rs_sink := s\<rparr>)) (async_write_tcp_response g (rs_sink w) ok message)"

text \<open>
  Where a stream ends up: the result of the handler, the sending half and the target's writing
  side where a relay was started and ended.
\<close>

record stream_end_state =
  se_result :: "CoreError + unit"
  se_send :: relay_side
  se_remote :: "relay_side option"

abbreviation stopped :: "CoreError + unit \<Rightarrow> relay_side \<Rightarrow> stream_end_state run" where
  "stopped r w \<equiv> Returned \<lparr>se_result = r, se_send = w, se_remote = None\<rparr>"

definition relay_streams ::
    "(real \<Rightarrow> real) \<Rightarrow> bool \<Rightarrow> (io_error + bytes) list \<Rightarrow> remote_conn \<Rightarrow> BandwidthLimiter option \<Rightarrow> relay_side \<Rightarrow>
     stream_end_state run" where
  "relay_streams fl first client_reads remote tx_limiter send =
     (case copy_bidirectional_with_limit fl first client_reads (rc_writer remote) (rc_reads remote)
             (send\<lparr>rs_limiter := tx_limiter\<rparr>) of
        Blocked \<Rightarrow> Blocked
      | Panicked \<Rightarrow> Panicked
      | Returned (_, remote_writer, send_writer) \<Rightarrow>
          Returned \<lparr>se_result = Ok (), se_send = (case send_writer of Some w \<Rightarrow> w | None \<Rightarrow> send),
            se_remote = remote_writer\<rparr>)"

definition health_check_stream :: "rng \<Rightarrow> source \<Rightarrow> relay_side \<Rightarrow> stream_end_state run" where
  "health_check_stream g recv send =
     (case write_response g True ''Connected'' send of
        None \<Rightarrow> Panicked
      | Some (Inl e, send) \<Rightarrow> stopped (Err e) send
      | Some (Inr _, send) \<Rightarrow>
          (case read_to_end 64 recv of
             Inl e \<Rightarrow> stopped (Err e) send
           | Inr body \<Rightarrow>
               if body \<noteq> as_bytes ''ping''
               then (let send = send\<lparr>rs_sink := snd (write_all (as_bytes ''bad-healthcheck'') (rs_sink send))\<rparr> in
                     case finish send of
                       (Inl e, send) \<Rightarrow> stopped (Err e) send
                     | (Inr _, send) \<Rightarrow> stopped (Err (Dial ''invalid healthcheck payload'')) send)
               else (case write_all (as_bytes ''pong'') (rs_sink send) of
                       (Inl e, s) \<Rightarrow> stopped (Err (core_from_io e)) (send\<lparr>rs_sink := s\<rparr>)
                     | (Inr _, s) \<Rightarrow> (case finish (send\<lparr>rs_sink := s\<rparr>) of (r, send) \<Rightarrow> stopped r send))))"

definition refuse_stream :: "rng \<Rightarrow> string \<Rightarrow> relay_side \<Rightarrow> stream_end_state run" where
  "refuse_stream g message send =
     (case write_response g False message send of
        None \<Rightarrow> Panicked
      | Some (_, send) \<Rightarrow>
          (case finish send of
             (Inl e, send) \<Rightarrow> stopped (Err e) send
           | (Inr _, send) \<Rightarrow> stopped (Err (Dial message)) send))"

definition accept_stream ::
    "(real \<Rightarrow> real) \<Rightarrow> bool \<Rightarrow> rng \<Rightarrow> (io_error + bytes) list \<Rightarrow> remote_conn \<Rightarrow> BandwidthLimiter option \<Rightarrow> relay_side \<Rightarrow>
     stream_end_state run" where
  "accept_stream fl first g client_reads remote tx_limiter send =
     (case write_response g True ''Connected'' send of
        None \<Rightarrow> Panicked
      | Some (Inl e, send) \<Rightarrow> stopped (Err e) send
      | Some (Inr _, send) \<Rightarrow> relay_streams fl first client_reads remote tx_limiter send)"

text \<open>
  \<open>dial\<close> is \<open>TcpStream::connect\<close>, \<open>speedtest\<close> the connection of a fresh speed test server, and
  \<open>client_reads\<close> how the rest of the client's stream is read.
\<close>

definition handle_tcp_stream ::
    "(real \<Rightarrow> real) \<Rightarrow> bool \<Rightarrow> rng \<Rightarrow> (string \<Rightarrow> io_error + remote_conn) \<Rightarrow> remote_conn \<Rightarrow>
     (source \<Rightarrow> (io_error + bytes) list) \<Rightarrow> bool \<Rightarrow> BandwidthLimiter option \<Rightarrow> source \<Rightarrow> relay_side \<Rightarrow>
     stream_end_state run" where
  "handle_tcp_stream fl first g dial speedtest client_reads speed_test_enabled tx_limiter recv send =
     (case read_framed_tcp_request recv of
        Inl e \<Rightarrow> stopped (Err e) send
      | Inr (req_addr, recv) \<Rightarrow>
          if is_healthcheck_request req_addr then health_check_stream g recv send
          else if is_speedtest_request req_addr
          then if \<not> speed_test_enabled then refuse_stream g ''speed test disabled'' send
               else accept_stream fl first g (client_reads recv) speedtest tx_limiter send
          else case dial req_addr of
              Inr remote \<Rightarrow> accept_stream fl first g (client_reads recv) remote tx_limiter send
            | Inl e \<Rightarrow> refuse_stream g (io_message e) send)"

text \<open>The accept loop: the streams handed to handlers, and how the loop ended, if it did.\<close>

fun handle_authenticated_streams :: "(ConnectionError + 's) list \<Rightarrow> 's list \<times> (CoreError + unit) option" where
  "handle_authenticated_streams [] = ([], None)"
| "handle_authenticated_streams (Inl e # rest) =
     ([], Some (case e of
        ApplicationClosed \<Rightarrow> Ok ()
      | LocallyClosed \<Rightarrow> Ok ()
      | OtherConnectionError text \<Rightarrow> Err (core_from_connection (\<lambda>t. t) text)))"
| "handle_authenticated_streams (Inr s # rest) =
     (case handle_authenticated_streams rest of (ss, r) \<Rightarrow> (s # ss, r))"

text \<open>
  The two tasks of a connection; the first to end decides. \<open>join_error\<close> is the text of the join
  error of that task, when it panicked or was cancelled.
\<close>

definition handle_authenticated_connection ::
    "(real \<Rightarrow> real) \<Rightarrow> nat \<Rightarrow> ServerState \<Rightarrow> u64 \<Rightarrow> (BandwidthLimiter option \<Rightarrow> CoreError + unit) \<Rightarrow>
     (nat \<Rightarrow> BandwidthLimiter option \<Rightarrow> CoreError + unit) \<Rightarrow> string option \<Rightarrow> bool \<Rightarrow> CoreError + unit" where
  "handle_authenticated_connection fl now state actual_tx streams udp join_error tcp_first =
     (let tx_limiter = limiter_optional fl now actual_tx in
      if st_disable_udp state then streams tx_limiter
      else case join_error of
          Some text \<Rightarrow> Err (Transport text)
        | None \<Rightarrow> if tcp_first then streams tx_limiter else udp (st_udp_idle_timeout state) tx_limiter)"

end
