(* ===== verification/Client.thy ===== *)
theory Client
  imports Server Udp_Client
begin

text \<open>
  The client (\<open>core/src/client.rs\<close>) and its health check (\<open>core/src/health.rs\<close>). As in the
  server, the calls into QUIC, TLS and HTTP/3 are parameters. The lemmas put client and server
  together: the bytes one end writes are the bytes the other reads.
\<close>

section \<open>Connecting\<close>

definition CLOSE_ERR_CODE_OK :: u32 where
  "CLOSE_ERR_CODE_OK = 0x100"

definition CLOSE_ERR_CODE_PROTOCOL_ERROR :: u32 where
  "CLOSE_ERR_CODE_PROTOCOL_ERROR = 0x101"

record ClientTlsConfig =
  ct_insecure :: bool
  ct_root_certificates :: "bytes list"
  ct_pinned_certificate_sha256 :: "bytes option"

record ClientConfig =
  cc_server_addr :: SocketAddr
  cc_server_name :: string
  cc_auth :: string
  cc_bandwidth_max_tx :: u64
  cc_bandwidth_max_rx :: u64
  cc_obfs :: "ObfsConfig option"
  cc_tls :: ClientTlsConfig
  cc_quic :: QuicTransportConfig

definition client_config_new :: "SocketAddr \<Rightarrow> string \<Rightarrow> ClientConfig" where
  "client_config_new server_addr server_name =
     \<lparr>cc_server_addr = server_addr, cc_server_name = server_name, cc_auth = [], cc_bandwidth_max_tx = 0,
      cc_bandwidth_max_rx = 0, cc_obfs = None, cc_tls = \<lparr>ct_insecure = False, ct_root_certificates = [],
      ct_pinned_certificate_sha256 = None\<rparr>, cc_quic = client_default\<rparr>"

record HandshakeInfo =
  hi_udp_enabled :: bool
  hi_tx :: u64

record Client =
  cl_udp_manager :: "ClientUdpManager option"
  cl_tx_limiter :: "BandwidthLimiter option"

text \<open>
  What the peer presented as its identity: a certificate chain or something else. A close is
  its error code and its reason.
\<close>

datatype peer_identity = Certificates "bytes list" | OtherIdentity

type_synonym close = "u32 \<times> string"

definition downcast_certificates :: "peer_identity \<Rightarrow> CoreError + bytes list" where
  "downcast_certificates identity =
     (case identity of
        Certificates certs \<Rightarrow> Ok certs
      | OtherIdentity \<Rightarrow> Err (Tls ''unexpected peer identity type''))"

definition verify_pinned_certificate ::
    "(bytes \<Rightarrow> bytes) \<Rightarrow> peer_identity option \<Rightarrow> bytes option \<Rightarrow> (CoreError + unit) \<times> close list" where
  "verify_pinned_certificate sha256 identity expected_hash =
     (case expected_hash of
        None \<Rightarrow> (Ok (), [])
      | Some expected \<Rightarrow>
          (case identity of
             None \<Rightarrow> (Err (Tls ''peer did not present a certificate''), [])
           | Some identity \<Rightarrow>
               (case downcast_certificates identity of
                  Inl e \<Rightarrow> (Err e, [])
                | Inr [] \<Rightarrow> (Err (Tls ''peer did not present an end-entity certificate''), [])
                | Inr (certificate # _) \<Rightarrow>
                    if sha256 certificate = expected then (Ok (), [])
                    else (Err (Tls ''no certificate matches the pinned SHA-256 hash''),
                          [(CLOSE_ERR_CODE_PROTOCOL_ERROR, ''tls pin mismatch'')]))))"

definition bind_addr_for :: "SocketAddr \<Rightarrow> SocketAddr" where
  "bind_addr_for server_addr =
     (case server_addr of
        SocketV4 _ _ \<Rightarrow> socket_addr_new (IpV4 (Ipv4Addr 0 0 0 0)) 0
      | SocketV6 _ _ _ _ \<Rightarrow> socket_addr_new (IpV6 (Ipv6Addr 0 0 0 0 0 0 0 0)) 0)"

text \<open>
  The calls a connection attempt makes: the sockets, building the TLS configuration, connecting,
  opening HTTP/3, building and exchanging the request. \<open>nt_parse_uri\<close> splits a URI into its host
  and path.
\<close>

record 'h client_net =
  nt_env :: environment
  nt_sockets :: socket_api
  nt_tls :: "ClientTlsConfig \<Rightarrow> CoreError + unit"
  nt_connect :: "SocketAddr \<Rightarrow> string \<Rightarrow> CoreError + peer_identity option"
  nt_h3 :: "CoreError + unit"
  nt_parse_uri :: "string \<Rightarrow> CoreError + string option \<times> string"
  nt_exchange :: "'h http_request \<Rightarrow> CoreError + u16 \<times> 'h"

definition build_client_config :: "bool \<Rightarrow> 'h client_net \<Rightarrow> ClientConfig \<Rightarrow> (CoreError + TransportSettings) option" where
  "build_client_config checks net config =
     (case nt_tls net (cc_tls config) of
        Inl e \<Rightarrow> Some (Err e)
      | Inr _ \<Rightarrow> build_transport_config checks (nt_env net) (cc_quic config))"

text \<open>The part of \<open>Client::connect\<close> after the endpoint and its configuration exist.\<close>

definition client_handshake ::
    "(real \<Rightarrow> real) \<Rightarrow> nat \<Rightarrow> (bytes \<Rightarrow> bytes) \<Rightarrow> ('h, 'v) header_api \<Rightarrow> 'h \<Rightarrow> rng \<Rightarrow> 'h client_net \<Rightarrow> ClientConfig \<Rightarrow>
     (CoreError + Client \<times> HandshakeInfo) \<times> close list" where
  "client_handshake fl now sha256 api empty_headers g net config =
     (case nt_connect net (cc_server_addr config) (cc_server_name config) of
        Inl e \<Rightarrow> (Err e, [])
      | Inr identity \<Rightarrow>
          (case verify_pinned_certificate sha256 identity (ct_pinned_certificate_sha256 (cc_tls config)) of
             (Inl e, closes) \<Rightarrow> (Err e, closes)
           | (Inr _, closes) \<Rightarrow>
               (case and_then (nt_h3 net) (\<lambda>_. nt_parse_uri net (''https://'' @ URL_HOST @ URL_PATH)) of
                  Inl e \<Rightarrow> (Err e, closes)
                | Inr (host, path) \<Rightarrow>
                    (case auth_request_to_headers api g
                        \<lparr>aq_auth = cc_auth config, aq_rx = cc_bandwidth_max_rx config\<rparr> empty_headers of
                       (Inl e, _) \<Rightarrow> (Err (Protocol e), closes)
                     | (Inr _, headers) \<Rightarrow>
                         (case nt_exchange net \<lparr>rq_method = ''POST'', rq_path = path, rq_host = host, rq_headers = headers\<rparr> of
                            Inl e \<Rightarrow> (Err e, closes)
                          | Inr (status, response_headers) \<Rightarrow>
                              if status \<noteq> STATUS_AUTH_OK
                              then (Err (Authentication status),
                                    closes @ [(CLOSE_ERR_CODE_PROTOCOL_ERROR, ''auth failed'')])
                              else
                                let auth_response = auth_response_from_headers api response_headers;
                                    tx = (if ap_rx_auto auth_response then 0
                                          else negotiated_limit (cc_bandwidth_max_tx config) (ap_rx auth_response));
                                    udp_manager = (if ap_udp_enabled auth_response then Some manager_new else None)
                                in (Ok (\<lparr>cl_udp_manager = udp_manager, cl_tx_limiter = limiter_optional fl now tx\<rparr>,
                                        \<lparr>hi_udp_enabled = ap_udp_enabled auth_response, hi_tx = tx\<rparr>), closes))))))"

definition client_connect ::
    "bool \<Rightarrow> (real \<Rightarrow> real) \<Rightarrow> nat \<Rightarrow> (bytes \<Rightarrow> bytes) \<Rightarrow> ('h, 'v) header_api \<Rightarrow> 'h \<Rightarrow> rng \<Rightarrow> 'h client_net \<Rightarrow> ClientConfig \<Rightarrow>
     ((CoreError + Client \<times> HandshakeInfo) \<times> close list) option" where
  "client_connect checks fl now sha256 api empty_headers g net config =
     (if cc_server_name config = [] then Some (Err (Config ''server_name must not be empty''), [])
      else case make_client_endpoint (nt_sockets net) (bind_addr_for (cc_server_addr config)) (cc_obfs config) of
        Inl e \<Rightarrow> Some (Err e, [])
      | Inr _ \<Rightarrow>
          (case build_client_config checks net config of
             None \<Rightarrow> None
           | Some (Inl e) \<Rightarrow> Some (Err e, [])
           | Some (Inr _) \<Rightarrow> Some (client_handshake fl now sha256 api empty_headers g net config)))"

section \<open>Streams and sessions\<close>

text \<open>A proxied stream: the rest of what the server sends, the sending half, the rate-limited writer.\<close>

type_synonym tcp_stream = "source \<times> sink \<times> TcpProxyStream"

definition client_tcp ::
    "rng \<Rightarrow> CoreError + sink \<times> source \<Rightarrow> string \<Rightarrow> Client \<Rightarrow> ((CoreError + tcp_stream) \<times> sink option) option" where
  "client_tcp g open_bi addr client =
     (case open_bi of
        Inl e \<Rightarrow> Some (Err e, None)
      | Inr (send, recv) \<Rightarrow>
          (case async_write_tcp_request g send addr of
             None \<Rightarrow> None
           | Some (Inl e, send) \<Rightarrow> Some (Err e, Some send)
           | Some (Inr _, send) \<Rightarrow>
               (case async_read_tcp_response recv of
                  Inl e \<Rightarrow> Some (Err e, Some send)
                | Inr ((ok, message), recv) \<Rightarrow>
                    if \<not> ok then Some (Err (Dial message), Some send)
                    else Some (Ok (recv, send, proxy_stream_new (cl_tx_limiter client)), Some send))))"

definition client_udp_with_config :: "nat \<Rightarrow> Client \<Rightarrow> CoreError + Client" where
  "client_udp_with_config message_channel_size client =
     (case cl_udp_manager client of
        None \<Rightarrow> Err (Dial ''UDP not enabled'')
      | Some manager \<Rightarrow>
          and_then (new_udp_check message_channel_size manager) (\<lambda>_.
            Ok (client\<lparr>cl_udp_manager := Some (new_udp_insert message_channel_size manager)\<rparr>)))"

definition client_udp :: "Client \<Rightarrow> CoreError + Client" where
  "client_udp client = client_udp_with_config DEFAULT_CLIENT_UDP_MESSAGE_CHANNEL_SIZE client"

definition client_close :: "close list" where
  "client_close = [(CLOSE_ERR_CODE_OK, [])]"

definition HEALTH_CHECK_REQUEST :: bytes where
  "HEALTH_CHECK_REQUEST = as_bytes ''ping''"

definition HEALTH_CHECK_RESPONSE :: bytes where
  "HEALTH_CHECK_RESPONSE = as_bytes ''pong''"

text \<open>
  The health check. The stream's writes are not limited in size here: \<open>write_all\<close> on it is
  \<open>write_all\<close> on the sending half. \<open>shutdown\<close> is the result of shutting it down.
\<close>

definition run_client_health_check ::
    "rng \<Rightarrow> CoreError + sink \<times> source \<Rightarrow> io_error + unit \<Rightarrow> Client \<Rightarrow> ((CoreError + unit) \<times> sink option) option" where
  "run_client_health_check g open_bi shutdown client =
     (case client_tcp g open_bi HEALTH_CHECK_DEST client of
        None \<Rightarrow> None
      | Some (Inl e, send) \<Rightarrow> Some (Err e, send)
      | Some (Inr (recv, send, _), _) \<Rightarrow>
          (case write_all HEALTH_CHECK_REQUEST send of
             (Inl e, send) \<Rightarrow> Some (Err (core_from_io e), Some send)
           | (Inr _, send) \<Rightarrow>
               (case shutdown of
                  Inl e \<Rightarrow> Some (Err (core_from_io e), Some send)
                | Inr _ \<Rightarrow>
                    (case ending recv of
                       AtError e \<Rightarrow> Some (Err (core_from_io e), Some send)
                     | AtEof \<Rightarrow>
                         if pending recv \<noteq> HEALTH_CHECK_RESPONSE
                         then Some (Err (Dial ''unexpected healthcheck response''), Some send)
                         else Some (Ok (), Some send)))))"

section \<open>Client and server together\<close>

lemma handle_connection_accepts:
  assumes "headers_ok api" and "rng_ok g" and "h3_connected h3 = Ok remote" and "h3_opened h3 = Ok ()"
    and "h3_accepted h3 = Ok True" and "h3_request h3 = Ok request" and "valid_auth_request request"
    and "auth_request_from_headers api (rq_headers request) = \<lparr>aq_auth = auth, aq_rx = rx\<rparr>"
    and "st_authenticator state remote auth rx = Some auth_id"
    and "\<And>status headers. h3_send_response h3 status headers = Ok ()" and "h3_finish h3 = Ok ()"
  shows "\<exists>headers. handle_connection api empty_headers g h3 state =
      (Ok (Authenticated (if st_ignore_client_bandwidth state then 0 else negotiated_limit (st_bandwidth_max_tx state) rx)),
       [(STATUS_AUTH_OK, headers)],
       if st_ignore_client_bandwidth state then 0 else negotiated_limit (st_bandwidth_max_tx state) rx) \<and>
    auth_response_from_headers api headers =
      \<lparr>ap_udp_enabled = \<not> st_disable_udp state,
       ap_rx = (if st_ignore_client_bandwidth state then 0 else st_bandwidth_max_rx state),
       ap_rx_auto = st_ignore_client_bandwidth state\<rparr>"
proof -
  obtain headers where h: "auth_response_to_headers api g
      \<lparr>ap_udp_enabled = \<not> st_disable_udp state, ap_rx = st_bandwidth_max_rx state,
       ap_rx_auto = st_ignore_client_bandwidth state\<rparr> empty_headers = (Ok (), headers)"
    "auth_response_from_headers api headers = \<lparr>ap_udp_enabled = \<not> st_disable_udp state,
       ap_rx = (if st_ignore_client_bandwidth state then 0 else st_bandwidth_max_rx state),
       ap_rx_auto = st_ignore_client_bandwidth state\<rparr>"
    using auth_response_headers[OF assms(1,2)] by (fastforce split: if_splits)
  then show ?thesis
    using assms(3-11) by (simp add: handle_connection_def respond_def Let_def del: negotiated_limit.simps)
qed

lemma handle_connection_rejects:
  assumes "h3_connected h3 = Ok remote" and "h3_opened h3 = Ok ()" and "h3_accepted h3 = Ok True"
    and "h3_request h3 = Ok request" and "auth_request_from_headers api (rq_headers request) = \<lparr>aq_auth = auth, aq_rx = rx\<rparr>"
    and "\<not> valid_auth_request request \<or> st_authenticator state remote auth rx = None"
    and "\<And>status headers. h3_send_response h3 status headers = Ok ()" and "h3_finish h3 = Ok ()"
  shows "handle_connection api empty_headers g h3 state = (Ok KeptOpen, [(404, empty_headers)], 0)"
  using assms by (auto simp: handle_connection_def reject_def respond_def Let_def)

text \<open>A server that answers each request on a fresh connection from \<open>remote\<close>.\<close>

definition served :: "SocketAddr \<Rightarrow> 'h http_request \<Rightarrow> 'h h3_conn" where
  "served remote request = \<lparr>h3_connected = Ok remote, h3_opened = Ok (), h3_accepted = Ok True,
     h3_request = Ok request, h3_send_response = (\<lambda>_ _. Ok ()), h3_finish = Ok ()\<rparr>"

definition server_reply ::
    "('h, 'v) header_api \<Rightarrow> 'h \<Rightarrow> rng \<Rightarrow> SocketAddr \<Rightarrow> ServerState \<Rightarrow> 'h http_request \<Rightarrow> CoreError + u16 \<times> 'h" where
  "server_reply api empty_headers g remote state request =
     (case handle_connection api empty_headers g (served remote request) state of
        (_, reply # _, _) \<Rightarrow> Ok reply
      | _ \<Rightarrow> Err (Transport ''connection closed''))"

text \<open>A network on which every call succeeds and the peer's identity passes the pin of the configuration.\<close>

definition connects :: "bool \<Rightarrow> (bytes \<Rightarrow> bytes) \<Rightarrow> 'h client_net \<Rightarrow> ClientConfig \<Rightarrow> bool" where
  "connects checks sha256 net config \<longleftrightarrow> cc_server_name config \<noteq> [] \<and>
     (\<exists>ep. make_client_endpoint (nt_sockets net) (bind_addr_for (cc_server_addr config)) (cc_obfs config) = Ok ep) \<and>
     (\<exists>tr. build_client_config checks net config = Some (Ok tr)) \<and> nt_h3 net = Ok () \<and>
     nt_parse_uri net ''https://hysteria/auth'' = Ok (Some ''hysteria'', ''/auth'') \<and>
     (\<exists>identity. nt_connect net (cc_server_addr config) (cc_server_name config) = Ok identity \<and>
        (\<forall>pin. ct_pinned_certificate_sha256 (cc_tls config) = Some pin \<longrightarrow>
           (\<exists>cert certs. identity = Some (Certificates (cert # certs)) \<and> sha256 cert = pin)))"

lemma auth_uri: "''https://'' @ URL_HOST @ URL_PATH = ''https://hysteria/auth''"
  by (simp add: URL_HOST_def URL_PATH_def)

lemma client_connect_connects:
  assumes "connects checks sha256 net config" and "headers_ok api" and "rng_ok g" and "visible (cc_auth config)"
  shows "\<exists>request. valid_auth_request request \<and>
    auth_request_from_headers api (rq_headers request) = \<lparr>aq_auth = cc_auth config, aq_rx = cc_bandwidth_max_rx config\<rparr> \<and>
    client_connect checks fl now sha256 api empty_headers g net config = Some
      (case nt_exchange net request of
         Inl e \<Rightarrow> (Err e, [])
       | Inr (status, headers) \<Rightarrow>
           if status \<noteq> STATUS_AUTH_OK
           then (Err (Authentication status), [(CLOSE_ERR_CODE_PROTOCOL_ERROR, ''auth failed'')])
           else
             let response = auth_response_from_headers api headers;
                 tx = (if ap_rx_auto response then 0 else negotiated_limit (cc_bandwidth_max_tx config) (ap_rx response))
             in (Ok (\<lparr>cl_udp_manager = (if ap_udp_enabled response then Some manager_new else None),
                      cl_tx_limiter = limiter_optional fl now tx\<rparr>,
                     \<lparr>hi_udp_enabled = ap_udp_enabled response, hi_tx = tx\<rparr>), []))"
proof -
  let ?rq = "\<lparr>aq_auth = cc_auth config, aq_rx = cc_bandwidth_max_rx config\<rparr>"
  obtain headers where h: "auth_request_to_headers api g ?rq empty_headers = (Ok (), headers)"
    "auth_request_from_headers api headers = ?rq"
    using auth_request_headers[OF assms(2,3), of ?rq] assms(4) by auto
  obtain identity where id: "nt_connect net (cc_server_addr config) (cc_server_name config) = Ok identity"
    "verify_pinned_certificate sha256 identity (ct_pinned_certificate_sha256 (cc_tls config)) = (Ok (), [])"
    using assms(1) unfolding connects_def
    by (cases "ct_pinned_certificate_sha256 (cc_tls config)")
      (auto simp: verify_pinned_certificate_def downcast_certificates_def)
  let ?request = "\<lparr>rq_method = ''POST'', rq_path = ''/auth'', rq_host = Some ''hysteria'', rq_headers = headers\<rparr>"
  have valid: "valid_auth_request ?request" by (simp add: valid_auth_request_def URL_HOST_def URL_PATH_def)
  obtain ep tr where net:
    "make_client_endpoint (nt_sockets net) (bind_addr_for (cc_server_addr config)) (cc_obfs config) = Ok ep"
    "build_client_config checks net config = Some (Ok tr)" "nt_h3 net = Ok ()" "cc_server_name config \<noteq> []"
    "nt_parse_uri net ''https://hysteria/auth'' = Ok (Some ''hysteria'', ''/auth'')"
    using assms(1) by (auto simp: connects_def)
  show ?thesis
    using h by (intro exI[of _ ?request], cases "nt_exchange net ?request")
      (simp_all add: valid net id client_connect_def client_handshake_def URL_HOST_def URL_PATH_def Let_def del: negotiated_limit.simps split: prod.split)
qed

lemma negotiated_limit_bounds:
  "negotiated_limit a b = 0 \<longleftrightarrow> a = 0 \<and> b = 0"
  "a \<noteq> 0 \<Longrightarrow> negotiated_limit a b \<le> a" "b \<noteq> 0 \<Longrightarrow> negotiated_limit a b \<le> b"
  by (auto simp: min_def)

section \<open>Relayed streams\<close>

definition healthy :: "relay_side \<Rightarrow> bool" where
  "healthy w \<longleftrightarrow> failing (rs_sink w) = None \<and> rs_shutdown w = Ok () \<and> rs_limiter w = None"

text \<open>Relaying two streams that end, with writers that work and no limiter, delivers both in full.\<close>

lemma copy_healthy:
  assumes "ends_stream reads" and "healthy w"
  shows "\<exists>n w'. copy_with_limit fl reads tot w = Returned (Ok n, w') \<and>
    written (rs_sink w') = written (rs_sink w) @ stream_of reads \<and> rs_closed w'"
  using assms
proof (induction fl reads tot w rule: copy_with_limit.induct)
  case (3 fl data reads tot w)
  show ?case
  proof (cases "data = []")
    case False
    let ?w = "w\<lparr>rs_sink := rs_sink w\<lparr>written := written (rs_sink w) @ data\<rparr>\<rparr>"
    have w: "write_chunks fl data w = Returned (Ok (), ?w)" "healthy ?w"
      using False "3.prems" by (simp_all add: write_chunks.simps healthy_def)
    from "3.IH"[OF False w(1) refl refl _ w(2)] "3.prems"(1) False w(1) show ?thesis by auto
  qed (use "3.prems" in \<open>simp add: healthy_def\<close>)
qed auto

lemma relay_streams_healthy:
  assumes "ends_stream client_reads" and "ends_stream (rc_reads remote)" and "healthy (rc_writer remote)" and "healthy send"
  shows "\<exists>send' remote'. relay_streams fl first client_reads remote None send =
      Returned \<lparr>se_result = Ok (), se_send = send', se_remote = Some remote'\<rparr> \<and>
    written (rs_sink send') = written (rs_sink send) @ stream_of (rc_reads remote) \<and> rs_closed send' \<and>
    written (rs_sink remote') = written (rs_sink (rc_writer remote)) @ stream_of client_reads \<and> rs_closed remote'"
proof -
  have "send\<lparr>rs_limiter := None\<rparr> = send" using assms(4) by (simp add: healthy_def)
  then show ?thesis
    using copy_healthy[OF assms(1,3), of fl 0] copy_healthy[OF assms(2,4), of fl 0]
    by (auto simp: relay_streams_def copy_bidirectional_with_limit_def)
qed

lemma write_response_healthy:
  assumes "rng_ok g" and "length message \<le> MAX_MESSAGE_LENGTH" and "str_ok message" and "healthy send"
  shows "\<exists>frame. write_response g ok message send =
      Some (Ok (), send\<lparr>rs_sink := (rs_sink send)\<lparr>written := written (rs_sink send) @ frame\<rparr>\<rparr>) \<and>
    (\<forall>rest. async_read_tcp_response (s\<lparr>pending := frame @ rest\<rparr>) = Ok ((ok, message), s\<lparr>pending := rest\<rparr>))"
  using response_frame[OF assms(1-3), of "rs_sink send" ok s] assms(4)
  by (auto simp: write_response_def healthy_def)

lemma str_ok_connected: "str_ok ''Connected''" "length ''Connected'' \<le> MAX_MESSAGE_LENGTH"
  by code_simp (simp add: MAX_MESSAGE_LENGTH_def)

lemma healthy_written: "healthy w \<Longrightarrow> healthy (w\<lparr>rs_sink := (rs_sink w)\<lparr>written := bs\<rparr>\<rparr>)"
  by (simp add: healthy_def)

text \<open>Concrete instances: a header map, a server state, a configuration, a writer.\<close>

definition map_headers :: "(string \<rightharpoonup> string, string) header_api" where
  "map_headers = \<lparr>hm_insert = \<lambda>n v h. h(n \<mapsto> v), hm_get = \<lambda>n h. h n, hv_from_str = Some, hv_to_str = Some\<rparr>"

lemma headers_ok_map: "headers_ok map_headers"
  by (simp add: headers_ok_def map_headers_def)

definition example_state :: ServerState where
  "example_state = \<lparr>st_quic = server_default, st_authenticator = \<lambda>_ auth _. if auth = ''pw'' then Some ''user'' else None,
     st_disable_udp = False, st_speed_test = False, st_udp_idle_timeout = DEFAULT_UDP_IDLE_TIMEOUT, st_bandwidth_max_tx = 1000,
     st_bandwidth_max_rx = 500, st_ignore_client_bandwidth = False\<rparr>"

definition example_config :: ClientConfig where
  "example_config = \<lparr>cc_server_addr = SocketV4 (Ipv4Addr 127 0 0 1) 443, cc_server_name = ''localhost'', cc_auth = ''pw'',
     cc_bandwidth_max_tx = 300, cc_bandwidth_max_rx = 200, cc_obfs = Some (Salamander ''cry_me_a_r1ver''),
     cc_tls = \<lparr>ct_insecure = True, ct_root_certificates = [], ct_pinned_certificate_sha256 = Some [7]\<rparr>, cc_quic = client_default\<rparr>"

definition example_net :: "(string \<rightharpoonup> string) client_net" where
  "example_net = \<lparr>nt_env = \<lparr>env_var = \<lambda>_. None, env_parse_f32 = \<lambda>_. None\<rparr>,
     nt_sockets = \<lparr>sk_bind = \<lambda>_. Ok (), sk_set_nonblocking = Ok (), sk_wrap = Ok (), sk_endpoint = Ok ()\<rparr>,
     nt_tls = \<lambda>_. Ok (), nt_connect = \<lambda>_ _. Ok (Some (Certificates [[7]])),
     nt_h3 = Ok (), nt_parse_uri = \<lambda>_. Ok (Some ''hysteria'', ''/auth''),
     nt_exchange = server_reply map_headers Map.empty least_rng (SocketV4 (Ipv4Addr 127 0 0 1) 9) example_state\<rparr>"

lemma example_target:
  "addr_fits ''example.com:80''" "str_ok ''example.com:80''" "\<not> is_healthcheck_request ''example.com:80''"
  "\<not> is_speedtest_request ''example.com:80''"
  by code_simp (code_simp, simp_all add: is_healthcheck_request_def is_speedtest_request_def trim_id graphic_def
      HEALTH_CHECK_DEST_def SPEEDTEST_DEST_def split_once_def)

lemma example_transport: "\<exists>tr. build_transport_config True (nt_env example_net) client_default = Some (Ok tr)"
  by (subst build_transport_config_accepts)
    (simp_all add: example_net_def build_brutal_config_def initial_window_def env_u64_def quic_ok_def client_default_def
      MIN_QUIC_RECEIVE_WINDOW_def DEFAULT_STREAM_RECEIVE_WINDOW_def DEFAULT_CONNECTION_RECEIVE_WINDOW_def MAX_VARINT_def
      DEFAULT_MAX_IDLE_TIMEOUT_def secs_def)

definition idle_writer :: relay_side where
  "idle_writer = \<lparr>rs_sink = new_vec, rs_shutdown = Ok (), rs_closed = False, rs_limiter = None, rs_clock = []\<rparr>"

lemma healthy_idle_writer: "healthy idle_writer"
  by (simp add: healthy_def idle_writer_def new_vec_def)

lemma client_tcp_accepted:
  assumes "async_write_tcp_request g w addr = Some (Ok (), w\<lparr>written := written w @ req\<rparr>)"
    and "async_read_tcp_response (s\<lparr>pending := resp @ down\<rparr>) = Ok ((True, message), s\<lparr>pending := down\<rparr>)"
  shows "client_tcp g (Ok (w, s\<lparr>pending := resp @ down\<rparr>)) addr client =
    Some (Ok (s\<lparr>pending := down\<rparr>, w\<lparr>written := written w @ req\<rparr>, proxy_stream_new (cl_tx_limiter client)),
      Some (w\<lparr>written := written w @ req\<rparr>))"
  using assms by (simp add: client_tcp_def)

lemma accept_stream_healthy:
  assumes "rng_ok g" and "healthy send" and "healthy (rc_writer remote)"
    and "ends_stream client_reads" and "ends_stream (rc_reads remote)"
  shows "\<exists>resp server_end remote_end.
    accept_stream fl first g client_reads remote None send =
      Returned \<lparr>se_result = Ok (), se_send = server_end, se_remote = Some remote_end\<rparr> \<and>
    written (rs_sink server_end) = written (rs_sink send) @ resp @ stream_of (rc_reads remote) \<and> rs_closed server_end \<and>
    written (rs_sink remote_end) = written (rs_sink (rc_writer remote)) @ stream_of client_reads \<and> rs_closed remote_end \<and>
    (\<forall>rest. async_read_tcp_response (s\<lparr>pending := resp @ rest\<rparr>) = Ok ((True, ''Connected''), s\<lparr>pending := rest\<rparr>))"
proof -
  obtain resp where w: "write_response g True ''Connected'' send =
      Some (Ok (), send\<lparr>rs_sink := (rs_sink send)\<lparr>written := written (rs_sink send) @ resp\<rparr>\<rparr>)"
    and r: "\<forall>rest. async_read_tcp_response (s\<lparr>pending := resp @ rest\<rparr>) = Ok ((True, ''Connected''), s\<lparr>pending := rest\<rparr>)"
    using write_response_healthy[OF assms(1) str_ok_connected(2,1) assms(2)] by blast
  show ?thesis
    using relay_streams_healthy[OF assms(4,5,3) healthy_written[OF assms(2), of "written (rs_sink send) @ resp"], of fl first] w r
    by (auto simp: accept_stream_def)
qed

definition example_source :: source where
  "example_source = \<lparr>pending = [], ending = AtEof\<rparr>"

definition example_remote :: remote_conn where
  "example_remote = \<lparr>rc_reads = [Ok [1, 2], Ok []], rc_writer = idle_writer\<rparr>"

definition example_reads :: "source \<Rightarrow> (io_error + bytes) list" where
  "example_reads recv = [Ok (pending recv), Ok []]"

section \<open>Properties\<close>



text \<open>
  C22: A proxied TCP stream works end to end. The client's request names an ordinary target that
  the server can dial; what the application writes after the request, and what the target sends
  until it closes, are relayed. Then the target receives exactly the application's bytes and
  then the end of the stream, the application receives exactly the target's bytes and then the
  end, and neither frame nor padding is visible to either.
\<close>

theorem tcp_end_to_end:
  assumes "rng_ok g" and "rng_ok g'" and "addr_fits addr" and "str_ok addr"
    and "\<not> is_healthcheck_request addr" and "\<not> is_speedtest_request addr"
    and "dial addr = Ok remote" and "ends_stream (rc_reads remote)" and "healthy (rc_writer remote)"
    and "failing w = None" and "healthy send"
    and "\<forall>recv. ends_stream (client_reads recv) \<and> stream_of (client_reads recv) = pending recv"
  shows "\<exists>req resp server_end remote_end.
    handle_tcp_stream fl first g' dial speedtest client_reads speed_test_enabled None (s\<lparr>pending := req @ up\<rparr>) send =
      Returned \<lparr>se_result = Ok (), se_send = server_end, se_remote = Some remote_end\<rparr> \<and>
    written (rs_sink remote_end) = written (rs_sink (rc_writer remote)) @ up \<and> rs_closed remote_end \<and>
    written (rs_sink server_end) = written (rs_sink send) @ resp @ stream_of (rc_reads remote) \<and> rs_closed server_end \<and>
    client_tcp g (Ok (w, s'\<lparr>pending := resp @ stream_of (rc_reads remote)\<rparr>)) addr client =
      Some (Ok (s'\<lparr>pending := stream_of (rc_reads remote)\<rparr>, w\<lparr>written := written w @ req\<rparr>,
        proxy_stream_new (cl_tx_limiter client)), Some (w\<lparr>written := written w @ req\<rparr>))"
proof -
  obtain req where req: "async_write_tcp_request g w addr = Some (Ok (), w\<lparr>written := written w @ req\<rparr>)"
    "\<And>rest. read_framed_tcp_request (s\<lparr>pending := req @ rest\<rparr>) = Ok (addr, s\<lparr>pending := rest\<rparr>)"
    using request_frame[OF assms(1,3,4,10)] by blast
  let ?reads = "client_reads (s\<lparr>pending := up\<rparr>)"
  have reads: "ends_stream ?reads" "stream_of ?reads = up" using assms(12) by simp_all
  obtain resp server_end remote_end where acc:
    "accept_stream fl first g' ?reads remote None send =
      Returned \<lparr>se_result = Ok (), se_send = server_end, se_remote = Some remote_end\<rparr>"
    "written (rs_sink server_end) = written (rs_sink send) @ resp @ stream_of (rc_reads remote)" "rs_closed server_end"
    "written (rs_sink remote_end) = written (rs_sink (rc_writer remote)) @ up" "rs_closed remote_end"
    "\<And>rest. async_read_tcp_response (s'\<lparr>pending := resp @ rest\<rparr>) = Ok ((True, ''Connected''), s'\<lparr>pending := rest\<rparr>)"
    using accept_stream_healthy[OF assms(2,11,9) reads(1) assms(8), of fl first s'] reads(2) by auto
  have "handle_tcp_stream fl first g' dial speedtest client_reads speed_test_enabled None (s\<lparr>pending := req @ up\<rparr>) send =
      Returned \<lparr>se_result = Ok (), se_send = server_end, se_remote = Some remote_end\<rparr>"
    using req(2) assms(5-7) acc(1) by (simp add: handle_tcp_stream_def)
  with acc client_tcp_accepted[OF req(1) acc(6)] show ?thesis by blast
qed

theorem tcp_end_to_end_witness:
  "\<exists>req resp server_end remote_end.
    handle_tcp_stream (\<lambda>x. x) True least_rng (\<lambda>_. Ok example_remote) example_remote example_reads False None
        (example_source\<lparr>pending := req @ [3, 4, 5]\<rparr>) idle_writer =
      Returned \<lparr>se_result = Ok (), se_send = server_end, se_remote = Some remote_end\<rparr> \<and>
    written (rs_sink remote_end) = written (rs_sink idle_writer) @ [3, 4, 5] \<and> rs_closed remote_end \<and>
    written (rs_sink server_end) = written (rs_sink idle_writer) @ resp @ [1, 2] \<and> rs_closed server_end"
proof -
  have "ends_stream (rc_reads example_remote)" "stream_of (rc_reads example_remote) = [1, 2]"
    "rc_writer example_remote = idle_writer" "failing new_vec = None"
    "\<forall>recv. ends_stream (example_reads recv) \<and> stream_of (example_reads recv) = pending recv"
    by (simp_all add: example_remote_def example_reads_def new_vec_def)
  with tcp_end_to_end[OF rng_ok_least rng_ok_least example_target, of "\<lambda>_. Ok example_remote" example_remote new_vec idle_writer
      example_reads "\<lambda>x. x" True example_remote False "[3, 4, 5]" example_source example_source
      "\<lparr>cl_udp_manager = None, cl_tx_limiter = None\<rparr>"] healthy_idle_writer
  show ?thesis by auto
qed

text \<open>
  The health check passes against this server: the client's check, given what the server
  writes, succeeds, and the server, given what the client writes, answers it and ends the stream.
\<close>

lemma health_check_end_to_end:
  assumes "rng_ok g" and "rng_ok g'" and "failing w = None" and "healthy send"
  shows "\<exists>req out server_end.
    run_client_health_check g (Ok (w, \<lparr>pending = out, ending = AtEof\<rparr>)) (Ok ()) client =
      Some (Ok (), Some (w\<lparr>written := written w @ req\<rparr>)) \<and>
    handle_tcp_stream fl first g' dial speedtest client_reads speed_test_enabled tx_limiter
        \<lparr>pending = req, ending = AtEof\<rparr> send =
      Returned \<lparr>se_result = Ok (), se_send = server_end, se_remote = None\<rparr> \<and>
    written (rs_sink server_end) = written (rs_sink send) @ out \<and> rs_closed server_end"
proof -
  let ?s = "\<lparr>pending = [], ending = AtEof\<rparr>"
  have dest: "addr_fits HEALTH_CHECK_DEST" "str_ok HEALTH_CHECK_DEST" "is_healthcheck_request HEALTH_CHECK_DEST"
    by code_simp (code_simp, simp add: is_healthcheck_request_def HEALTH_CHECK_DEST_def trim_id graphic_def)
  obtain req where req: "async_write_tcp_request g w HEALTH_CHECK_DEST = Some (Ok (), w\<lparr>written := written w @ req\<rparr>)"
    "\<And>rest. read_framed_tcp_request (?s\<lparr>pending := req @ rest\<rparr>) = Ok (HEALTH_CHECK_DEST, ?s\<lparr>pending := rest\<rparr>)"
    using request_frame[OF assms(1) dest(1,2) assms(3)] by blast
  obtain resp where resp: "write_response g' True ''Connected'' send =
      Some (Ok (), send\<lparr>rs_sink := (rs_sink send)\<lparr>written := written (rs_sink send) @ resp\<rparr>\<rparr>)"
    "\<And>rest. async_read_tcp_response (?s\<lparr>pending := resp @ rest\<rparr>) = Ok ((True, ''Connected''), ?s\<lparr>pending := rest\<rparr>)"
    using write_response_healthy[OF assms(2) str_ok_connected(2,1) assms(4)] by blast
  let ?out = "resp @ as_bytes ''pong''" and ?req = "req @ as_bytes ''ping''"
  have "client_tcp g (Ok (w, ?s\<lparr>pending := ?out\<rparr>)) HEALTH_CHECK_DEST client =
      Some (Ok (?s\<lparr>pending := as_bytes ''pong''\<rparr>, w\<lparr>written := written w @ req\<rparr>, proxy_stream_new (cl_tx_limiter client)),
        Some (w\<lparr>written := written w @ req\<rparr>))"
    by (rule client_tcp_accepted[OF req(1) resp(2)])
  then have "run_client_health_check g (Ok (w, \<lparr>pending = ?out, ending = AtEof\<rparr>)) (Ok ()) client =
      Some (Ok (), Some (w\<lparr>written := written w @ ?req\<rparr>))"
    using assms(3) by (simp add: run_client_health_check_def HEALTH_CHECK_REQUEST_def HEALTH_CHECK_RESPONSE_def)
  moreover have "\<exists>server_end. handle_tcp_stream fl first g' dial speedtest client_reads speed_test_enabled tx_limiter
        \<lparr>pending = ?req, ending = AtEof\<rparr> send =
      Returned \<lparr>se_result = Ok (), se_send = server_end, se_remote = None\<rparr> \<and>
    written (rs_sink server_end) = written (rs_sink send) @ ?out \<and> rs_closed server_end"
    using req(2)[of "as_bytes ''ping''"] resp(1) dest(3) assms(4)
    by (simp add: handle_tcp_stream_def health_check_stream_def read_to_end_def finish_def healthy_def)
  ultimately show ?thesis by blast
qed

text \<open>
  C23: Nothing is served without authentication, whatever the peer sends: a connection is served
  only after a POST to the authentication endpoint whose credentials the authenticator accepted
  for that peer, and after status 233 was sent; any other answered connection got status 404.
\<close>

theorem served_only_authenticated:
  assumes "handle_connection api empty_headers g h3 state = (r, sent, stx)"
  shows "(\<forall>rate. r = Ok (Authenticated rate) \<longrightarrow> rate = stx \<and>
      (\<exists>remote request auth_id headers. h3_connected h3 = Ok remote \<and> h3_request h3 = Ok request \<and> valid_auth_request request \<and>
        st_authenticator state remote (aq_auth (auth_request_from_headers api (rq_headers request)))
          (aq_rx (auth_request_from_headers api (rq_headers request))) = Some auth_id \<and>
        sent = [(STATUS_AUTH_OK, headers)])) \<and>
    (r = Ok KeptOpen \<longrightarrow> sent = [(404, empty_headers)] \<and> stx = 0) \<and> length sent \<le> 1"
  using assms
  by (auto simp: handle_connection_def reject_def respond_def Let_def and_then_Ok_iff
      simp del: negotiated_limit.simps split: sum.splits prod.splits if_splits option.splits)

theorem served_only_authenticated_witness:
  "\<exists>sent stx. handle_connection map_headers Map.empty least_rng
     (served (SocketV4 (Ipv4Addr 127 0 0 1) 9)
       \<lparr>rq_method = ''GET'', rq_path = ''/'', rq_host = None, rq_headers = Map.empty\<rparr>) example_state =
       (Ok KeptOpen, sent, stx) \<and> sent = [(404, Map.empty)] \<and> stx = 0"
proof -
  have h: "handle_connection map_headers Map.empty least_rng
     (served (SocketV4 (Ipv4Addr 127 0 0 1) 9)
       \<lparr>rq_method = ''GET'', rq_path = ''/'', rq_host = None, rq_headers = Map.empty\<rparr>) example_state =
       (Ok KeptOpen, [(404, Map.empty)], 0)"
    by (simp add: handle_connection_def served_def valid_auth_request_def reject_def respond_def)
  show ?thesis using served_only_authenticated[OF h] h by simp
qed

end
