(* ===== verification/Anyhow.thy ===== *)
theory Anyhow
  imports Rust_Text Net_Addr Errors
begin

text \<open>
  Errors and stream effects of the application crates. An \<open>anyhow::Error\<close> is its chain of
  causes, outermost first: messages added by \<open>bail!\<close> and \<open>context\<close>, and the typed errors that
  \<open>?\<close> converts. Code that reads and writes one TCP stream and may fail is written with
  \<open>io_then\<close>, which threads both directions of the stream and stops at the first error, as \<open>?\<close>
  does; what was written before the error stays written.
\<close>

section \<open>Error chains\<close>

datatype cause =
    Msg string
  | IoCause io_error
  | CoreCause CoreError
  | Utf8Cause
  | ParseIntCause

type_synonym anyhow = "cause list"

abbreviation bail :: "string \<Rightarrow> anyhow + 'a" where
  "bail message \<equiv> Err [Msg message]"

definition with_context :: "string \<Rightarrow> anyhow + 'a \<Rightarrow> anyhow + 'a" where
  "with_context message r = map_err (\<lambda>e. Msg message # e) r"

definition ok_or :: "anyhow \<Rightarrow> 'a option \<Rightarrow> anyhow + 'a" where
  "ok_or e v = (case v of None \<Rightarrow> Err e | Some x \<Rightarrow> Ok x)"

lemma with_context_simps [simp]:
  "with_context m (Ok x) = Ok x" "with_context m (Err e) = Err (Msg m # e)"
  by (simp_all add: with_context_def)

lemma with_context_Ok_iff [simp]: "with_context m r = Ok x \<longleftrightarrow> r = Ok x"
  by (cases r) simp_all

lemma ok_or_simps [simp]: "ok_or e None = Err e" "ok_or e (Some x) = Ok x"
  by (simp_all add: ok_or_def)

lemma ok_or_Ok_iff [simp]: "ok_or e v = Ok x \<longleftrightarrow> v = Some x"
  by (cases v) simp_all

section \<open>A stream with two directions\<close>

record tcp =
  tc_in :: source
  tc_out :: sink

type_synonym 'a tcp_io = "tcp \<Rightarrow> (anyhow + 'a) \<times> tcp"

definition io_return :: "'a \<Rightarrow> 'a tcp_io" where
  "io_return x t = (Ok x, t)"

definition io_fail :: "anyhow \<Rightarrow> 'a tcp_io" where
  "io_fail e t = (Err e, t)"

abbreviation io_bail :: "string \<Rightarrow> 'a tcp_io" where
  "io_bail message \<equiv> io_fail [Msg message]"

definition io_lift :: "anyhow + 'a \<Rightarrow> 'a tcp_io" where
  "io_lift r t = (r, t)"

definition io_then :: "'a tcp_io \<Rightarrow> ('a \<Rightarrow> 'b tcp_io) \<Rightarrow> 'b tcp_io" where
  "io_then m f t = (case m t of (Inl e, t') \<Rightarrow> (Err e, t') | (Inr x, t') \<Rightarrow> f x t')"

definition io_read_exact :: "nat \<Rightarrow> bytes tcp_io" where
  "io_read_exact n t =
     (case read_exact async_eof n (tc_in t) of
        Inl e \<Rightarrow> (Err [IoCause e], t)
      | Inr (bs, s) \<Rightarrow> (Ok bs, t\<lparr>tc_in := s\<rparr>))"

definition io_write_all :: "bytes \<Rightarrow> unit tcp_io" where
  "io_write_all bs t =
     (case write_all bs (tc_out t) of
        (Inl e, w) \<Rightarrow> (Err [IoCause e], t\<lparr>tc_out := w\<rparr>)
      | (Inr _, w) \<Rightarrow> (Ok (), t\<lparr>tc_out := w\<rparr>))"

section \<open>Facts for symbolic execution\<close>

text \<open>
  \<open>io_run\<close> executes a program on a stream whose input is known as far as it reads and whose
  output works; \<open>io_inv\<close> goes from a successful run back to what the stream must have held.
\<close>

named_theorems io_run
named_theorems io_inv

definition open_tcp :: "tcp \<Rightarrow> bool" where
  "open_tcp t \<longleftrightarrow> failing (tc_out t) = None"

definition tcp_on :: "tcp \<Rightarrow> bytes \<Rightarrow> bytes \<Rightarrow> tcp" where
  "tcp_on t input sent = t\<lparr>tc_in := (tc_in t)\<lparr>pending := input\<rparr>, tc_out := (tc_out t)\<lparr>written := written (tc_out t) @ sent\<rparr>\<rparr>"

lemma io_then_run [io_run]:
  "io_then m f t = (case m t of (r, t') \<Rightarrow> case r of Inl e \<Rightarrow> (Err e, t') | Inr x \<Rightarrow> f x t')"
  by (simp add: io_then_def split: prod.split sum.split)

lemma io_basic_run [io_run]:
  "io_return x t = (Ok x, t)" "io_fail e t = (Err e, t)" "io_lift r t = (r, t)"
  by (simp_all add: io_return_def io_fail_def io_lift_def)

lemma io_read_run [io_run]:
  "n \<le> length input \<Longrightarrow> io_read_exact n (tcp_on t input sent) = (Ok (take n input), tcp_on t (drop n input) sent)"
  by (simp add: io_read_exact_def tcp_on_def read_exact_def)

lemma io_read_short:
  "length input < n \<Longrightarrow> io_read_exact n (tcp_on t input sent) =
     (Err [IoCause (case ending (tc_in t) of AtEof \<Rightarrow> async_eof | AtError e \<Rightarrow> e)], tcp_on t input sent)"
  by (simp add: io_read_exact_def tcp_on_def read_exact_def)

lemma io_write_run [io_run]:
  "open_tcp t \<Longrightarrow> io_write_all bs (tcp_on t input sent) = (Ok (), tcp_on t input (sent @ bs))"
  by (simp add: io_write_all_def tcp_on_def open_tcp_def)

lemma tcp_on_self: "tcp_on t (pending (tc_in t)) [] = t"
  by (simp add: tcp_on_def)

lemma tcp_on_simps [simp]:
  "pending (tc_in (tcp_on t input sent)) = input" "ending (tc_in (tcp_on t input sent)) = ending (tc_in t)"
  "written (tc_out (tcp_on t input sent)) = written (tc_out t) @ sent" "failing (tc_out (tcp_on t input sent)) = failing (tc_out t)"
  "tcp_on (tcp_on t input sent) input' sent' = tcp_on t input' (sent @ sent')"
  by (simp_all add: tcp_on_def)

lemma open_tcp_on [simp]: "open_tcp (tcp_on t input sent) = open_tcp t"
  by (simp add: open_tcp_def)

lemma io_then_inv [io_inv]:
  "io_then m f t = (Ok y, t') \<longleftrightarrow> (\<exists>x t1. m t = (Ok x, t1) \<and> f x t1 = (Ok y, t'))"
  by (auto simp: io_then_def split: prod.splits sum.splits)

lemma io_basic_inv [io_inv]:
  "io_return x t = (Ok y, t') \<longleftrightarrow> y = x \<and> t' = t" "io_fail e t = (Ok y, t') \<longleftrightarrow> False"
  "io_lift r t = (Ok y, t') \<longleftrightarrow> r = Ok y \<and> t' = t"
  by (auto simp: io_return_def io_fail_def io_lift_def)

lemma io_writeD:
  "io_write_all bs t = (Ok u, t') \<Longrightarrow> tc_in t' = tc_in t \<and> written (tc_out t') = written (tc_out t) @ bs"
  by (auto simp: io_write_all_def write_all_def split: option.splits prod.splits if_splits)

lemma io_readD:
  assumes "io_read_exact n t = (Ok bs, t')"
  shows "length bs = n \<and> pending (tc_in t) = bs @ pending (tc_in t') \<and> ending (tc_in t') = ending (tc_in t) \<and> tc_out t' = tc_out t"
proof -
  obtain s where "read_exact async_eof n (tc_in t) = Ok (bs, s)" "t' = t\<lparr>tc_in := s\<rparr>"
    using assms by (auto simp: io_read_exact_def split: sum.splits)
  then show ?thesis by (auto simp: read_exact_Ok_iff)
qed

end
