(* ===== verification/Socks5.thy ===== *)
theory Socks5
  imports Anyhow Client
begin

text \<open>
  The SOCKS5 server of the command line client (\<open>app/src/socks5.rs\<close>): negotiation, requests,
  the datagram format and the UDP association. Sockets and the proxy client are parameters:
  the results of opening a proxied stream, of binding a socket and of sending a datagram. The
  lemmas show who gets past the negotiation, that datagrams survive the trip through their
  encoding, and that an association serves one peer only.
\<close>

section \<open>Constants\<close>

definition SOCKS5_VERSION :: u8 where
  "SOCKS5_VERSION = 0x05"

definition SOCKS5_METHOD_NONE :: u8 where
  "SOCKS5_METHOD_NONE = 0x00"

definition SOCKS5_METHOD_USERNAME_PASSWORD :: u8 where
  "SOCKS5_METHOD_USERNAME_PASSWORD = 0x02"

definition SOCKS5_METHOD_UNACCEPTABLE :: u8 where
  "SOCKS5_METHOD_UNACCEPTABLE = 0xff"

definition SOCKS5_CMD_CONNECT :: u8 where
  "SOCKS5_CMD_CONNECT = 0x01"

definition SOCKS5_CMD_UDP_ASSOCIATE :: u8 where
  "SOCKS5_CMD_UDP_ASSOCIATE = 0x03"

definition SOCKS5_REP_SUCCESS :: u8 where
  "SOCKS5_REP_SUCCESS = 0x00"

definition SOCKS5_REP_HOST_UNREACHABLE :: u8 where
  "SOCKS5_REP_HOST_UNREACHABLE = 0x04"

definition SOCKS5_REP_COMMAND_NOT_SUPPORTED :: u8 where
  "SOCKS5_REP_COMMAND_NOT_SUPPORTED = 0x07"

definition SOCKS5_ATYP_IPV4 :: u8 where
  "SOCKS5_ATYP_IPV4 = 0x01"

definition SOCKS5_ATYP_DOMAIN :: u8 where
  "SOCKS5_ATYP_DOMAIN = 0x03"

definition SOCKS5_ATYP_IPV6 :: u8 where
  "SOCKS5_ATYP_IPV6 = 0x04"

definition USERPASS_VERSION :: u8 where
  "USERPASS_VERSION = 0x01"

definition USERPASS_STATUS_SUCCESS :: u8 where
  "USERPASS_STATUS_SUCCESS = 0x00"

definition USERPASS_STATUS_FAILURE :: u8 where
  "USERPASS_STATUS_FAILURE = 0x01"

lemmas socks5_constants =
  SOCKS5_VERSION_def SOCKS5_METHOD_NONE_def SOCKS5_METHOD_USERNAME_PASSWORD_def SOCKS5_METHOD_UNACCEPTABLE_def
  SOCKS5_CMD_CONNECT_def SOCKS5_CMD_UDP_ASSOCIATE_def SOCKS5_REP_SUCCESS_def SOCKS5_REP_HOST_UNREACHABLE_def
  SOCKS5_REP_COMMAND_NOT_SUPPORTED_def SOCKS5_ATYP_IPV4_def SOCKS5_ATYP_DOMAIN_def SOCKS5_ATYP_IPV6_def
  USERPASS_VERSION_def USERPASS_STATUS_SUCCESS_def USERPASS_STATUS_FAILURE_def

section \<open>Addresses\<close>

definition u16_str :: "u16 \<Rightarrow> string" where
  "u16_str n = dec (unat n)"

definition host_port :: "string \<Rightarrow> u16 \<Rightarrow> string" where
  "host_port host port = host @ '':'' @ u16_str port"

definition split_host_port :: "string \<Rightarrow> anyhow + string \<times> u16" where
  "split_host_port address =
     (case parse_socket_addr address of
        Some socket_addr \<Rightarrow> Ok (show_ip (sock_ip socket_addr), sock_port socket_addr)
      | None \<Rightarrow>
          and_then (ok_or [Msg (''missing port in address '' @ address)] (rsplit_once (CHR '':'') address)) (\<lambda>(host, port).
          and_then (with_context (''invalid port in address '' @ address) (ok_or [ParseIntCause] (parse_uint 65536 port)))
            (\<lambda>port. Ok (trim_end_matches (CHR '']'') (trim_start_matches (CHR ''['') host), of_nat port))))"

definition encode_socket_addr :: "SocketAddr \<Rightarrow> bytes" where
  "encode_socket_addr addr =
     (case addr of
        SocketV4 ip port \<Rightarrow> [SOCKS5_ATYP_IPV4] @ octets4 ip @ be_bytes 2 port
      | SocketV6 ip port _ _ \<Rightarrow> [SOCKS5_ATYP_IPV6] @ octets6 ip @ be_bytes 2 port)"

definition encode_address :: "string \<Rightarrow> anyhow + bytes" where
  "encode_address address =
     and_then (split_host_port address) (\<lambda>(host, port).
       case parse_ipv4 host of
         Some ip \<Rightarrow> Ok ([SOCKS5_ATYP_IPV4] @ octets4 ip @ be_bytes 2 port)
       | None \<Rightarrow>
           (case parse_ipv6 host of
              Some ip \<Rightarrow> Ok ([SOCKS5_ATYP_IPV6] @ octets6 ip @ be_bytes 2 port)
            | None \<Rightarrow>
                if length host > 255 then bail ''SOCKS5 domain name is too long''
                else Ok ([SOCKS5_ATYP_DOMAIN, of_nat (length host)] @ as_bytes host @ be_bytes 2 port)))"

definition parse_address_from_bytes :: "bytes \<Rightarrow> u8 \<Rightarrow> anyhow + string \<times> nat" where
  "parse_address_from_bytes buf atyp =
     (if atyp = SOCKS5_ATYP_IPV4 then
        if length buf < 6 then bail ''truncated SOCKS5 IPv4 address''
        else Ok (host_port (show_ipv4 (ipv4_from (take 4 buf))) (be_word (take 2 (drop 4 buf))), 6)
      else if atyp = SOCKS5_ATYP_IPV6 then
        if length buf < 18 then bail ''truncated SOCKS5 IPv6 address''
        else Ok (host_port (''['' @ show_ipv6 (ipv6_from (take 16 buf)) @ '']'') (be_word (take 2 (drop 16 buf))), 18)
      else if atyp = SOCKS5_ATYP_DOMAIN then
        (case buf of
           [] \<Rightarrow> bail ''truncated SOCKS5 domain address''
         | n # rest \<Rightarrow>
             let host_len = unat n in
             if length buf < 1 + host_len + 2 then bail ''truncated SOCKS5 domain address''
             else and_then (with_context ''invalid SOCKS5 domain address'' (ok_or [Utf8Cause] (from_utf8 (take host_len rest))))
               (\<lambda>host. Ok (host_port host (be_word (take 2 (drop host_len rest))), 1 + host_len + 2)))
      else bail (''unsupported SOCKS5 address type '' @ u8_str atyp))"

definition parse_udp_datagram :: "bytes \<Rightarrow> anyhow + (string \<times> bytes) option" where
  "parse_udp_datagram buf =
     (case buf of
        b0 # b1 # b2 # atyp # rest \<Rightarrow>
          if b0 \<noteq> 0 \<or> b1 \<noteq> 0 then Ok None
          else if b2 \<noteq> 0 then Ok None
          else and_then (parse_address_from_bytes rest atyp) (\<lambda>(address, payload_offset).
                 Ok (Some (address, drop payload_offset rest)))
      | _ \<Rightarrow> Ok None)"

definition build_udp_datagram :: "string \<Rightarrow> bytes \<Rightarrow> anyhow + bytes" where
  "build_udp_datagram address body =
     and_then (encode_address address) (\<lambda>encoded. Ok ([0, 0, 0] @ encoded @ body))"

section \<open>Negotiation and requests\<close>

definition check_userpass :: "string \<Rightarrow> string \<Rightarrow> unit tcp_io" where
  "check_userpass expected_username expected_password =
     io_then (io_read_exact 2) (\<lambda>auth_header.
     if auth_header ! 0 \<noteq> USERPASS_VERSION
     then io_then (io_write_all [USERPASS_VERSION, USERPASS_STATUS_FAILURE])
            (\<lambda>_. io_bail ''unsupported username/password auth version'')
     else io_then (io_read_exact (unat (auth_header ! 1))) (\<lambda>username.
     io_then (io_read_exact 1) (\<lambda>password_len.
     io_then (io_read_exact (unat (password_len ! 0))) (\<lambda>password.
     if username = as_bytes expected_username \<and> password = as_bytes expected_password
     then io_write_all [USERPASS_VERSION, USERPASS_STATUS_SUCCESS]
     else io_then (io_write_all [USERPASS_VERSION, USERPASS_STATUS_FAILURE])
            (\<lambda>_. io_bail ''invalid SOCKS5 credentials'')))))"

definition negotiate :: "(string \<times> string) option \<Rightarrow> unit tcp_io" where
  "negotiate auth =
     io_then (io_read_exact 2) (\<lambda>header.
     if header ! 0 \<noteq> SOCKS5_VERSION then io_bail (''unsupported SOCKS version '' @ u8_str (header ! 0))
     else io_then (io_read_exact (unat (header ! 1))) (\<lambda>methods.
     let selected = (if auth \<noteq> None then SOCKS5_METHOD_USERNAME_PASSWORD else SOCKS5_METHOD_NONE) in
     if selected \<notin> set methods
     then io_then (io_write_all [SOCKS5_VERSION, SOCKS5_METHOD_UNACCEPTABLE])
            (\<lambda>_. io_bail ''no acceptable SOCKS5 authentication method'')
     else io_then (io_write_all [SOCKS5_VERSION, selected]) (\<lambda>_.
     case auth of
       None \<Rightarrow> io_return ()
     | Some (expected_username, expected_password) \<Rightarrow> check_userpass expected_username expected_password)))"

record SocksRequest =
  sr_command :: u8
  sr_address :: string

definition read_host :: "u8 \<Rightarrow> string tcp_io" where
  "read_host atyp =
     (if atyp = SOCKS5_ATYP_IPV4 then io_then (io_read_exact 4) (\<lambda>raw. io_return (show_ip (IpV4 (ipv4_from raw))))
      else if atyp = SOCKS5_ATYP_IPV6 then io_then (io_read_exact 16) (\<lambda>raw. io_return (show_ip (IpV6 (ipv6_from raw))))
      else if atyp = SOCKS5_ATYP_DOMAIN then
        io_then (io_read_exact 1) (\<lambda>len.
        io_then (io_read_exact (unat (len ! 0))) (\<lambda>raw.
        io_lift (with_context ''invalid SOCKS5 domain address'' (ok_or [Utf8Cause] (from_utf8 raw)))))
      else io_bail (''unsupported SOCKS5 address type '' @ u8_str atyp))"

definition read_address :: "u8 \<Rightarrow> string tcp_io" where
  "read_address atyp =
     io_then (read_host atyp) (\<lambda>host.
     io_then (io_read_exact 2) (\<lambda>port_bytes. io_return (host_port host (be_word port_bytes))))"

definition read_request :: "SocksRequest tcp_io" where
  "read_request =
     io_then (io_read_exact 4) (\<lambda>header.
     if header ! 0 \<noteq> SOCKS5_VERSION then io_bail (''unsupported SOCKS request version '' @ u8_str (header ! 0))
     else io_then (read_address (header ! 3)) (\<lambda>address.
       io_return \<lparr>sr_command = header ! 1, sr_address = address\<rparr>))"

definition write_reply :: "u8 \<Rightarrow> SocketAddr option \<Rightarrow> unit tcp_io" where
  "write_reply reply bind_addr =
     (let bind_addr = (case bind_addr of Some a \<Rightarrow> a | None \<Rightarrow> socket_addr_new (IpV4 (Ipv4Addr 0 0 0 0)) 0)
      in io_write_all ([SOCKS5_VERSION, reply, 0] @ encode_socket_addr bind_addr))"

section \<open>Commands\<close>

text \<open>
  \<open>tcp_open\<close> is \<open>Client::tcp\<close>. The result of a connection is the remote stream that the rest
  of the local stream was joined with, if there was one.
\<close>

definition handle_connect :: "(string \<Rightarrow> CoreError + 'r) \<Rightarrow> string \<Rightarrow> 'r tcp_io" where
  "handle_connect tcp_open address =
     (case tcp_open address of
        Inr remote \<Rightarrow> io_then (write_reply SOCKS5_REP_SUCCESS None) (\<lambda>_. io_return remote)
      | Inl e \<Rightarrow> io_then (write_reply SOCKS5_REP_HOST_UNREACHABLE None) (\<lambda>_. io_fail [CoreCause e]))"

text \<open>
  An association: the peer it serves, the packets handed to the proxied session (destination
  and payload) and the datagrams sent back. Its three tasks share only the peer's address, under
  a lock, so their events can be taken one after the other; the first task that ends stops all.
\<close>

record association =
  as_client :: "SocketAddr option"
  as_uploaded :: "(string \<times> bytes) list"
  as_delivered :: "(SocketAddr \<times> bytes) list"

datatype assoc_event =
    LocalRecv "io_error + bytes \<times> SocketAddr"
  | RemoteRecv "CoreError + bytes \<times> string"
  | ControlRecv "io_error + bytes"

record assoc_env =
  ae_send :: "bytes \<Rightarrow> string \<Rightarrow> CoreError + unit"
  ae_send_to :: "bytes \<Rightarrow> SocketAddr \<Rightarrow> io_error + unit"

definition association_new :: association where
  "association_new = \<lparr>as_client = None, as_uploaded = [], as_delivered = []\<rparr>"

definition udp_local_to_remote ::
    "assoc_env \<Rightarrow> io_error + bytes \<times> SocketAddr \<Rightarrow> association \<Rightarrow> association \<times> (anyhow + unit) option" where
  "udp_local_to_remote env received st =
     (case received of
        Inl e \<Rightarrow> (st, Some (Err [IoCause e]))
      | Inr (datagram, peer_addr) \<Rightarrow>
          (case parse_udp_datagram (take 4096 datagram) of
             Inl e \<Rightarrow> (st, Some (Err e))
           | Inr None \<Rightarrow> (st, None)
           | Inr (Some (destination, body)) \<Rightarrow>
               if as_client st \<noteq> None \<and> as_client st \<noteq> Some peer_addr then (st, None)
               else
                 let st = st\<lparr>as_client := Some peer_addr\<rparr> in
                 (case ae_send env body destination of
                    Inl e \<Rightarrow> (st, Some (Err [CoreCause e]))
                  | Inr _ \<Rightarrow> (st\<lparr>as_uploaded := as_uploaded st @ [(destination, body)]\<rparr>, None))))"

definition udp_remote_to_local ::
    "assoc_env \<Rightarrow> CoreError + bytes \<times> string \<Rightarrow> association \<Rightarrow> association \<times> (anyhow + unit) option" where
  "udp_remote_to_local env received st =
     (case received of
        Inl e \<Rightarrow> (st, Some (Err [CoreCause e]))
      | Inr (body, from_addr) \<Rightarrow>
          (case build_udp_datagram from_addr body of
             Inl e \<Rightarrow> (st, Some (Err e))
           | Inr packet \<Rightarrow>
               (case as_client st of
                  None \<Rightarrow> (st, None)
                | Some target \<Rightarrow>
                    (case ae_send_to env packet target of
                       Inl e \<Rightarrow> (st, Some (Err [IoCause e]))
                     | Inr _ \<Rightarrow> (st\<lparr>as_delivered := as_delivered st @ [(target, packet)]\<rparr>, None)))))"

definition control_read :: "io_error + bytes \<Rightarrow> (anyhow + unit) option" where
  "control_read received =
     (case received of Inl e \<Rightarrow> Some (Err [IoCause e]) | Inr data \<Rightarrow> if data = [] then Some (Ok ()) else None)"

fun assoc_step :: "assoc_env \<Rightarrow> assoc_event \<Rightarrow> association \<Rightarrow> association \<times> (anyhow + unit) option" where
  "assoc_step env (LocalRecv r) st = udp_local_to_remote env r st"
| "assoc_step env (RemoteRecv r) st = udp_remote_to_local env r st"
| "assoc_step env (ControlRecv r) st = (st, control_read r)"

fun assoc_run :: "assoc_env \<Rightarrow> assoc_event list \<Rightarrow> association \<Rightarrow> association \<times> (anyhow + unit) option" where
  "assoc_run env [] st = (st, None)"
| "assoc_run env (ev # evs) st =
     (case assoc_step env ev st of
        (st, Some r) \<Rightarrow> (st, Some r)
      | (st, None) \<Rightarrow> assoc_run env evs st)"

text \<open>
  Setting up an association: the results of \<open>local_addr\<close>, \<open>bind\<close>, \<open>Client::udp\<close> and the bound
  address. The result is the events' run, \<open>None\<close> as its end while the association lives.
\<close>

record udp_setup =
  us_local_addr :: "io_error + SocketAddr"
  us_bind :: "SocketAddr \<Rightarrow> io_error + unit"
  us_udp :: "CoreError + unit"
  us_bound :: "io_error + SocketAddr"

definition handle_udp_associate ::
    "udp_setup \<Rightarrow> assoc_env \<Rightarrow> assoc_event list \<Rightarrow> (association \<times> (anyhow + unit) option) tcp_io" where
  "handle_udp_associate setup env events =
     io_then (io_lift (with_context ''failed to read SOCKS5 local address'' (map_err (\<lambda>e. [IoCause e]) (us_local_addr setup)))) (\<lambda>local.
     io_then (io_lift (with_context ''failed to bind SOCKS5 UDP socket''
       (map_err (\<lambda>e. [IoCause e]) (us_bind setup (socket_addr_new (sock_ip local) 0))))) (\<lambda>_.
     io_then (io_lift (with_context ''failed to open proxied UDP session'' (map_err (\<lambda>e. [CoreCause e]) (us_udp setup)))) (\<lambda>_.
     io_then (io_lift (with_context ''failed to read SOCKS5 UDP listen address'' (map_err (\<lambda>e. [IoCause e]) (us_bound setup)))) (\<lambda>bound.
     io_then (write_reply SOCKS5_REP_SUCCESS (Some bound)) (\<lambda>_.
     io_return (assoc_run env events association_new))))))"

datatype 'r socks_outcome =
    Relayed 'r
  | Associated association "(anyhow + unit) option"
  | Unsupported

definition handle_client ::
    "(string \<Rightarrow> CoreError + 'r) \<Rightarrow> udp_setup \<Rightarrow> assoc_env \<Rightarrow> assoc_event list \<Rightarrow> (string \<times> string) option \<Rightarrow> bool \<Rightarrow>
     'r socks_outcome tcp_io" where
  "handle_client tcp_open setup env events auth disable_udp =
     io_then (negotiate auth) (\<lambda>_.
     io_then read_request (\<lambda>request.
     if sr_command request = SOCKS5_CMD_CONNECT
     then io_then (handle_connect tcp_open (sr_address request)) (\<lambda>remote. io_return (Relayed remote))
     else if sr_command request = SOCKS5_CMD_UDP_ASSOCIATE \<and> \<not> disable_udp
     then io_then (handle_udp_associate setup env events) (\<lambda>(st, r). io_return (Associated st r))
     else io_then (write_reply SOCKS5_REP_COMMAND_NOT_SUPPORTED None) (\<lambda>_. io_return Unsupported)))"

definition socks_auth :: "string \<Rightarrow> string \<Rightarrow> (string \<times> string) option" where
  "socks_auth username password = (if username \<noteq> [] \<and> password \<noteq> [] then Some (username, password) else None)"

section \<open>Datagrams\<close>

text \<open>
  Addresses that the encoding represents: printed socket addresses, and \<open>host:port\<close> with a name
  that is no address literal, fits the length byte and is not bracketed.
\<close>

definition domain_address :: "string \<Rightarrow> string \<Rightarrow> u16 \<Rightarrow> bool" where
  "domain_address a host port \<longleftrightarrow> a = host_port host port \<and> parse_socket_addr a = None \<and> parse_ipv4 host = None \<and>
     parse_ipv6 host = None \<and> str_ok host \<and> length host \<le> 255 \<and>
     (host \<noteq> [] \<longrightarrow> hd host \<noteq> CHR ''['' \<and> last host \<noteq> CHR '']'')"

definition datagram_address :: "string \<Rightarrow> bool" where
  "datagram_address a \<longleftrightarrow> (\<exists>ip port. a = show_socket_addr (SocketV4 ip port)) \<or>
     (\<exists>ip port. a = show_socket_addr (SocketV6 ip port 0 0)) \<or> (\<exists>host port. domain_address a host port)"

lemma u16_port: "parse_uint 65536 (u16_str port) = Some (unat port)" "CHR '':'' \<notin> set (u16_str port)"
proof -
  show "parse_uint 65536 (u16_str port) = Some (unat port)" by (simp add: u16_str_def unat_bounds)
  show "CHR '':'' \<notin> set (u16_str port)" using print_radix_chars(1)[of 10 "CHR '':''" "unat port"] digit_char_neq by (auto simp: u16_str_def)
qed

lemma show_socket_addr_host_port:
  "show_socket_addr (SocketV4 ip port) = host_port (show_ipv4 ip) port"
  "show_socket_addr (SocketV6 ip6 port 0 0) = host_port (''['' @ show_ipv6 ip6 @ '']'') port"
  by (simp_all add: show_socket_addr_def host_port_def u16_str_def)

lemma trim_brackets:
  "host = [] \<or> hd host \<noteq> CHR ''['' \<and> last host \<noteq> CHR '']'' \<Longrightarrow>
   trim_end_matches (CHR '']'') (trim_start_matches (CHR ''['') host) = host"
proof -
  assume a: "host = [] \<or> hd host \<noteq> CHR ''['' \<and> last host \<noteq> CHR '']''"
  then have "strip_front [[CHR ''['']] host = host" by (intro strip_front_id) (cases host; auto)
  moreover have "strip_front [rev [CHR '']'']] (rev host) = rev host"
    using a by (intro strip_front_id) (cases host rule: rev_cases; auto)
  ultimately show ?thesis by (simp add: trim_start_matches_def trim_end_matches_def strip_back_def)
qed

lemma encode_ip:
  "encode_address (show_socket_addr (SocketV4 ip port)) = Ok (encode_socket_addr (SocketV4 ip port))"
  "encode_address (show_socket_addr (SocketV6 ip6 port fl sc)) = Ok (encode_socket_addr (SocketV6 ip6 port fl sc))"
  by (simp_all add: encode_address_def encode_socket_addr_def split_host_port_def parse_show_socket_addr show_ip_def
      parse_show_ipv4 parse_show_ipv6)

lemma encode_domain:
  assumes "domain_address a host port"
  shows "encode_address a = Ok ([SOCKS5_ATYP_DOMAIN, of_nat (length host)] @ as_bytes host @ be_bytes 2 port)"
proof -
  have a: "a = host @ CHR '':'' # u16_str port" "parse_socket_addr a = None" "parse_ipv4 host = None" "parse_ipv6 host = None"
    "length host \<le> 255" "host = [] \<or> hd host \<noteq> CHR ''['' \<and> last host \<noteq> CHR '']''"
    using assms by (auto simp: domain_address_def host_port_def)
  have "rsplit_once (CHR '':'') a = Some (host, u16_str port)" unfolding a(1) by (rule rsplit_once_append[OF u16_port(2)])
  with a show ?thesis by (simp add: encode_address_def split_host_port_def u16_port(1) trim_brackets)
qed

lemma take_append_length: "length xs = n \<Longrightarrow> take n (xs @ ys) = xs" "length xs = n \<Longrightarrow> drop n (xs @ ys) = ys"
  by auto

lemma parse_encoded_ip:
  "parse_udp_datagram ([0, 0, 0] @ encode_socket_addr (SocketV4 ip port) @ body) =
     Ok (Some (show_socket_addr (SocketV4 ip port), body))"
  "parse_udp_datagram ([0, 0, 0] @ encode_socket_addr (SocketV6 ip6 port fl sc) @ body) =
     Ok (Some (show_socket_addr (SocketV6 ip6 port 0 0), body))"
  by (simp_all add: parse_udp_datagram_def encode_socket_addr_def parse_address_from_bytes_def socks5_constants
      show_socket_addr_host_port be_word_be_bytes take_append_length)

lemma parse_encoded_domain:
  assumes "domain_address a host port"
  shows "parse_udp_datagram ([0, 0, 0] @ ([SOCKS5_ATYP_DOMAIN, of_nat (length host)] @ as_bytes host @ be_bytes 2 port) @ body) =
     Ok (Some (a, body))"
proof -
  have "unat (of_nat (length host) :: u8) = length host" "str_ok host" "a = host_port host port"
    using assms by (simp_all add: domain_address_def unat_of_nat)
  then show ?thesis
    by (simp add: parse_udp_datagram_def parse_address_from_bytes_def socks5_constants from_utf8_def str_ok_def
        be_word_be_bytes take_append_length)
qed

lemma built_datagram:
  assumes "datagram_address a"
  shows "\<exists>d. build_udp_datagram a body = Ok d \<and> parse_udp_datagram d = Ok (Some (a, body))"
  using assms parse_encoded_ip parse_encoded_domain
  by (auto simp: datagram_address_def build_udp_datagram_def encode_ip encode_domain)

lemma be_bytes_of_pair: "length bs = 2 \<Longrightarrow> be_bytes 2 (be_word bs :: u16) = bs"
  using be_bytes_be_word[of bs, where ?'a = 16] by simp

lemma parsed_datagram:
  assumes "parse_udp_datagram d = Ok (Some (a, body))"
  shows "\<exists>atyp rest n. d = [0, 0, 0] @ atyp # rest \<and> parse_address_from_bytes rest atyp = Ok (a, n) \<and> body = drop n rest"
  using assms
  by (auto simp: parse_udp_datagram_def and_then_Ok_iff split: list.splits if_splits)

lemma parsed_ip_address:
  assumes "parse_address_from_bytes rest atyp = Ok (a, n)" and "atyp = SOCKS5_ATYP_IPV4 \<or> atyp = SOCKS5_ATYP_IPV6"
  shows "encode_address a = Ok (atyp # take n rest)"
  using assms(2)
proof
  assume t: "atyp = SOCKS5_ATYP_IPV4"
  let ?ip = "ipv4_from (take 4 rest)" and ?port = "be_word (take 2 (drop 4 rest)) :: u16"
  have "6 \<le> length rest" "n = 6" "a = show_socket_addr (SocketV4 ?ip ?port)"
    using assms(1) t by (auto simp: parse_address_from_bytes_def show_socket_addr_host_port split: if_splits)
  moreover have "take 6 rest = take 4 rest @ take 2 (drop 4 rest)" by (simp flip: take_add)
  ultimately show ?thesis
    using t by (simp add: encode_ip encode_socket_addr_def octets4_from be_bytes_of_pair)
next
  assume t: "atyp = SOCKS5_ATYP_IPV6"
  let ?ip = "ipv6_from (take 16 rest)" and ?port = "be_word (take 2 (drop 16 rest)) :: u16"
  have "18 \<le> length rest" "n = 18" "a = show_socket_addr (SocketV6 ?ip ?port 0 0)"
    using assms(1) t by (auto simp: parse_address_from_bytes_def show_socket_addr_host_port socks5_constants split: if_splits)
  moreover have "take 18 rest = take 16 rest @ take 2 (drop 16 rest)" by (simp flip: take_add)
  ultimately show ?thesis
    using t by (simp add: encode_ip encode_socket_addr_def octets6_from be_bytes_of_pair)
qed

section \<open>Negotiation\<close>

text \<open>The bytes of a client that logs in, after its list of methods.\<close>

definition login :: "string \<Rightarrow> string \<Rightarrow> bytes" where
  "login username password =
     [USERPASS_VERSION, of_nat (length username)] @ as_bytes username @ [of_nat (length password)] @ as_bytes password"

definition greeting :: "u8 list \<Rightarrow> bytes" where
  "greeting methods = [SOCKS5_VERSION, of_nat (length methods)] @ methods"

lemma of_nat_unat_length: "length xs = unat (n :: u8) \<Longrightarrow> of_nat (length xs) = n"
  by simp

lemma read_two: "length bs = 2 \<Longrightarrow> bs = [bs ! 0, bs ! 1]" "length bs = 1 \<Longrightarrow> bs = [bs ! 0]"
  by (auto simp: numeral_2_eq_2 length_Suc_conv)

lemma check_userpass_login:
  assumes "check_userpass username password t = (Ok u, t')"
  shows "pending (tc_in t) = login username password @ pending (tc_in t')"
proof -
  obtain auth_header user len pw t4 t5 t6 t7 where r:
    "io_read_exact 2 t = (Ok auth_header, t4)" "auth_header ! 0 = USERPASS_VERSION"
    "io_read_exact (unat (auth_header ! 1)) t4 = (Ok user, t5)" "io_read_exact 1 t5 = (Ok len, t6)"
    "io_read_exact (unat (len ! 0)) t6 = (Ok pw, t7)" "user = as_bytes username" "pw = as_bytes password"
    "io_write_all [USERPASS_VERSION, USERPASS_STATUS_SUCCESS] t7 = (Ok u, t')"
    using assms unfolding check_userpass_def by (auto simp: io_inv split: if_splits)
  note p = r(1,3,4,5)[THEN io_readD] r(8)[THEN io_writeD]
  have "auth_header = [USERPASS_VERSION, of_nat (length username)]" "len = [of_nat (length password)]"
    using p r(2,6,7) read_two[of auth_header] read_two[of len] of_nat_unat_length[of "as_bytes username"]
      of_nat_unat_length[of "as_bytes password"] by (auto simp: length_as_bytes)
  with p r(6,7) show ?thesis by (simp add: login_def)
qed

lemma negotiate_login:
  assumes "negotiate (Some (username, password)) t = (Ok u, t')"
  shows "\<exists>methods. SOCKS5_METHOD_USERNAME_PASSWORD \<in> set methods \<and> length methods < 256 \<and>
    pending (tc_in t) = greeting methods @ login username password @ pending (tc_in t')"
proof -
  obtain header methods t1 t2 t3 where r:
    "io_read_exact 2 t = (Ok header, t1)" "header ! 0 = SOCKS5_VERSION"
    "io_read_exact (unat (header ! 1)) t1 = (Ok methods, t2)" "SOCKS5_METHOD_USERNAME_PASSWORD \<in> set methods"
    "io_write_all [SOCKS5_VERSION, SOCKS5_METHOD_USERNAME_PASSWORD] t2 = (Ok (), t3)"
    "check_userpass username password t3 = (Ok u, t')"
    using assms unfolding negotiate_def by (auto simp: io_inv Let_def split: if_splits)
  note p = r(1,3)[THEN io_readD] r(5)[THEN io_writeD] check_userpass_login[OF r(6)]
  have "header = [SOCKS5_VERSION, of_nat (length methods)]" "length methods < 256"
    using p(1,2) r(2) read_two[of header] unsigned_less[of "header ! 1"] by auto
  moreover have "pending (tc_in t) = header @ methods @ login username password @ pending (tc_in t')"
    using p by simp
  ultimately show ?thesis using r(4) by (intro exI[of _ methods]) (simp add: greeting_def)
qed

lemma unat_of_length: "length xs < 256 \<Longrightarrow> unat (of_nat (length xs) :: u8) = length xs"
  by (simp add: unat_of_nat)

lemma check_userpass_accepts:
  assumes "open_tcp t" and "length username < 256" and "length password < 256"
  shows "check_userpass username password (tcp_on t (login username password @ rest) sent) =
    (Ok (), tcp_on t rest (sent @ [USERPASS_VERSION, USERPASS_STATUS_SUCCESS]))"
  using assms by (simp add: check_userpass_def login_def io_run unat_of_length)

lemma negotiate_accepts:
  assumes "open_tcp t" and "length methods < 256"
  shows "SOCKS5_METHOD_NONE \<in> set methods \<Longrightarrow> negotiate None (tcp_on t (greeting methods @ rest) sent) =
      (Ok (), tcp_on t rest (sent @ [SOCKS5_VERSION, SOCKS5_METHOD_NONE]))"
    "SOCKS5_METHOD_USERNAME_PASSWORD \<in> set methods \<Longrightarrow> length username < 256 \<Longrightarrow> length password < 256 \<Longrightarrow>
      negotiate (Some (username, password)) (tcp_on t (greeting methods @ login username password @ rest) sent) =
      (Ok (), tcp_on t rest (sent @ [SOCKS5_VERSION, SOCKS5_METHOD_USERNAME_PASSWORD, USERPASS_VERSION, USERPASS_STATUS_SUCCESS]))"
  using assms by (simp_all add: negotiate_def greeting_def io_run unat_of_length check_userpass_accepts Let_def)

lemma read_request_accepts:
  assumes "open_tcp t"
  shows "read_request (tcp_on t ([SOCKS5_VERSION, command, 0] @ encode_socket_addr (SocketV4 ip port) @ rest) sent) =
      (Ok \<lparr>sr_command = command, sr_address = show_socket_addr (SocketV4 ip port)\<rparr>, tcp_on t rest sent)"
    "read_request (tcp_on t ([SOCKS5_VERSION, command, 0] @ encode_socket_addr (SocketV6 ip6 port fl sc) @ rest) sent) =
      (Ok \<lparr>sr_command = command, sr_address = host_port (show_ipv6 ip6) port\<rparr>, tcp_on t rest sent)"
    "domain_address a host port \<Longrightarrow>
     read_request (tcp_on t ([SOCKS5_VERSION, command, 0] @
        ([SOCKS5_ATYP_DOMAIN, of_nat (length host)] @ as_bytes host @ be_bytes 2 port) @ rest) sent) =
      (Ok \<lparr>sr_command = command, sr_address = a\<rparr>, tcp_on t rest sent)"
  using assms
  by (simp_all add: read_request_def read_address_def read_host_def io_run socks5_constants encode_socket_addr_def
      take_append_length be_word_be_bytes show_ip_def show_socket_addr_host_port domain_address_def unat_of_nat
      from_utf8_def str_ok_def)

section \<open>Associations\<close>

text \<open>The packets that one peer asks to send, and the datagrams that carry the replies, in order.\<close>

fun asked_by :: "SocketAddr \<Rightarrow> assoc_event list \<Rightarrow> (string \<times> bytes) list" where
  "asked_by peer [] = []"
| "asked_by peer (LocalRecv (Inr (datagram, p)) # evs) =
     (if p = peer then (case parse_udp_datagram (take 4096 datagram) of Inr (Some packet) \<Rightarrow> [packet] | _ \<Rightarrow> []) else []) @
     asked_by peer evs"
| "asked_by peer (ev # evs) = asked_by peer evs"

fun replies :: "assoc_event list \<Rightarrow> bytes list" where
  "replies [] = []"
| "replies (RemoteRecv (Inr (body, from_addr)) # evs) =
     (case build_udp_datagram from_addr body of Inr packet \<Rightarrow> [packet] | _ \<Rightarrow> []) @ replies evs"
| "replies (ev # evs) = replies evs"

definition serves :: "SocketAddr \<Rightarrow> assoc_event list \<Rightarrow> association \<Rightarrow> association \<Rightarrow> bool" where
  "serves peer evs st st' \<longleftrightarrow>
     (\<exists>up. as_uploaded st' = as_uploaded st @ up \<and> prefix up (asked_by peer evs)) \<and>
     (\<exists>down. as_delivered st' = as_delivered st @ map (Pair peer) down \<and> subseq down (replies evs))"

lemma event_lists:
  "asked_by peer (ev # evs) = asked_by peer [ev] @ asked_by peer evs" "replies (ev # evs) = replies [ev] @ replies evs"
  by (cases "(peer, [ev])" rule: asked_by.cases; simp) (cases "[ev]" rule: replies.cases; simp)

lemma assoc_step_known:
  assumes "assoc_step env ev st = (st1, r1)" and "as_client st = Some peer"
  shows "as_client st1 = Some peer \<and> serves peer [ev] st st1 \<and>
    (r1 = None \<longrightarrow> as_uploaded st1 = as_uploaded st @ asked_by peer [ev])"
proof -
  have one: "\<exists>down. [(peer, x)] = map (Pair peer) down \<and> subseq down [x]" for x :: bytes
    by (intro exI[of _ "[x]"]) simp
  show ?thesis
    using assms
    by (cases ev) (auto simp: serves_def udp_local_to_remote_def udp_remote_to_local_def Let_def one
        split: sum.splits option.splits prod.splits if_splits)
qed

lemma serves_trans:
  assumes "serves peer [ev] st st1" and "as_uploaded st1 = as_uploaded st @ asked_by peer [ev]" and "serves peer evs st1 st'"
  shows "serves peer (ev # evs) st st'"
proof -
  obtain down up' down' where "as_delivered st1 = as_delivered st @ map (Pair peer) down" "subseq down (replies [ev])"
    "as_uploaded st' = as_uploaded st1 @ up'" "prefix up' (asked_by peer evs)"
    "as_delivered st' = as_delivered st1 @ map (Pair peer) down'" "subseq down' (replies evs)"
    using assms(1,3) by (auto simp: serves_def)
  with assms(2) show ?thesis
    unfolding serves_def event_lists(1)[of peer ev evs] event_lists(2)[of ev evs]
    by (auto intro!: exI[of _ "down @ down'"] list_emb_append_mono)
qed

lemma serves_more: "serves peer [ev] st st' \<Longrightarrow> serves peer (ev # evs) st st'"
  unfolding serves_def event_lists(1)[of peer ev evs] event_lists(2)[of ev evs]
  by (auto intro: list_emb_append2 subseq_order.trans)

lemma assoc_run_known:
  assumes "assoc_run env evs st = (st', r)" and "as_client st = Some peer"
  shows "serves peer evs st st' \<and> as_client st' = Some peer"
  using assms
proof (induction evs arbitrary: st)
  case (Cons ev evs)
  obtain st1 r1 where step: "assoc_step env ev st = (st1, r1)" by fastforce
  note known = assoc_step_known[OF step Cons.prems(2)]
  show ?case
  proof (cases r1)
    case None
    have "assoc_run env evs st1 = (st', r)" using step None Cons.prems(1) by simp
    from Cons.IH[OF this] known None show ?thesis by (blast intro: serves_trans)
  qed (use step Cons.prems known serves_more in auto)
qed (auto simp: serves_def)

lemma assoc_step_unknown:
  assumes "assoc_step env ev st = (st1, r1)" and "as_client st = None"
  shows "st1 = st \<and> (\<forall>peer. r1 = None \<longrightarrow> asked_by peer [ev] = []) \<or>
    (\<exists>peer. as_client st1 = Some peer \<and> serves peer [ev] st st1 \<and>
      (r1 = None \<longrightarrow> as_uploaded st1 = as_uploaded st @ asked_by peer [ev]) \<and> as_delivered st1 = as_delivered st)"
  using assms
  by (cases ev) (auto simp: serves_def udp_local_to_remote_def udp_remote_to_local_def Let_def
      split: sum.splits option.splits prod.splits if_splits)

lemma assoc_run_unknown:
  assumes "assoc_run env evs st = (st', r)" and "as_client st = None"
  shows "st' = st \<or> (\<exists>peer. serves peer evs st st' \<and> as_client st' = Some peer)"
  using assms
proof (induction evs)
  case (Cons ev evs)
  obtain st1 r1 where step: "assoc_step env ev st = (st1, r1)" by fastforce
  from assoc_step_unknown[OF step Cons.prems(2)] show ?case
  proof
    assume st1: "st1 = st \<and> (\<forall>peer. r1 = None \<longrightarrow> asked_by peer [ev] = [])"
    show ?thesis
    proof (cases r1)
      case None
      have "assoc_run env evs st = (st', r)" using step None Cons.prems(1) st1 by simp
      moreover have "serves peer [ev] st st \<and> as_uploaded st = as_uploaded st @ asked_by peer [ev]" for peer
        using st1 None by (simp add: serves_def)
      ultimately show ?thesis using Cons.IH[OF _ Cons.prems(2)] serves_trans by blast
    qed (use step Cons.prems st1 in simp)
  next
    assume "\<exists>peer. as_client st1 = Some peer \<and> serves peer [ev] st st1 \<and>
      (r1 = None \<longrightarrow> as_uploaded st1 = as_uploaded st @ asked_by peer [ev]) \<and> as_delivered st1 = as_delivered st"
    then obtain peer where known: "as_client st1 = Some peer" "serves peer [ev] st st1"
      "r1 = None \<longrightarrow> as_uploaded st1 = as_uploaded st @ asked_by peer [ev]" by blast
    show ?thesis
    proof (cases r1)
      case None
      have "assoc_run env evs st1 = (st', r)" using step None Cons.prems(1) by simp
      from assoc_run_known[OF this known(1)] known None show ?thesis by (auto intro: serves_trans)
    qed (use step Cons.prems known serves_more in auto)
  qed
qed simp

section \<open>Requests\<close>

datatype socks_dest = DestV4 Ipv4Addr u16 | DestV6 Ipv6Addr u16 | DestDomain string u16

definition dest_bytes :: "socks_dest \<Rightarrow> bytes" where
  "dest_bytes dest =
     (case dest of
        DestV4 ip port \<Rightarrow> encode_socket_addr (SocketV4 ip port)
      | DestV6 ip port \<Rightarrow> encode_socket_addr (SocketV6 ip port 0 0)
      | DestDomain host port \<Rightarrow> [SOCKS5_ATYP_DOMAIN, of_nat (length host)] @ as_bytes host @ be_bytes 2 port)"

text \<open>The text handed to the proxy client; an IPv6 address goes without brackets.\<close>

definition dest_text :: "socks_dest \<Rightarrow> string" where
  "dest_text dest =
     (case dest of
        DestV4 ip port \<Rightarrow> host_port (show_ipv4 ip) port
      | DestV6 ip port \<Rightarrow> host_port (show_ipv6 ip) port
      | DestDomain host port \<Rightarrow> host_port host port)"

definition dest_ok :: "socks_dest \<Rightarrow> bool" where
  "dest_ok dest = (case dest of DestDomain host port \<Rightarrow> str_ok host \<and> length host \<le> 255 | _ \<Rightarrow> True)"

lemma read_request_dest:
  assumes "dest_ok dest"
  shows "read_request (tcp_on t ([SOCKS5_VERSION, command, 0] @ dest_bytes dest @ rest) sent) =
      (Ok \<lparr>sr_command = command, sr_address = dest_text dest\<rparr>, tcp_on t rest sent)"
  using assms
  by (cases dest) (simp_all add: dest_ok_def dest_bytes_def dest_text_def read_request_def read_address_def read_host_def io_run
      socks5_constants encode_socket_addr_def take_append_length be_word_be_bytes show_ip_def unat_of_nat from_utf8_def str_ok_def)

section \<open>Properties\<close>

text \<open>
  C24: With a user name and password configured, a SOCKS5 client passes the negotiation exactly
  when it offers the password method and sends exactly these credentials; any other client ends
  in an error that does not depend on the proxy, so nothing was opened or sent for it.
\<close>

theorem socks5_login_gate:
  assumes "open_tcp t" and "length username < 256" and "length password < 256"
  shows "if \<exists>methods rest. SOCKS5_METHOD_USERNAME_PASSWORD \<in> set methods \<and> length methods < 256 \<and>
        pending (tc_in t) = greeting methods @ login username password @ rest
    then \<exists>t'. negotiate (Some (username, password)) t = (Ok (), t')
    else \<exists>e t'. \<forall>tcp_open setup env events.
      handle_client tcp_open setup env events (Some (username, password)) disable_udp t = (Err e, t')"
proof (cases "\<exists>methods rest. SOCKS5_METHOD_USERNAME_PASSWORD \<in> set methods \<and> length methods < 256 \<and>
        pending (tc_in t) = greeting methods @ login username password @ rest")
  case True
  then obtain methods rest where m: "SOCKS5_METHOD_USERNAME_PASSWORD \<in> set methods" "length methods < 256"
    "pending (tc_in t) = greeting methods @ login username password @ rest" by blast
  have "t = tcp_on t (greeting methods @ login username password @ rest) []" using tcp_on_self[of t] m(3) by simp
  then have "\<exists>t'. negotiate (Some (username, password)) t = (Ok (), t')"
    using negotiate_accepts(2)[OF assms(1) m(2) m(1) assms(2,3), of rest "[]"] by metis
  with True show ?thesis by simp
next
  case False
  then have "negotiate (Some (username, password)) t \<noteq> (Ok (), t')" for t' using negotiate_login by blast
  then obtain e t' where "negotiate (Some (username, password)) t = (Err e, t')"
    by (cases "negotiate (Some (username, password)) t"; cases "fst (negotiate (Some (username, password)) t)") auto
  then show ?thesis using False by (auto simp: handle_client_def io_run)
qed

theorem socks5_login_gate_witness:
  "\<exists>t'. negotiate (Some (''ab'', ''c'')) \<lparr>tc_in = \<lparr>pending = [5, 1, 2, 1, 2, 97, 98, 1, 99], ending = AtEof\<rparr>,
     tc_out = new_vec\<rparr> = (Ok (), t')"
proof -
  let ?t = "\<lparr>tc_in = \<lparr>pending = [5, 1, 2, 1, 2, 97, 98, 1, 99], ending = AtEof\<rparr>, tc_out = new_vec\<rparr>"
  have "pending (tc_in ?t) = greeting [2] @ login ''ab'' ''c'' @ []"
    by (simp add: greeting_def login_def socks5_constants as_bytes_def)
  moreover have "SOCKS5_METHOD_USERNAME_PASSWORD \<in> set [2]" "length [2 :: u8] < 256" by (simp_all add: socks5_constants)
  ultimately have "\<exists>methods rest. SOCKS5_METHOD_USERNAME_PASSWORD \<in> set methods \<and> length methods < 256 \<and>
      pending (tc_in ?t) = greeting methods @ login ''ab'' ''c'' @ rest" by blast
  moreover have "open_tcp ?t" by (simp add: open_tcp_def new_vec_def)
  ultimately show ?thesis using socks5_login_gate[of ?t "''ab''" "''c''"] by simp
qed

text \<open>
  C25: The datagram format of an association round trips: a reply built for an IPv4, IPv6 or
  domain destination is parsed back as that destination and payload, and a datagram with a
  numeric destination is rebuilt byte for byte from what was parsed of it.
\<close>

theorem socks5_datagram_roundtrip:
  assumes "datagram_address a"
  shows "(\<exists>d. build_udp_datagram a body = Ok d \<and> parse_udp_datagram d = Ok (Some (a, body))) \<and>
    (\<forall>d a' body'. parse_udp_datagram d = Ok (Some (a', body')) \<longrightarrow> d ! 3 = SOCKS5_ATYP_IPV4 \<or> d ! 3 = SOCKS5_ATYP_IPV6 \<longrightarrow>
      build_udp_datagram a' body' = Ok d)"
proof (intro conjI allI impI built_datagram[OF assms])
  fix d a' body' assume d: "parse_udp_datagram d = Ok (Some (a', body'))" "d ! 3 = SOCKS5_ATYP_IPV4 \<or> d ! 3 = SOCKS5_ATYP_IPV6"
  obtain atyp rest n where p: "d = [0, 0, 0] @ atyp # rest" "parse_address_from_bytes rest atyp = Ok (a', n)" "body' = drop n rest"
    using parsed_datagram[OF d(1)] by blast
  with d(2) have "encode_address a' = Ok (atyp # take n rest)" by (intro parsed_ip_address) (auto simp: numeral_3_eq_3)
  with p show "build_udp_datagram a' body' = Ok d" by (simp add: build_udp_datagram_def)
qed

theorem socks5_datagram_roundtrip_witness:
  "\<exists>d. build_udp_datagram (show_socket_addr (SocketV4 (Ipv4Addr 8 8 8 8) 53)) [1, 2] = Ok d \<and>
     parse_udp_datagram d = Ok (Some (show_socket_addr (SocketV4 (Ipv4Addr 8 8 8 8) 53), [1, 2]))"
proof -
  have "datagram_address (show_socket_addr (SocketV4 (Ipv4Addr 8 8 8 8) 53))" unfolding datagram_address_def by blast
  from socks5_datagram_roundtrip[OF this] show ?thesis by blast
qed

text \<open>
  C26: A UDP association serves one peer only, whatever arrives from whom and in which order:
  the packets it forwards are the first ones that one peer asked for, in their order, and every
  datagram it sends goes to that peer and is the encoding of a packet received for it.
\<close>

theorem socks5_association_isolated:
  assumes "assoc_run env events association_new = (st, r)"
  shows "\<exists>peer down. prefix (as_uploaded st) (asked_by peer events) \<and>
    as_delivered st = map (Pair peer) down \<and> subseq down (replies events)"
  using assoc_run_unknown[OF assms] by (auto simp: serves_def association_new_def)

theorem socks5_association_isolated_witness:
  "\<exists>st r peer down.
     assoc_run \<lparr>ae_send = \<lambda>_ _. Ok (), ae_send_to = \<lambda>_ _. Ok ()\<rparr>
       [LocalRecv (Ok ([0, 0, 0, 1, 8, 8, 8, 8, 0, 53, 7], SocketV4 (Ipv4Addr 127 0 0 1) 9)),
        RemoteRecv (Ok ([1], ''8.8.8.8:53''))] association_new = (st, r) \<and>
     as_delivered st = map (Pair peer) down"
  using socks5_association_isolated
  by (metis surj_pair)

text \<open>
  A CONNECT request without login reaches the proxy with the destination the client named:
  the stream is joined with what the proxy opened for it, the bytes after the request are left
  for the relay, and the client reads a success reply, or a failure reply when the proxy could
  not open the destination.
\<close>

lemma socks5_connect:
  assumes "open_tcp t" and "SOCKS5_METHOD_NONE \<in> set methods" and "length methods < 256" and "dest_ok dest"
    and "pending (tc_in t) = greeting methods @ [SOCKS5_VERSION, SOCKS5_CMD_CONNECT, 0] @ dest_bytes dest @ rest"
  shows "handle_client tcp_open setup env events None disable_udp t =
    (case tcp_open (dest_text dest) of
       Inr remote \<Rightarrow> (Ok (Relayed remote), tcp_on t rest [5, 0, 5, 0, 0, 1, 0, 0, 0, 0, 0, 0])
     | Inl e \<Rightarrow> (Err [CoreCause e], tcp_on t rest [5, 0, 5, 4, 0, 1, 0, 0, 0, 0, 0, 0]))"
proof -
  have t: "t = tcp_on t (greeting methods @ [SOCKS5_VERSION, SOCKS5_CMD_CONNECT, 0] @ dest_bytes dest @ rest) []"
    using tcp_on_self[of t] assms(5) by simp
  have n: "negotiate None t = (Ok (), tcp_on t ([SOCKS5_VERSION, SOCKS5_CMD_CONNECT, 0] @ dest_bytes dest @ rest)
      ([] @ [SOCKS5_VERSION, SOCKS5_METHOD_NONE]))"
    by (subst t) (rule negotiate_accepts(1)[OF assms(1,3,2)])
  have "handle_client tcp_open setup env events None disable_udp t =
      io_then (handle_connect tcp_open (dest_text dest)) (\<lambda>remote. io_return (Relayed remote)) (tcp_on t rest [SOCKS5_VERSION, SOCKS5_METHOD_NONE])"
    unfolding handle_client_def
    by (subst io_then_def, subst n, simp only: prod.case sum.case, subst io_then_def, subst read_request_dest[OF assms(4)]) simp
  then show ?thesis
    using assms(1) by (simp add: io_run handle_connect_def write_reply_def encode_socket_addr_def socket_addr_new_def
      Let_def socks5_constants be_bytes_def numeral_2_eq_2 split: sum.split)
qed

end
