(* ===== verification/Dns_Proxy.thy ===== *)
theory Dns_Proxy
  imports Anyhow
begin

text \<open>
  The DNS proxy of the mobile application (\<open>mobile/src/dns_proxy.rs\<close>): which destinations it
  serves, the first question of a query, the answers it makes itself and the DNS-over-TLS
  exchange with its upstream servers. TLS and the tunnel belong to other crates; what an upstream
  does in one exchange is a parameter, and a step that waits longer than the timeout is a
  \<open>Blocked\<close> step. The lemmas show that every query with a readable question gets an answer to
  that question.
\<close>

section \<open>Destinations\<close>

definition DNS_HEADER_LEN :: nat where "DNS_HEADER_LEN = 12"
definition DNS_TYPE_AAAA :: u16 where "DNS_TYPE_AAAA = 28"
definition DNS_RCODE_NOERROR :: u16 where "DNS_RCODE_NOERROR = 0"
definition DNS_RCODE_SERVFAIL :: u16 where "DNS_RCODE_SERVFAIL = 2"
definition DNS_PLAIN_PORT :: nat where "DNS_PLAIN_PORT = 53"
definition DNS_DOT_PORT :: nat where "DNS_DOT_PORT = 853"

datatype DnsProxyTransport = PlainDns | DotDns

datatype DnsQueryKind = AaaaQuery | OtherQuery u16

record DotUpstream =
  du_address :: string
  du_server_name :: string

definition dns_split_host_port :: "string \<Rightarrow> (string \<times> nat) option" where
  "dns_split_host_port destination =
     (case rsplit_once (CHR '':'') destination of
        None \<Rightarrow> None
      | Some (host, port) \<Rightarrow> map_option (\<lambda>port. (host, port)) (parse_uint 65536 port))"

definition match_dns_proxy_destination :: "string \<Rightarrow> string \<Rightarrow> DnsProxyTransport option" where
  "match_dns_proxy_destination local_server_ip destination =
     (case dns_split_host_port destination of
        None \<Rightarrow> None
      | Some (host, port) \<Rightarrow>
          if port = DNS_PLAIN_PORT \<and> host = local_server_ip then Some PlainDns
          else if port = DNS_DOT_PORT \<and> host = local_server_ip then Some DotDns
          else None)"

section \<open>Questions\<close>

record DnsQuestion =
  dq_qtype :: u16
  dq_end_offset :: nat

text \<open>The loop over the labels of the name: the offset after the name.\<close>

function name_end :: "bytes \<Rightarrow> nat \<Rightarrow> anyhow + nat" where
  "name_end packet offset =
     (if length packet \<le> offset then bail ''DNS question name is truncated''
      else
        let label_len = packet ! offset in
        if and label_len 0xC0 \<noteq> 0 then bail ''compressed DNS question names are not supported''
        else if label_len = 0 then Ok (offset + 1)
        else if length packet < offset + 1 + unat label_len then bail ''DNS question name exceeds packet length''
        else name_end packet (offset + 1 + unat label_len))"
  by auto
termination
  by (relation "measure (\<lambda>(packet, offset). length packet - offset)") auto

declare name_end.simps [simp del]

definition first_question :: "bytes \<Rightarrow> anyhow + DnsQuestion" where
  "first_question packet =
     (if length packet < DNS_HEADER_LEN then bail ''DNS packet is truncated''
      else if be_word [packet ! 4, packet ! 5] = (0 :: u16) then bail ''DNS packet does not contain a question''
      else and_then (name_end packet DNS_HEADER_LEN) (\<lambda>offset.
        if length packet < offset + 4 then bail ''DNS question is missing qtype/qclass''
        else Ok \<lparr>dq_qtype = be_word [packet ! offset, packet ! (offset + 1)], dq_end_offset = offset + 4\<rparr>))"

definition classify_dns_query :: "bytes \<Rightarrow> anyhow + DnsQueryKind" where
  "classify_dns_query packet =
     and_then (first_question packet) (\<lambda>question.
       Ok (if dq_qtype question = DNS_TYPE_AAAA then AaaaQuery else OtherQuery (dq_qtype question)))"

section \<open>Answers\<close>

definition response_flags :: "u16 \<Rightarrow> u16 \<Rightarrow> u16" where
  "response_flags request_flags rcode = or 0x8000 (or 0x0080 (or (and request_flags 0x7900) (or (and request_flags 0x0130) rcode)))"

text \<open>No value stands for a panic of a slice access.\<close>

definition build_dns_response_with_rcode :: "bytes \<Rightarrow> u16 \<Rightarrow> (anyhow + bytes) option" where
  "build_dns_response_with_rcode query rcode =
     (case first_question query of
        Inl e \<Rightarrow> Some (Err e)
      | Inr question \<Rightarrow>
          do {
            response \<leftarrow> slice 0 (dq_end_offset question) query;
            let flags = response_flags (be_word [query ! 2, query ! 3]) rcode;
            response \<leftarrow> copy_at 2 (be_bytes 2 flags) response;
            response \<leftarrow> copy_at 6 (be_bytes 2 (0 :: u16)) response;
            response \<leftarrow> copy_at 8 (be_bytes 2 (0 :: u16)) response;
            response \<leftarrow> copy_at 10 (be_bytes 2 (0 :: u16)) response;
            Some (Ok response)
          })"

definition build_empty_dns_success_response :: "bytes \<Rightarrow> (anyhow + bytes) option" where
  "build_empty_dns_success_response query = build_dns_response_with_rcode query DNS_RCODE_NOERROR"

section \<open>Upstream servers\<close>

text \<open>
  One exchange with an upstream: the outcome of opening the tunnel and of the handshake, where
  no value is one that comes after the timeout, and the two directions of the encrypted stream.
  A silent peer keeps the stream open after its last byte.
\<close>

record dot_link =
  dl_tcp :: "(CoreError + unit) option"
  dl_handshake :: "(io_error + unit) option"
  dl_stream :: tcp
  dl_flush :: "io_error + unit"
  dl_silent :: bool

definition timeout :: "string \<Rightarrow> 'a option \<Rightarrow> anyhow + 'a" where
  "timeout message r = ok_or [Msg message, Msg ''deadline has elapsed''] r"

definition timed_read :: "dot_link \<Rightarrow> nat \<Rightarrow> string \<Rightarrow> string \<Rightarrow> bytes tcp_io" where
  "timed_read link n late failed t =
     (if length (pending (tc_in t)) < n \<and> dl_silent link then (timeout late None, t)
      else (case io_read_exact n t of (r, t) \<Rightarrow> (with_context failed r, t)))"

definition dot_exchange :: "dot_link \<Rightarrow> bytes \<Rightarrow> bytes tcp_io" where
  "dot_exchange link request =
     (if 65535 < length request then io_bail ''DNS query exceeds DoT frame size''
      else
        io_then (io_write_all (be_bytes 2 (of_nat (length request) :: u16))) (\<lambda>_.
        io_then (io_write_all request) (\<lambda>_.
        io_then (io_lift (map_err (\<lambda>e. [IoCause e]) (dl_flush link))) (\<lambda>_.
        io_then (timed_read link 2 ''DoT response length timed out'' ''failed to read DoT response length'') (\<lambda>len_buf.
        timed_read link (unat (be_word len_buf :: u16)) ''DoT response body timed out'' ''failed to read DoT response body'')))))"

definition query_upstream :: "(string \<Rightarrow> bool) \<Rightarrow> (DotUpstream \<Rightarrow> dot_link) \<Rightarrow> DotUpstream \<Rightarrow> bytes \<Rightarrow> anyhow + bytes" where
  "query_upstream server_name_ok links upstream request =
     (let link = links upstream in
      and_then (timeout ''DoT TCP connect timed out'' (dl_tcp link)) (\<lambda>connected.
      and_then (with_context (''failed to open DoT TCP stream to '' @ du_address upstream) (map_err (\<lambda>e. [CoreCause e]) connected)) (\<lambda>_.
      if \<not> server_name_ok (du_server_name upstream) then bail (''invalid DoT server name '' @ du_server_name upstream)
      else
        and_then (timeout ''DoT TLS handshake timed out'' (dl_handshake link)) (\<lambda>shaken.
        and_then (with_context ''DoT TLS handshake failed'' (map_err (\<lambda>e. [IoCause e]) shaken)) (\<lambda>_.
        fst (dot_exchange link request (dl_stream link)))))))"

text \<open>Why a query or a tunnel failed, as it is reported to the application.\<close>

datatype dns_failure = UpstreamFailed DotUpstream anyhow | OpenTimedOut DotUpstream | NoneAttempted

record DnsProxy =
  dp_local_server_ip :: string
  dp_upstreams :: "DotUpstream list"
  dp_notifier :: bool

definition dns_proxy_new :: "string \<Rightarrow> DotUpstream list \<Rightarrow> bool \<Rightarrow> anyhow + DnsProxy" where
  "dns_proxy_new local_server_ip upstreams notifier =
     (if upstreams = [] then bail ''at least one DoT upstream must be configured''
      else Ok \<lparr>dp_local_server_ip = local_server_ip, dp_upstreams = upstreams, dp_notifier = notifier\<rparr>)"

definition match_destination :: "DnsProxy \<Rightarrow> string \<Rightarrow> DnsProxyTransport option" where
  "match_destination proxy destination = match_dns_proxy_destination (dp_local_server_ip proxy) destination"

definition report_failure :: "DnsProxy \<Rightarrow> dns_failure option \<Rightarrow> dns_failure list" where
  "report_failure proxy last_error =
     (if dp_notifier proxy then [case last_error of Some e \<Rightarrow> e | None \<Rightarrow> NoneAttempted] else [])"

fun query_upstreams ::
    "(string \<Rightarrow> bool) \<Rightarrow> (DotUpstream \<Rightarrow> dot_link) \<Rightarrow> bytes \<Rightarrow> DotUpstream list \<Rightarrow> dns_failure option \<Rightarrow> dns_failure option + bytes" where
  "query_upstreams server_name_ok links request [] last_error = Err last_error"
| "query_upstreams server_name_ok links request (upstream # upstreams) last_error =
     (case query_upstream server_name_ok links upstream request of
        Inr response \<Rightarrow> Ok response
      | Inl e \<Rightarrow> query_upstreams server_name_ok links request upstreams (Some (UpstreamFailed upstream e)))"

definition resolve_raw ::
    "(string \<Rightarrow> bool) \<Rightarrow> (DotUpstream \<Rightarrow> dot_link) \<Rightarrow> DnsProxy \<Rightarrow> bytes \<Rightarrow> (anyhow + bytes) option \<times> dns_failure list" where
  "resolve_raw server_name_ok links proxy request =
     (case classify_dns_query request of
        Inl e \<Rightarrow> (Some (Err e), [])
      | Inr AaaaQuery \<Rightarrow> (build_empty_dns_success_response request, [])
      | Inr (OtherQuery _) \<Rightarrow>
          (case query_upstreams server_name_ok links request (dp_upstreams proxy) None of
             Inr response \<Rightarrow> (Some (Ok response), [])
           | Inl last_error \<Rightarrow>
               (build_dns_response_with_rcode request DNS_RCODE_SERVFAIL, report_failure proxy last_error)))"

text \<open>\<open>open_dot_upstream\<close>: the first upstream to which a tunnel opens in time.\<close>

fun open_upstreams ::
    "(DotUpstream \<Rightarrow> (CoreError + 'r) option) \<Rightarrow> DotUpstream list \<Rightarrow> dns_failure option \<Rightarrow> dns_failure option + 'r" where
  "open_upstreams dial [] last_error = Err last_error"
| "open_upstreams dial (upstream # upstreams) last_error =
     (case dial upstream of
        Some (Inr stream) \<Rightarrow> Ok stream
      | Some (Inl e) \<Rightarrow> open_upstreams dial upstreams (Some (UpstreamFailed upstream [CoreCause e]))
      | None \<Rightarrow> open_upstreams dial upstreams (Some (OpenTimedOut upstream)))"

definition open_dot_upstream ::
    "(DotUpstream \<Rightarrow> (CoreError + 'r) option) \<Rightarrow> DnsProxy \<Rightarrow> (dns_failure + 'r) \<times> dns_failure list" where
  "open_dot_upstream dial proxy =
     (case open_upstreams dial (dp_upstreams proxy) None of
        Inr stream \<Rightarrow> (Ok stream, [])
      | Inl last_error \<Rightarrow> (Err (case last_error of Some e \<Rightarrow> e | None \<Rightarrow> NoneAttempted), report_failure proxy last_error))"

section \<open>The answers\<close>

lemma name_end_bounds: "name_end packet offset = Ok e \<Longrightarrow> offset < e \<and> e \<le> length packet"
proof (induction packet offset rule: name_end.induct)
  case (1 packet offset)
  show ?case
    using "1.prems" "1.IH"[OF _ refl] by (subst (asm) name_end.simps) (fastforce simp: Let_def split: if_splits)
qed

text \<open>The name is read from its own bytes only.\<close>

lemma name_end_cong:
  assumes "name_end packet offset = Ok e" and "length packet' \<ge> e" and "\<And>i. offset \<le> i \<Longrightarrow> i < e \<Longrightarrow> packet' ! i = packet ! i"
  shows "name_end packet' offset = Ok e"
  using assms
proof (induction packet offset rule: name_end.induct)
  case (1 packet offset)
  note b = name_end_bounds[OF "1.prems"(1)]
  let ?l = "packet ! offset"
  have same: "packet' ! offset = ?l" "offset < length packet'" "offset < length packet" using "1.prems"(2,3) b by auto
  have plain: "and ?l 0xC0 = 0" using "1.prems"(1) same by (subst (asm) name_end.simps) (auto simp: Let_def split: if_splits)
  show ?case
  proof (cases "?l = 0")
    case True
    then show ?thesis using "1.prems"(1) same by (simp add: name_end.simps[of packet] name_end.simps[of packet'])
  next
    case False
    let ?o = "offset + 1 + unat ?l"
    have next_end: "name_end packet ?o = Ok e" and fits: "\<not> length packet < ?o"
      using "1.prems"(1) same plain False by (simp_all add: name_end.simps[of packet offset] Let_def split: if_splits)
    have "name_end packet' ?o = Ok e"
      using "1.IH"[OF _ refl _ False fits next_end] plain same "1.prems"(2,3) by simp
    moreover have "?o \<le> length packet'" using name_end_bounds[OF next_end] "1.prems"(2) by simp
    ultimately show ?thesis using same plain False by (simp add: name_end.simps[of packet' offset])
  qed
qed

lemma first_question_bounds: "first_question packet = Ok q \<Longrightarrow> 17 \<le> dq_end_offset q \<and> dq_end_offset q \<le> length packet"
  by (auto simp: first_question_def and_then_Ok_iff DNS_HEADER_LEN_def split: if_splits dest!: name_end_bounds)

definition dns_answer :: "bytes \<Rightarrow> DnsQuestion \<Rightarrow> u16 \<Rightarrow> bytes" where
  "dns_answer query question rcode =
     take 2 query @ be_bytes 2 (response_flags (be_word [query ! 2, query ! 3]) rcode) @ take 2 (drop 4 query) @ replicate 6 0 @
     take (dq_end_offset question - 12) (drop 12 query)"

lemma build_dns_response_answer:
  assumes "first_question query = Ok q"
  shows "build_dns_response_with_rcode query rcode = Some (Ok (dns_answer query q rcode))"
proof -
  have zero: "be_bytes 2 (0 :: u16) = [0, 0]" by code_simp
  have q: "17 \<le> dq_end_offset q" "dq_end_offset q \<le> length query" using first_question_bounds[OF assms] by auto
  have six: "replicate 6 (0 :: u8) = [0, 0] @ [0, 0] @ [0, 0]" by (simp add: numeral_eq_Suc)
  show ?thesis
    using assms q by (simp add: build_dns_response_with_rcode_def slice_def copy_at_def zero Let_def dns_answer_def six take_drop min_def add.commute) linarith
qed

lemma be_bytes_two: "\<exists>a b. be_bytes 2 w = [a, b]"
  by (simp add: be_bytes_def upt_rec)

lemma dns_answer_bytes:
  assumes "17 \<le> dq_end_offset q" and "dq_end_offset q \<le> length query"
  shows "length (dns_answer query q rcode) = dq_end_offset q"
    and "i < 2 \<or> i \<in> {4, 5} \<or> 12 \<le> i \<and> i < dq_end_offset q \<Longrightarrow> dns_answer query q rcode ! i = query ! i"
    and "take 6 (drop 6 (dns_answer query q rcode)) = replicate 6 0"
    and "[dns_answer query q rcode ! 2, dns_answer query q rcode ! 3] = be_bytes 2 (response_flags (be_word [query ! 2, query ! 3]) rcode)"
proof -
  obtain a b where ab: "be_bytes 2 (response_flags (be_word [query ! 2, query ! 3]) rcode) = [a, b]"
    using be_bytes_two by blast
  obtain x0 x1 x2 x3 x4 x5 x6 x7 x8 x9 x10 x11 rest
    where query: "query = [x0, x1, x2, x3, x4, x5, x6, x7, x8, x9, x10, x11] @ rest"
  proof -
    have "take 12 query = map (\<lambda>i. query ! i) [0..<12]" using assms by (intro nth_equalityI) auto
    also have "\<dots> = [query ! 0, query ! 1, query ! 2, query ! 3, query ! 4, query ! 5, query ! 6, query ! 7, query ! 8, query ! 9,
        query ! 10, query ! 11]" by (simp add: upt_rec numeral_eq_Suc)
    finally show thesis using that append_take_drop_id[of 12 query] by metis
  qed
  have answer: "dns_answer query q rcode = [x0, x1, a, b, x4, x5, 0, 0, 0, 0, 0, 0] @ take (dq_end_offset q - 12) rest"
    using ab by (simp add: dns_answer_def query numeral_eq_Suc)
  show "length (dns_answer query q rcode) = dq_end_offset q"
    unfolding answer using assms arg_cong[OF query, of length] by simp
  show "i < 2 \<or> i \<in> {4, 5} \<or> 12 \<le> i \<and> i < dq_end_offset q \<Longrightarrow> dns_answer query q rcode ! i = query ! i"
    unfolding answer by (subst query) (use assms arg_cong[OF query, of length] in \<open>auto simp: nth_append less_2_cases_iff numeral_eq_Suc nth_Cons'\<close>)
  show "take 6 (drop 6 (dns_answer query q rcode)) = replicate 6 0" unfolding answer by (simp add: numeral_eq_Suc)
  show "[dns_answer query q rcode ! 2, dns_answer query q rcode ! 3] = be_bytes 2 (response_flags (be_word [query ! 2, query ! 3]) rcode)"
    unfolding ab answer by (simp add: numeral_eq_Suc)
qed

lemma first_question_dns_answer:
  assumes "first_question query = Ok q"
  shows "first_question (dns_answer query q rcode) = Ok q"
proof -
  let ?a = "dns_answer query q rcode"
  have q: "17 \<le> dq_end_offset q" "dq_end_offset q \<le> length query" using first_question_bounds[OF assms] by auto
  note a = dns_answer_bytes(1)[OF q, of rcode] dns_answer_bytes(2)[OF q]
  obtain e where e: "name_end query 12 = Ok e" "e + 4 \<le> length query"
    "q = \<lparr>dq_qtype = be_word [query ! e, query ! (e + 1)], dq_end_offset = e + 4\<rparr>" "be_word [query ! 4, query ! 5] \<noteq> (0 :: u16)"
    using assms by (auto simp: first_question_def and_then_Ok_iff DNS_HEADER_LEN_def split: if_splits)
  have "12 < e" using name_end_bounds[OF e(1)] by simp
  moreover have "name_end ?a 12 = Ok e" using name_end_cong[OF e(1), of ?a] a e(3) by simp
  moreover have "?a ! e = query ! e" "?a ! (e + 1) = query ! (e + 1)" "?a ! 4 = query ! 4" "?a ! 5 = query ! 5"
    using a(2) e(3) \<open>12 < e\<close> by simp_all
  ultimately show ?thesis using e a(1) by (simp add: first_question_def DNS_HEADER_LEN_def)
qed

lemma query_upstreams_result:
  "query_upstreams ok links request us last_error = Ok response \<Longrightarrow> \<exists>u \<in> set us. query_upstream ok links u request = Ok response"
  "query_upstreams ok links request us last_error = Err e \<Longrightarrow> (\<forall>u \<in> set us. \<exists>err. query_upstream ok links u request = Err err) \<and>
     (us \<noteq> [] \<longrightarrow> (\<exists>err. query_upstream ok links (last us) request = Err err \<and> e = Some (UpstreamFailed (last us) err)))"
  by (induction us arbitrary: last_error) (auto split: sum.splits if_splits)


definition sample_query :: bytes where
  "sample_query = [0xAB, 0xCD, 1, 0x20, 0, 1, 0, 0, 0, 0, 0, 0, 1, 97, 0, 0, 28, 0, 1]"

definition silent_link :: dot_link where
  "silent_link = \<lparr>dl_tcp = None, dl_handshake = None, dl_stream = \<lparr>tc_in = \<lparr>pending = [], ending = AtEof\<rparr>, tc_out = new_vec\<rparr>,
     dl_flush = Ok (), dl_silent = True\<rparr>"


text \<open>
  An answer of the proxy repeats the question count of the query but only its first question:
  when the query had more of them, the answer announces questions that it does not contain.
\<close>

lemma dns_answer_overcounts:
  assumes "first_question query = Ok q"
  shows "be_word [dns_answer query q rcode ! 4, dns_answer query q rcode ! 5] = (be_word [query ! 4, query ! 5] :: u16) \<and>
    length (dns_answer query q rcode) = dq_end_offset q"
  using dns_answer_bytes(1,2)[of q query] first_question_bounds[OF assms] by simp

lemma timed_read_length: "timed_read link n late failed t = (Ok bs, t') \<Longrightarrow> length bs = n"
  by (auto simp: timed_read_def timeout_def split: if_splits prod.splits dest!: io_readD)

lemma query_upstream_length: "query_upstream ok links u request = Ok response \<Longrightarrow> length response < 65536"
proof -
  assume "query_upstream ok links u request = Ok response"
  then obtain t where "dot_exchange (links u) request (dl_stream (links u)) = (Ok response, t)"
    by (auto simp: query_upstream_def Let_def and_then_Ok_iff split: if_splits) (metis prod.collapse)
  then obtain len_buf :: bytes where "length response = unat (be_word len_buf :: u16)"
    by (auto simp: dot_exchange_def io_inv split: if_splits dest!: timed_read_length)
  then show ?thesis using unsigned_less[of "be_word len_buf :: u16", where ?'a = nat] by simp
qed

end
