(* ===== verification/Local_Socks.thy ===== *)
theory Local_Socks
  imports Socks5 Dns_Proxy
begin

text \<open>
  The SOCKS5 server of the mobile application (\<open>mobile/src/local_socks.rs\<close>). Its negotiation,
  requests, replies and datagrams are those of the command line program, and the definitions of
  \<open>Socks5\<close> are used for them. This theory has what differs: destinations that the DNS proxy
  serves, associations that carry DNS only, and the errors for which the application reconnects.
  The links of the \<open>n\<close>-th query of a connection are a parameter. The lemmas show that a client's
  queries over TCP are answered one by one and in order.
\<close>

section \<open>Reconnecting\<close>

definition connection_recovery_reason_from_core :: "CoreError \<Rightarrow> string option" where
  "connection_recovery_reason_from_core core =
     (case core of
        Closed reason \<Rightarrow> Some (''connection closed: '' @ reason)
      | Transport reason \<Rightarrow> Some (''connection transport failed: '' @ reason)
      | Connect reason \<Rightarrow> Some (''connection connect failed: '' @ reason)
      | _ \<Rightarrow> None)"

fun connection_recovery_reason :: "anyhow \<Rightarrow> string option" where
  "connection_recovery_reason [] = None"
| "connection_recovery_reason (CoreCause core # causes) =
     (case connection_recovery_reason_from_core core of
        Some reason \<Rightarrow> Some reason
      | None \<Rightarrow> connection_recovery_reason causes)"
| "connection_recovery_reason (_ # causes) = connection_recovery_reason causes"

definition relay_failure :: "io_error \<Rightarrow> string option \<Rightarrow> string \<Rightarrow> anyhow" where
  "relay_failure e close_reason message =
     (case close_reason of
        Some reason \<Rightarrow> [Msg message, CoreCause (Closed reason)]
      | None \<Rightarrow> [Msg message, IoCause e])"

section \<open>DNS over TCP\<close>

record local_env =
  le_name_ok :: "string \<Rightarrow> bool"
  le_links :: "nat \<Rightarrow> DotUpstream \<Rightarrow> dot_link"
  le_flush :: "nat \<Rightarrow> io_error + unit"
  le_close_reason :: "string option"

text \<open>One round of the loop; the result says whether the loop goes on.\<close>

definition dns_tcp_round :: "local_env \<Rightarrow> DnsProxy \<Rightarrow> nat \<Rightarrow> tcp \<Rightarrow> ((anyhow + bool) \<times> tcp \<times> dns_failure list) run" where
  "dns_tcp_round env proxy n t =
     (case pending (tc_in t) of
        [] \<Rightarrow> Returned ((case ending (tc_in t) of AtEof \<Rightarrow> Ok False | AtError e \<Rightarrow> Err [IoCause e]), t, [])
      | b # rest \<Rightarrow>
          (case io_then (io_read_exact 1) (\<lambda>more_len. io_read_exact (unat (be_word (b # more_len) :: u16)))
                  (t\<lparr>tc_in := (tc_in t)\<lparr>pending := rest\<rparr>\<rparr>) of
             (Inl e, t) \<Rightarrow> Returned (Err e, t, [])
           | (Inr query, t) \<Rightarrow>
               (case resolve_raw (le_name_ok env) (le_links env n) proxy query of
                  (None, _) \<Rightarrow> Panicked
                | (Some (Inl e), reported) \<Rightarrow> Returned (Err e, t, reported)
                | (Some (Inr response), reported) \<Rightarrow>
                    (case
                       (if 65535 < length response then io_bail ''DNS-over-TCP response exceeds frame size''
                        else
                          io_then (io_write_all (be_bytes 2 (of_nat (length response) :: u16))) (\<lambda>_.
                          io_then (io_write_all response) (\<lambda>_.
                          io_lift (map_err (\<lambda>e. relay_failure e (le_close_reason env) ''DNS-over-TCP flush failed'') (le_flush env n))))) t of
                       (Inl e, t) \<Rightarrow> Returned (Err e, t, reported)
                     | (Inr _, t) \<Rightarrow> Returned (Ok True, t, reported)))))"

lemma dns_tcp_round_size:
  "dns_tcp_round env proxy n t = Returned (Ok True, t', reported) \<Longrightarrow> length (pending (tc_in t')) < length (pending (tc_in t))"
  by (auto simp: dns_tcp_round_def io_inv split: list.splits stream_end.splits prod.splits sum.splits option.splits if_splits
      dest!: io_readD io_writeD)

function handle_dns_over_tcp :: "local_env \<Rightarrow> DnsProxy \<Rightarrow> nat \<Rightarrow> tcp \<Rightarrow> ((anyhow + unit) \<times> tcp \<times> dns_failure list) run" where
  "handle_dns_over_tcp env proxy n t =
     (case dns_tcp_round env proxy n t of
        Blocked \<Rightarrow> Blocked
      | Panicked \<Rightarrow> Panicked
      | Returned (Inl e, t, reported) \<Rightarrow> Returned (Err e, t, reported)
      | Returned (Inr go, t, reported) \<Rightarrow>
          if go
          then (case handle_dns_over_tcp env proxy (n + 1) t of
                  Returned (r, t, later) \<Rightarrow> Returned (r, t, reported @ later)
                | Blocked \<Rightarrow> Blocked
                | Panicked \<Rightarrow> Panicked)
          else Returned (Ok (), t, reported))"
  by auto
termination
  by (relation "measure (\<lambda>(_, _, _, t). length (pending (tc_in t)))") (auto dest!: dns_tcp_round_size)

declare handle_dns_over_tcp.simps [simp del]

section \<open>Commands\<close>

text \<open>
  How a CONNECT request ends when it does not fail: joined with a remote stream, after a
  conversation with the DNS proxy, or joined with an upstream of it. Copying between joined
  streams is the runtime's; \<open>relay_result\<close> turns its result into that of the handler. The error
  of a failed tunnel to the upstreams is a message; the reason it quotes is left out of its text.
\<close>

datatype 'r local_connect = JoinedRemote 'r | DnsServed "(anyhow + unit) \<times> dns_failure list" | JoinedUpstream 'r

definition relay_result :: "string option \<Rightarrow> string \<Rightarrow> io_error + unit \<Rightarrow> anyhow + unit" where
  "relay_result close_reason message copied = map_err (\<lambda>e. relay_failure e close_reason message) copied"

definition local_handle_connect ::
    "local_env \<Rightarrow> (string \<Rightarrow> CoreError + 'r) \<Rightarrow> (DotUpstream \<Rightarrow> (CoreError + 'r) option) \<Rightarrow> DnsProxy option \<Rightarrow> string \<Rightarrow> tcp \<Rightarrow>
     ((anyhow + 'r local_connect) \<times> tcp) run" where
  "local_handle_connect env tcp_open dial dns_proxy address t =
     (case Option.bind dns_proxy (\<lambda>proxy. map_option (\<lambda>transport. (proxy, transport)) (match_destination proxy address)) of
        Some (proxy, PlainDns) \<Rightarrow>
          (case write_reply SOCKS5_REP_SUCCESS None t of
             (Inl e, t) \<Rightarrow> Returned (Err e, t)
           | (Inr _, t) \<Rightarrow>
               (case handle_dns_over_tcp env proxy 0 t of
                  Returned (r, t, reported) \<Rightarrow> Returned (Ok (DnsServed (r, reported)), t)
                | Blocked \<Rightarrow> Blocked
                | Panicked \<Rightarrow> Panicked))
      | Some (proxy, DotDns) \<Rightarrow>
          (case write_reply SOCKS5_REP_SUCCESS None t of
             (Inl e, t) \<Rightarrow> Returned (Err e, t)
           | (Inr _, t) \<Rightarrow>
               (case open_dot_upstream dial proxy of
                  (Inl _, reported) \<Rightarrow> Returned (Ok (DnsServed (bail ''failed to open DoT upstream tunnel'', reported)), t)
                | (Inr remote, _) \<Rightarrow> Returned (Ok (JoinedUpstream remote), t)))
      | None \<Rightarrow>
          Returned (io_then (handle_connect tcp_open address) (\<lambda>remote. io_return (JoinedRemote remote)) t))"

definition should_accept_udp_associate :: "bool \<Rightarrow> bool \<Rightarrow> bool" where
  "should_accept_udp_associate disable_udp has_dns_proxy \<longleftrightarrow> \<not> disable_udp \<or> has_dns_proxy"

text \<open>
  An association counts the queries that it has resolved. \<open>udp\<close> says whether it has a proxied
  session; without one, it carries DNS only.
\<close>

record local_association =
  la_assoc :: association
  la_queries :: nat
  la_reported :: "dns_failure list"

definition local_upload ::
    "local_env \<Rightarrow> assoc_env \<Rightarrow> DnsProxy option \<Rightarrow> bool \<Rightarrow> io_error + bytes \<times> SocketAddr \<Rightarrow> local_association \<Rightarrow>
     local_association \<times> (anyhow + unit) option" where
  "local_upload env aenv dns_proxy udp received st =
     (case received of
        Inl e \<Rightarrow> (st, Some (Err [IoCause e]))
      | Inr (datagram, peer_addr) \<Rightarrow>
          (case parse_udp_datagram (take 4096 datagram) of
             Inl e \<Rightarrow> (st, Some (Err e))
           | Inr None \<Rightarrow> (st, None)
           | Inr (Some (destination, body)) \<Rightarrow>
               let a = la_assoc st in
               if as_client a \<noteq> None \<and> as_client a \<noteq> Some peer_addr then (st, None)
               else
                 let a = a\<lparr>as_client := Some peer_addr\<rparr>; st = st\<lparr>la_assoc := a\<rparr> in
                 (case Option.bind dns_proxy (\<lambda>proxy. if match_destination proxy destination = Some PlainDns then Some proxy else None) of
                    Some proxy \<Rightarrow>
                      (case resolve_raw (le_name_ok env) (le_links env (la_queries st)) proxy body of (resolved, reported) \<Rightarrow>
                         let st = st\<lparr>la_queries := la_queries st + 1, la_reported := la_reported st @ reported\<rparr> in
                         (case resolved of
                            None \<Rightarrow> (st, Some (Err [Msg (if udp then ''SOCKS5 UDP upload task panicked'' else ''SOCKS5 DNS-only UDP task panicked'')]))
                          | Some r \<Rightarrow>
                              (case and_then r (build_udp_datagram destination) of
                                 Inl e \<Rightarrow> (st, Some (Err e))
                               | Inr packet \<Rightarrow>
                                   (case ae_send_to aenv packet peer_addr of
                                      Inl e \<Rightarrow> (st, Some (Err [IoCause e]))
                                    | Inr _ \<Rightarrow> (st\<lparr>la_assoc := a\<lparr>as_delivered := as_delivered a @ [(peer_addr, packet)]\<rparr>\<rparr>, None)))))
                  | None \<Rightarrow>
                      if udp then
                        (case ae_send aenv body destination of
                           Inl e \<Rightarrow> (st, Some (Err [Msg ''SOCKS5 UDP upload failed'', CoreCause e]))
                         | Inr _ \<Rightarrow> (st\<lparr>la_assoc := a\<lparr>as_uploaded := as_uploaded a @ [(destination, body)]\<rparr>\<rparr>, None))
                      else (st, None))))"

definition local_download ::
    "assoc_env \<Rightarrow> CoreError + bytes \<times> string \<Rightarrow> local_association \<Rightarrow> local_association \<times> (anyhow + unit) option" where
  "local_download aenv received st =
     (case received of
        Inl e \<Rightarrow> (st, Some (Err [Msg ''SOCKS5 UDP download failed'', CoreCause e]))
      | Inr (body, from_addr) \<Rightarrow>
          (case build_udp_datagram from_addr body of
             Inl e \<Rightarrow> (st, Some (Err e))
           | Inr packet \<Rightarrow>
               let a = la_assoc st in
               (case as_client a of
                  None \<Rightarrow> (st, None)
                | Some target \<Rightarrow>
                    (case ae_send_to aenv packet target of
                       Inl e \<Rightarrow> (st, Some (Err [IoCause e]))
                     | Inr _ \<Rightarrow> (st\<lparr>la_assoc := a\<lparr>as_delivered := as_delivered a @ [(target, packet)]\<rparr>\<rparr>, None)))))"

fun local_step ::
    "local_env \<Rightarrow> assoc_env \<Rightarrow> DnsProxy option \<Rightarrow> bool \<Rightarrow> assoc_event \<Rightarrow> local_association \<Rightarrow> local_association \<times> (anyhow + unit) option" where
  "local_step env aenv dns_proxy udp (LocalRecv r) st = local_upload env aenv dns_proxy udp r st"
| "local_step env aenv dns_proxy udp (RemoteRecv r) st = (if udp then local_download aenv r st else (st, None))"
| "local_step env aenv dns_proxy udp (ControlRecv r) st = (st, control_read r)"

fun local_run ::
    "local_env \<Rightarrow> assoc_env \<Rightarrow> DnsProxy option \<Rightarrow> bool \<Rightarrow> assoc_event list \<Rightarrow> local_association \<Rightarrow> local_association \<times> (anyhow + unit) option" where
  "local_run env aenv dns_proxy udp [] st = (st, None)"
| "local_run env aenv dns_proxy udp (ev # evs) st =
     (case local_step env aenv dns_proxy udp ev st of
        (st, Some r) \<Rightarrow> (st, Some r)
      | (st, None) \<Rightarrow> local_run env aenv dns_proxy udp evs st)"

definition local_association_new :: local_association where
  "local_association_new = \<lparr>la_assoc = association_new, la_queries = 0, la_reported = []\<rparr>"

definition local_udp_associate ::
    "local_env \<Rightarrow> udp_setup \<Rightarrow> assoc_env \<Rightarrow> assoc_event list \<Rightarrow> DnsProxy option \<Rightarrow> bool \<Rightarrow> (local_association \<times> (anyhow + unit) option) tcp_io" where
  "local_udp_associate env setup aenv events dns_proxy allow_non_dns_udp =
     io_then (io_lift (with_context ''failed to read SOCKS5 local address'' (map_err (\<lambda>e. [IoCause e]) (us_local_addr setup)))) (\<lambda>local.
     io_then (io_lift (with_context ''failed to bind SOCKS5 UDP socket''
       (map_err (\<lambda>e. [IoCause e]) (us_bind setup (socket_addr_new (sock_ip local) 0))))) (\<lambda>_.
     io_then (if allow_non_dns_udp
       then io_lift (with_context ''failed to open proxied UDP session'' (map_err (\<lambda>e. [CoreCause e]) (us_udp setup)))
       else io_return ()) (\<lambda>_.
     io_then (io_lift (with_context ''failed to read SOCKS5 UDP listen address'' (map_err (\<lambda>e. [IoCause e]) (us_bound setup)))) (\<lambda>bound.
     io_then (write_reply SOCKS5_REP_SUCCESS (Some bound)) (\<lambda>_.
     io_return (local_run env aenv dns_proxy allow_non_dns_udp events local_association_new))))))"

datatype 'r local_outcome =
    LocalConnected "'r local_connect"
  | LocalAssociated local_association "(anyhow + unit) option"
  | LocalUnsupported

definition local_handle_client ::
    "local_env \<Rightarrow> (string \<Rightarrow> CoreError + 'r) \<Rightarrow> (DotUpstream \<Rightarrow> (CoreError + 'r) option) \<Rightarrow> udp_setup \<Rightarrow> assoc_env \<Rightarrow> assoc_event list \<Rightarrow>
     (string \<times> string) option \<Rightarrow> bool \<Rightarrow> DnsProxy option \<Rightarrow> tcp \<Rightarrow> ((anyhow + 'r local_outcome) \<times> tcp) run" where
  "local_handle_client env tcp_open dial setup aenv events auth disable_udp dns_proxy t =
     (case io_then (negotiate auth) (\<lambda>_. read_request) t of
        (Inl e, t) \<Rightarrow> Returned (Err e, t)
      | (Inr request, t) \<Rightarrow>
          if sr_command request = SOCKS5_CMD_CONNECT then
            (case local_handle_connect env tcp_open dial dns_proxy (sr_address request) t of
               Returned (r, t) \<Rightarrow> Returned (and_then r (\<lambda>c. Ok (LocalConnected c)), t)
             | Blocked \<Rightarrow> Blocked
             | Panicked \<Rightarrow> Panicked)
          else if sr_command request = SOCKS5_CMD_UDP_ASSOCIATE \<and> should_accept_udp_associate disable_udp (dns_proxy \<noteq> None) then
            Returned (io_then (local_udp_associate env setup aenv events dns_proxy (\<not> disable_udp)) (\<lambda>(st, r). io_return (LocalAssociated st r)) t)
          else
            Returned (io_then (write_reply SOCKS5_REP_COMMAND_NOT_SUPPORTED None) (\<lambda>_. io_return LocalUnsupported) t))"

section \<open>Queries over TCP are answered in order\<close>

definition dns_frame :: "bytes \<Rightarrow> bytes" where
  "dns_frame message = be_bytes 2 (of_nat (length message) :: u16) @ message"

lemma resolve_raw_answer:
  assumes "first_question query = Ok q" and "length query < 65536"
  shows "\<exists>response reported. resolve_raw ok links proxy query = (Some (Ok response), reported) \<and> length response < 65536"
proof -
  have "length (dns_answer query q rcode) < 65536" for rcode
    using dns_answer_bytes(1)[of q query] first_question_bounds[OF assms(1)] assms(2) by simp
  then show ?thesis
    using assms(1) build_dns_response_answer[OF assms(1)] query_upstreams_result(1)[of ok links query] query_upstream_length
    by (fastforce simp: resolve_raw_def classify_dns_query_def build_empty_dns_success_response_def split: sum.splits)
qed

lemma tcp_on_pending: "(tcp_on t input sent)\<lparr>tc_in := (tc_in (tcp_on t input sent))\<lparr>pending := input'\<rparr>\<rparr> = tcp_on t input' sent"
  by (simp add: tcp_on_def)

lemma dns_tcp_round_frame:
  assumes "open_tcp t" and "le_flush env n = Ok ()" and "first_question query = Ok q" and "length query < 65536"
  shows "\<exists>response reported. resolve_raw (le_name_ok env) (le_links env n) proxy query = (Some (Ok response), reported) \<and>
    dns_tcp_round env proxy n (tcp_on t (dns_frame query @ rest) sent) = Returned (Ok True, tcp_on t rest (sent @ dns_frame response), reported)"
proof -
  obtain a b where ab: "be_bytes 2 (of_nat (length query) :: u16) = [a, b]" using be_bytes_two by blast
  have "be_word [a, b] = (of_nat (length query) :: u16)" unfolding ab[symmetric] by (rule be_word_be_bytes) simp
  then have len: "unat (be_word [a, b] :: u16) = length query" using assms(4) by (simp add: unsigned_of_nat take_bit_nat_eq_self_iff)
  obtain response reported where r: "resolve_raw (le_name_ok env) (le_links env n) proxy query = (Some (Ok response), reported)"
    "length response < 65536" using resolve_raw_answer[OF assms(3,4)] by blast
  have "dns_tcp_round env proxy n (tcp_on t (dns_frame query @ rest) sent) = Returned (Ok True, tcp_on t rest (sent @ dns_frame response), reported)"
    using assms(1,2) r by (simp add: dns_tcp_round_def dns_frame_def ab tcp_on_pending io_run len)
  with r(1) show ?thesis by blast
qed

lemma handle_dns_over_tcp_frames:
  assumes "open_tcp t" and "\<And>n. le_flush env n = Ok ()" and "ending (tc_in t) = AtEof"
    and "list_all (\<lambda>query. (\<exists>q. first_question query = Ok q) \<and> length query < 65536) queries"
  shows "\<exists>responses reported. length responses = length queries \<and>
    handle_dns_over_tcp env proxy n (tcp_on t (concat (map dns_frame queries)) sent) =
      Returned (Ok (), tcp_on t [] (sent @ concat (map dns_frame responses)), reported) \<and>
    (\<forall>i < length queries. fst (resolve_raw (le_name_ok env) (le_links env (n + i)) proxy (queries ! i)) = Some (Ok (responses ! i)))"
  using assms(4)
proof (induction queries arbitrary: n sent)
  case Nil
  then show ?case using assms(3) by (simp add: handle_dns_over_tcp.simps dns_tcp_round_def)
next
  case (Cons query queries)
  obtain q where "first_question query = Ok q" "length query < 65536" using Cons.prems by auto
  from dns_tcp_round_frame[where env = env and n = n and proxy = proxy, OF assms(1) assms(2) this]
  obtain response reported where r: "resolve_raw (le_name_ok env) (le_links env n) proxy query = (Some (Ok response), reported)"
    "dns_tcp_round env proxy n (tcp_on t (dns_frame query @ concat (map dns_frame queries)) sent) =
       Returned (Ok True, tcp_on t (concat (map dns_frame queries)) (sent @ dns_frame response), reported)" by blast
  obtain responses later where rest: "length responses = length queries"
    "handle_dns_over_tcp env proxy (n + 1) (tcp_on t (concat (map dns_frame queries)) (sent @ dns_frame response)) =
       Returned (Ok (), tcp_on t [] (sent @ dns_frame response @ concat (map dns_frame responses)), later)"
    "\<forall>i < length queries. fst (resolve_raw (le_name_ok env) (le_links env (n + 1 + i)) proxy (queries ! i)) = Some (Ok (responses ! i))"
    using Cons.IH[of "n + 1" "sent @ dns_frame response"] Cons.prems by auto
  have "fst (resolve_raw (le_name_ok env) (le_links env (n + i)) proxy ((query # queries) ! i)) = Some (Ok ((response # responses) ! i))"
    if "i < length (query # queries)" for i
    using that r(1) rest(3) by (cases i) auto
  then show ?case
    using r(2) rest(1,2) by (intro exI[of _ "response # responses"] exI[of _ "reported @ later"])
      (simp add: handle_dns_over_tcp.simps[of env proxy n])
qed


definition sample_local_env :: local_env where
  "sample_local_env = \<lparr>le_name_ok = (\<lambda>_. True), le_links = (\<lambda>_ _. silent_link), le_flush = (\<lambda>_. Ok ()), le_close_reason = None\<rparr>"

definition sample_dns_proxy :: DnsProxy where
  "sample_dns_proxy = \<lparr>dp_local_server_ip = ''127.0.0.1'', dp_upstreams = [\<lparr>du_address = ''d:853'', du_server_name = ''d''\<rparr>], dp_notifier = True\<rparr>"


section \<open>Queries stay out of the proxied session\<close>

lemma local_step_uploaded:
  assumes "local_step env aenv (Some proxy) udp ev st = (st', r)"
  shows "as_uploaded (la_assoc st') = as_uploaded (la_assoc st) \<or>
    udp \<and> (\<exists>destination body. match_destination proxy destination \<noteq> Some PlainDns \<and>
      as_uploaded (la_assoc st') = as_uploaded (la_assoc st) @ [(destination, body)])"
  using assms
  by (cases ev) (auto simp: local_upload_def local_download_def Let_def split: sum.splits prod.splits option.splits if_splits)

text \<open>
  Whatever arrives at an association and in whatever order, no datagram for the address of the DNS
  proxy is handed to the proxied session, and an association for DNS only hands over nothing.
\<close>

lemma local_run_uploaded:
  assumes "local_run env aenv (Some proxy) udp events st = (st', r)"
  shows "\<exists>uploads. as_uploaded (la_assoc st') = as_uploaded (la_assoc st) @ uploads \<and>
    (\<forall>(destination, body) \<in> set uploads. udp \<and> match_destination proxy destination \<noteq> Some PlainDns)"
  using assms
proof (induction events arbitrary: st)
  case (Cons ev events)
  obtain st1 r1 where s: "local_step env aenv (Some proxy) udp ev st = (st1, r1)" by fastforce
  then obtain us where us: "as_uploaded (la_assoc st1) = as_uploaded (la_assoc st) @ us"
    "\<forall>(destination, body) \<in> set us. udp \<and> match_destination proxy destination \<noteq> Some PlainDns"
    using local_step_uploaded[OF s] by fastforce
  show ?case
  proof (cases r1)
    case None
    then obtain us' where "as_uploaded (la_assoc st') = as_uploaded (la_assoc st1) @ us'"
      "\<forall>(destination, body) \<in> set us'. udp \<and> match_destination proxy destination \<noteq> Some PlainDns"
      using Cons s by fastforce
    then show ?thesis using us by (intro exI[of _ "us @ us'"]) auto
  next
    case (Some x)
    then show ?thesis using Cons.prems s us by auto
  qed
qed simp

section \<open>Reconnecting only for a lost connection\<close>

lemma connection_recovery_reason_iff:
  "connection_recovery_reason causes \<noteq> None \<longleftrightarrow>
     (\<exists>reason. CoreCause (Closed reason) \<in> set causes \<or> CoreCause (Transport reason) \<in> set causes \<or> CoreCause (Connect reason) \<in> set causes)"
  by (induction causes rule: connection_recovery_reason.induct)
    (auto simp: connection_recovery_reason_from_core_def split: CoreError.splits option.splits)

lemma relay_failure_reconnects: "connection_recovery_reason (relay_failure e close_reason message) \<noteq> None \<longleftrightarrow> close_reason \<noteq> None"
  by (simp add: relay_failure_def connection_recovery_reason_from_core_def split: option.split)

end
