(* ===== verification/Mobile_Controller.thy ===== *)
theory Mobile_Controller
  imports Local_Socks Limit
begin

text \<open>
  The connection controller of the mobile application (\<open>controller_thread\<close> and its helpers in
  \<open>mobile/src/main.rs\<close>): one thread that owns the connection, its tasks and the VPN runtime and
  handles commands of the user interface and of its own tasks. The results of connecting, of the
  Android service and of the VPN runtime are parameters, indexed by the number of calls made so
  far, so that no call repeats an earlier result. A task is present as the generation it was
  started for. The lemmas show that the tasks follow the connection, that at most one reconnect
  is pending and never replaces a live connection, and that a disconnect is final.
\<close>

section \<open>Data\<close>

record FormState =
  fm_import_uri :: string
  fm_server :: string
  fm_auth :: string
  fm_obfs_password :: string
  fm_sni :: string
  fm_ca_path :: string
  fm_pin_sha256 :: string
  fm_bandwidth_up :: string
  fm_bandwidth_down :: string
  fm_quic_init_stream_receive_window :: string
  fm_quic_max_stream_receive_window :: string
  fm_quic_init_connection_receive_window :: string
  fm_quic_max_connection_receive_window :: string
  fm_quic_max_idle_timeout :: string
  fm_quic_keep_alive_period :: string
  fm_local_udp_enabled :: bool
  fm_quic_disable_path_mtu_discovery :: bool
  fm_insecure_tls :: bool

definition form_default :: FormState where
  "form_default = \<lparr>fm_import_uri = [], fm_server = [], fm_auth = [], fm_obfs_password = [], fm_sni = [], fm_ca_path = [],
     fm_pin_sha256 = [], fm_bandwidth_up = [], fm_bandwidth_down = [], fm_quic_init_stream_receive_window = [],
     fm_quic_max_stream_receive_window = [], fm_quic_init_connection_receive_window = [],
     fm_quic_max_connection_receive_window = [], fm_quic_max_idle_timeout = [], fm_quic_keep_alive_period = [],
     fm_local_udp_enabled = True, fm_quic_disable_path_mtu_discovery = False, fm_insecure_tls = False\<rparr>"

definition LOCAL_SOCKS_HOST :: string where
  "LOCAL_SOCKS_HOST = ''127.0.0.1''"

definition LOCAL_SOCKS_PORT :: u16 where
  "LOCAL_SOCKS_PORT = 1080"

definition MAX_RECONNECT_BACKOFF :: nat where
  "MAX_RECONNECT_BACKOFF = 15"

definition HEALTH_PROBE_FAILURE_THRESHOLD :: nat where
  "HEALTH_PROBE_FAILURE_THRESHOLD = 2"

definition socks_listen :: string where
  "socks_listen = LOCAL_SOCKS_HOST @ '':'' @ dec (unat LOCAL_SOCKS_PORT)"

record UiStatus =
  ui_phase :: string
  ui_remote :: string
  ui_detail :: string
  ui_server_udp_supported :: bool
  ui_local_udp_enabled :: bool
  ui_udp_enabled :: bool
  ui_negotiated_tx :: u64
  ui_latency :: "nat option"
  ui_tx_total_bytes :: u64
  ui_rx_total_bytes :: u64
  ui_tx_rate_bytes :: u64
  ui_rx_rate_bytes :: u64
  ui_local_socks :: string
  ui_vpn_available :: bool
  ui_vpn_permission_granted :: bool
  ui_vpn_active :: bool

definition ui_default :: UiStatus where
  "ui_default = \<lparr>ui_phase = ''Disconnected'', ui_remote = [],
     ui_detail = ''Import a Linux-compatible config or fill server/auth, then connect. Explicit CA is optional.'',
     ui_server_udp_supported = False, ui_local_udp_enabled = True, ui_udp_enabled = False, ui_negotiated_tx = 0,
     ui_latency = None, ui_tx_total_bytes = 0, ui_rx_total_bytes = 0, ui_tx_rate_bytes = 0, ui_rx_rate_bytes = 0,
     ui_local_socks = socks_listen, ui_vpn_available = False, ui_vpn_permission_granted = False, ui_vpn_active = False\<rparr>"

record TransportSample =
  tr_rtt :: nat
  tr_tx_bytes :: u64
  tr_rx_bytes :: u64

record DashboardMetrics =
  dm_latency :: "nat option"
  dm_tx_total_bytes :: u64
  dm_rx_total_bytes :: u64
  dm_tx_rate_bytes :: u64
  dm_rx_rate_bytes :: u64

datatype SpeedDirection = Download | Upload

fun direction_label :: "SpeedDirection \<Rightarrow> string" where
  "direction_label Download = ''download''"
| "direction_label Upload = ''upload''"

datatype AppCommand =
    CmdConnect FormState
  | CmdStartManagedVpn FormState
  | CmdManagedConnect FormState
  | CmdDisconnect
  | CmdSpeedtest SpeedDirection
  | CmdRequestVpnPermission
  | CmdStopVpnShell
  | CmdServiceStopped
  | CmdConnectionClosed u64 string
  | CmdReconnect u64 nat
  | CmdTransportPulse u64 DashboardMetrics

datatype AppEvent =
    EvStatus UiStatus
  | EvTransport DashboardMetrics
  | EvLog string
  | EvDnsFailure string

record VpnState =
  vp_available :: bool
  vp_permission_granted :: bool
  vp_active :: bool

definition vpn_default :: VpnState where
  "vpn_default = \<lparr>vp_available = False, vp_permission_granted = False, vp_active = False\<rparr>"

text \<open>An error as it is printed: its outermost message and its chain.\<close>

record app_error =
  er_text :: string
  er_chain :: string

text \<open>What \<open>connect_client\<close> learns from the connection, and the results of all calls.\<close>

record connect_info =
  ci_remote :: string
  ci_udp_enabled :: bool
  ci_tx :: u64
  ci_snapshot :: TransportSample

record controller_env =
  en_connect :: "nat \<Rightarrow> FormState \<Rightarrow> app_error + connect_info"
  en_close :: "nat \<Rightarrow> app_error + unit"
  en_speedtest :: "nat \<Rightarrow> SpeedDirection \<Rightarrow> app_error + string"
  en_query_state :: "nat \<Rightarrow> app_error + VpnState"
  en_start_managed_vpn :: "nat \<Rightarrow> FormState \<Rightarrow> app_error + unit"
  en_request_permission :: "nat \<Rightarrow> app_error + unit"
  en_stop_vpn_service :: "nat \<Rightarrow> app_error + unit"
  en_take_tun_fd :: "nat \<Rightarrow> app_error + int"
  en_tun_spawn :: "nat \<Rightarrow> bool \<Rightarrow> int \<Rightarrow> app_error + unit"
  en_tun_stop :: "nat \<Rightarrow> app_error + unit"
  en_fl :: "real \<Rightarrow> real"

text \<open>
  The thread's variables, the timers of scheduled reconnects that have not fired, the number of
  calls made, and the events sent to the user interface. A client is the number of the call that
  connected it.
\<close>

record controller =
  ct_client :: "nat option"
  ct_status :: UiStatus
  ct_local_socks :: "u64 option"
  ct_tun2socks :: bool
  ct_close_watch :: "u64 option"
  ct_transport_watch :: "u64 option"
  ct_health_probe :: "u64 option"
  ct_generation :: u64
  ct_reconnect_form :: "FormState option"
  ct_desired_vpn :: bool
  ct_timers :: "(u64 \<times> nat) list"
  ct_calls :: nat
  ct_events :: "AppEvent list"

definition send_event :: "AppEvent \<Rightarrow> controller \<Rightarrow> controller" where
  "send_event ev c = c\<lparr>ct_events := ct_events c @ [ev]\<rparr>"

definition next_call :: "controller \<Rightarrow> controller" where
  "next_call c = c\<lparr>ct_calls := ct_calls c + 1\<rparr>"

section \<open>Helpers\<close>

definition should_run_health_probe :: "string \<Rightarrow> bool" where
  "should_run_health_probe phase \<longleftrightarrow> phase = ''Connected''"

definition should_preserve_tun2socks_on_connection_loss :: "bool \<Rightarrow> bool" where
  "should_preserve_tun2socks_on_connection_loss desired_vpn_active = desired_vpn_active"

definition should_restart_tun2socks_after_reconnect :: "bool \<Rightarrow> bool \<Rightarrow> bool" where
  "should_restart_tun2socks_after_reconnect desired_vpn_active tun2socks_running \<longleftrightarrow> desired_vpn_active \<and> \<not> tun2socks_running"

definition local_socks_udp_disabled :: "FormState \<Rightarrow> bool" where
  "local_socks_udp_disabled form \<longleftrightarrow> \<not> fm_local_udp_enabled form"

text \<open>\<open>f64::round\<close> of a value that is not negative, as a \<open>u64\<close> with saturation.\<close>

definition round_u64 :: "real \<Rightarrow> u64" where
  "round_u64 x = of_nat (min (nat \<lfloor>x + 1 / 2\<rfloor>) (2 ^ 64 - 1))"

definition derive_dashboard_metrics ::
    "(real \<Rightarrow> real) \<Rightarrow> TransportSample option \<Rightarrow> TransportSample \<Rightarrow> nat \<Rightarrow> DashboardMetrics" where
  "derive_dashboard_metrics fl previous current interval =
     (let seconds = as_secs_f64 fl interval;
          rate = (\<lambda>now before. round_u64 (fl (u64_as_f64 fl (if before \<le> now then now - before else 0) / seconds)));
          (tx, rx) =
            (if seconds \<le> 1 / 2 ^ 52 then (0, 0)
             else case previous of
                 Some previous \<Rightarrow> (rate (tr_tx_bytes current) (tr_tx_bytes previous), rate (tr_rx_bytes current) (tr_rx_bytes previous))
               | None \<Rightarrow> (0, 0)) in
      \<lparr>dm_latency = Some (tr_rtt current), dm_tx_total_bytes = tr_tx_bytes current, dm_rx_total_bytes = tr_rx_bytes current,
       dm_tx_rate_bytes = tx, dm_rx_rate_bytes = rx\<rparr>)"

definition apply_dashboard_metrics :: "DashboardMetrics \<Rightarrow> UiStatus \<Rightarrow> UiStatus" where
  "apply_dashboard_metrics metrics status = status\<lparr>ui_latency := dm_latency metrics, ui_tx_total_bytes := dm_tx_total_bytes metrics,
     ui_rx_total_bytes := dm_rx_total_bytes metrics, ui_tx_rate_bytes := dm_tx_rate_bytes metrics, ui_rx_rate_bytes := dm_rx_rate_bytes metrics\<rparr>"

definition query_state :: "controller_env \<Rightarrow> controller \<Rightarrow> VpnState" where
  "query_state env c = (case en_query_state env (ct_calls c) of Inr v \<Rightarrow> v | Inl _ \<Rightarrow> vpn_default)"

definition with_vpn_state :: "controller_env \<Rightarrow> UiStatus \<Rightarrow> controller \<Rightarrow> UiStatus \<times> controller" where
  "with_vpn_state env status c =
     (let v = query_state env c in
      (status\<lparr>ui_vpn_available := vp_available v, ui_vpn_permission_granted := vp_permission_granted v, ui_vpn_active := vp_active v\<rparr>,
       next_call c))"

definition reconnect_delay :: "nat \<Rightarrow> nat" where
  "reconnect_delay attempt = min (2 ^ min attempt 4) MAX_RECONNECT_BACKOFF"

definition schedule_reconnect :: "u64 \<Rightarrow> nat \<Rightarrow> controller \<Rightarrow> controller" where
  "schedule_reconnect generation attempt c = c\<lparr>ct_timers := ct_timers c @ [(generation, attempt)]\<rparr>"

text \<open>The task that probes a connection: the results of its checks, and the reason it reports, if it does.\<close>

fun health_probe :: "nat \<Rightarrow> (app_error + unit) list \<Rightarrow> string option" where
  "health_probe failures [] = None"
| "health_probe failures (Inr _ # results) = health_probe 0 results"
| "health_probe failures (Inl e # results) =
     (if HEALTH_PROBE_FAILURE_THRESHOLD \<le> failures + 1 then Some (''health probe failed: '' @ er_text e)
      else health_probe (failures + 1) results)"

section \<open>The VPN runtime and the session\<close>

definition log_result :: "string \<Rightarrow> string \<Rightarrow> app_error + 'a \<Rightarrow> controller \<Rightarrow> controller" where
  "log_result done failed r c =
     (case r of Inr _ \<Rightarrow> send_event (EvLog done) c | Inl e \<Rightarrow> send_event (EvLog (failed @ er_chain e)) c)"

definition stop_vpn_runtime :: "controller_env \<Rightarrow> bool \<Rightarrow> controller \<Rightarrow> controller" where
  "stop_vpn_runtime env stop_service c =
     (let c = (if ct_tun2socks c
               then log_result ''tun2socks runtime stopped'' ''tun2socks runtime stop failed: '' (en_tun_stop env (ct_calls c))
                 (next_call (c\<lparr>ct_tun2socks := False\<rparr>))
               else c) in
      if stop_service then
        if vp_available (query_state env c) then
          let c = next_call c in
          log_result ''requested Android VPN service stop'' ''stop Android VPN service failed: '' (en_stop_vpn_service env (ct_calls c)) (next_call c)
        else next_call c
      else c)"

text \<open>
  The loop of \<open>start_vpn_runtime\<close> without a request to start the service, as the controller calls it:
  it waits while the service is active but has no file descriptor yet, twenty times at most.
\<close>

fun await_tun :: "controller_env \<Rightarrow> bool \<Rightarrow> nat \<Rightarrow> controller \<Rightarrow> (app_error + unit) \<times> controller" where
  "await_tun env local_udp_enabled 0 c =
     (Err \<lparr>er_text = ''Android VpnService did not become active in time'', er_chain = ''Android VpnService did not become active in time''\<rparr>, c)"
| "await_tun env local_udp_enabled (Suc n) c =
     (let v = query_state env c; c = next_call c in
      if vp_active v then
        (case en_take_tun_fd env (ct_calls c) of
           Inl e \<Rightarrow> (Err \<lparr>er_text = ''failed to fetch TUN fd'', er_chain = ''failed to fetch TUN fd: '' @ er_chain e\<rparr>, next_call c)
         | Inr fd \<Rightarrow>
             let c = next_call c in
             if 0 \<le> fd then
               (case en_tun_spawn env (ct_calls c) local_udp_enabled fd of
                  Inl e \<Rightarrow> (Err \<lparr>er_text = ''failed to spawn tun2socks runtime'', er_chain = ''failed to spawn tun2socks runtime: '' @ er_chain e\<rparr>,
                    next_call c)
                | Inr _ \<Rightarrow>
                    (Ok (), send_event (EvLog ''Android system VPN started: TUN -> tun2socks -> local SOCKS -> hysteria-core'') (next_call c)))
             else await_tun env local_udp_enabled n c)
      else (Err \<lparr>er_text = ''Android VpnService is not active'', er_chain = ''Android VpnService is not active''\<rparr>, c))"

definition start_vpn_runtime :: "controller_env \<Rightarrow> bool \<Rightarrow> controller \<Rightarrow> (app_error + unit) \<times> controller" where
  "start_vpn_runtime env local_udp_enabled c = await_tun env local_udp_enabled 20 c"

definition stop_active_session :: "controller_env \<Rightarrow> bool \<Rightarrow> bool \<Rightarrow> bool \<Rightarrow> bool \<Rightarrow> controller \<Rightarrow> controller" where
  "stop_active_session env stop_local_socks_runtime stop_tun2socks_runtime stop_service gracefully_close_client c =
     (let c = c\<lparr>ct_close_watch := None, ct_transport_watch := None, ct_health_probe := None\<rparr>;
          c = (if stop_tun2socks_runtime then stop_vpn_runtime env stop_service c else c);
          c = (if stop_local_socks_runtime then c\<lparr>ct_local_socks := None\<rparr> else c) in
      if ct_client c \<noteq> None \<and> gracefully_close_client
      then log_result ''connection closed'' ''disconnect error: '' (en_close env (ct_calls c)) (next_call (c\<lparr>ct_client := None\<rparr>))
      else c\<lparr>ct_client := None\<rparr>)"

definition bool_str :: "bool \<Rightarrow> string" where
  "bool_str b = (if b then ''true'' else ''false'')"

text \<open>The status that \<open>connect_client\<close> returns for a connection.\<close>

definition connect_status :: "FormState \<Rightarrow> connect_info \<Rightarrow> UiStatus" where
  "connect_status form info = ui_default\<lparr>ui_phase := ''Connected'', ui_remote := ci_remote info,
     ui_detail := ''Client connected. Local SOCKS is ready and Android system VPN can be started.'',
     ui_server_udp_supported := ci_udp_enabled info, ui_local_udp_enabled := \<not> local_socks_udp_disabled form,
     ui_udp_enabled := ci_udp_enabled info \<and> \<not> local_socks_udp_disabled form, ui_negotiated_tx := ci_tx info\<rparr>"

definition activate_connection :: "controller_env \<Rightarrow> FormState \<Rightarrow> nat \<Rightarrow> connect_info \<Rightarrow> controller \<Rightarrow> UiStatus \<times> controller" where
  "activate_connection env reconnect_snapshot client info c =
     (let g = ct_generation c;
          status = connect_status reconnect_snapshot info;
          c = c\<lparr>ct_local_socks := Some g, ct_close_watch := Some g, ct_transport_watch := Some g,
                ct_health_probe := (if should_run_health_probe (ui_phase status) then Some g else None)\<rparr> in
      case with_vpn_state env status c of (status, c) \<Rightarrow>
        let status = apply_dashboard_metrics (derive_dashboard_metrics (en_fl env) None (ci_snapshot info) (10 ^ 9)) (status\<lparr>ui_local_socks := socks_listen\<rparr>);
            c = c\<lparr>ct_reconnect_form := Some reconnect_snapshot, ct_client := Some client\<rparr> in
        (status,
         send_event (EvLog (''local SOCKS runtime started on '' @ socks_listen))
          (send_event (EvLog (''connected: remote='' @ ui_remote status @ '' udp_enabled='' @ bool_str (ui_udp_enabled status) @
             '' negotiated_tx='' @ dec (unat (ui_negotiated_tx status)) @ ''B/s''))
          (send_event (EvStatus status) c))))"

section \<open>Commands\<close>

text \<open>Sending a status with the state of the VPN, and keeping it as the status of the connection or not.\<close>

definition show_status :: "controller_env \<Rightarrow> UiStatus \<Rightarrow> controller \<Rightarrow> controller" where
  "show_status env status c = (case with_vpn_state env status c of (status, c) \<Rightarrow> send_event (EvStatus status) c)"

definition keep_status :: "controller_env \<Rightarrow> UiStatus \<Rightarrow> controller \<Rightarrow> controller" where
  "keep_status env status c = (case with_vpn_state env status c of (status, c) \<Rightarrow> send_event (EvStatus status) (c\<lparr>ct_status := status\<rparr>))"

definition handle_app_connect :: "controller_env \<Rightarrow> FormState \<Rightarrow> controller \<Rightarrow> controller" where
  "handle_app_connect env form c =
     (let c = c\<lparr>ct_generation := ct_generation c + 1, ct_desired_vpn := False, ct_reconnect_form := None\<rparr>;
          c = stop_active_session env True True True True c;
          c = show_status env (ui_default\<lparr>ui_phase := ''Connecting'', ui_detail := ''Connecting to '' @ fm_server form @ ''...''\<rparr>) c;
          c = send_event (EvLog (''connecting to '' @ trim (fm_server form))) c;
          client = ct_calls c in
      case en_connect env client form of
        Inr info \<Rightarrow>
          (case activate_connection env form client info (next_call c) of (status, c) \<Rightarrow> c\<lparr>ct_status := status\<rparr>)
      | Inl e \<Rightarrow>
          send_event (EvLog (''connect failed: '' @ er_chain e))
            (show_status env (ui_default\<lparr>ui_phase := ''Error'', ui_detail := er_text e\<rparr>) (next_call c)))"

definition handle_start_managed_vpn :: "controller_env \<Rightarrow> FormState \<Rightarrow> controller \<Rightarrow> controller" where
  "handle_start_managed_vpn env form c =
     (let c = c\<lparr>ct_generation := ct_generation c + 1, ct_desired_vpn := True, ct_reconnect_form := Some form\<rparr>;
          c = stop_active_session env True True False True c;
          c = show_status env (ui_default\<lparr>ui_phase := ''Starting VPN'',
            ui_detail := ''Requesting Android system VPN and managed runtime for '' @ fm_server form @ ''...''\<rparr>) c;
          c = send_event (EvLog (''requesting Android system VPN start for '' @ trim (fm_server form))) c in
      case en_start_managed_vpn env (ct_calls c) form of
        Inr _ \<Rightarrow>
          keep_status env (ui_default\<lparr>ui_phase := ''Starting VPN'',
            ui_detail := ''Android system VPN requested. The service will own connect/reconnect.'', ui_local_socks := socks_listen\<rparr>) (next_call c)
      | Inl e \<Rightarrow>
          send_event (EvLog (''managed Android VPN start failed: '' @ er_chain e))
            (keep_status env (ui_default\<lparr>ui_phase := ''Error'', ui_detail := er_text e\<rparr>)
              ((next_call c)\<lparr>ct_desired_vpn := False, ct_reconnect_form := None\<rparr>)))"

definition handle_managed_connect :: "controller_env \<Rightarrow> FormState \<Rightarrow> controller \<Rightarrow> controller" where
  "handle_managed_connect env form c =
     (let c = c\<lparr>ct_generation := ct_generation c + 1, ct_desired_vpn := True, ct_reconnect_form := Some form\<rparr>;
          c = stop_active_session env True True False True c;
          c = show_status env (ui_default\<lparr>ui_phase := ''Connecting'',
            ui_detail := ''Android VpnService is starting managed runtime for '' @ fm_server form @ ''...''\<rparr>) c;
          c = send_event (EvLog (''Android VpnService is starting managed runtime for '' @ trim (fm_server form))) c;
          client = ct_calls c in
      case en_connect env client form of
        Inr info \<Rightarrow>
          (case activate_connection env form client info (next_call c) of (status, c) \<Rightarrow>
             (case start_vpn_runtime env (fm_local_udp_enabled form) (stop_vpn_runtime env False c) of
                (Inr _, c) \<Rightarrow>
                  keep_status env (status\<lparr>ui_detail :=
                    ''Android VpnService now owns the managed runtime: TUN -> tun2socks -> local SOCKS -> hysteria-core''\<rparr>) (c\<lparr>ct_tun2socks := True\<rparr>)
              | (Inl e, c) \<Rightarrow>
                  keep_status env (status\<lparr>ui_detail := ''Managed runtime connected, but Android VPN shell attach failed: '' @ er_text e\<rparr>)
                    (send_event (EvLog (''managed runtime connected but failed to attach Android VPN shell: '' @ er_chain e)) c)))
      | Inl e \<Rightarrow>
          send_event (EvLog (''managed runtime connect failed: '' @ er_chain e))
            (keep_status env (ui_default\<lparr>ui_phase := ''Error'', ui_detail := er_text e\<rparr>) (next_call c)))"

definition handle_disconnect :: "controller_env \<Rightarrow> controller \<Rightarrow> controller" where
  "handle_disconnect env c =
     (let c = c\<lparr>ct_generation := ct_generation c + 1, ct_desired_vpn := False, ct_reconnect_form := None\<rparr>;
          c = (if ct_client c = None then send_event (EvLog ''disconnect requested with no active connection'') c else c) in
      keep_status env ui_default (stop_active_session env True True True True c))"

definition handle_app_speedtest :: "controller_env \<Rightarrow> SpeedDirection \<Rightarrow> controller \<Rightarrow> controller" where
  "handle_app_speedtest env direction c =
     (case ct_client c of
        None \<Rightarrow> send_event (EvLog ''speedtest requested with no active connection'') c
      | Some _ \<Rightarrow>
          let c = send_event (EvStatus ((ct_status c)\<lparr>ui_phase := ''Speedtest'',
                ui_detail := ''Running '' @ direction_label direction @ '' speedtest...''\<rparr>)) c;
              c = send_event (EvLog (''running '' @ direction_label direction @ '' speedtest'')) c in
          (case en_speedtest env (ct_calls c) direction of
             Inr summary \<Rightarrow> send_event (EvStatus (ct_status c)) (send_event (EvLog summary) (next_call c))
           | Inl e \<Rightarrow>
               send_event (EvStatus ((ct_status c)\<lparr>ui_phase := ''Error'', ui_detail := er_text e\<rparr>))
                 (send_event (EvLog (direction_label direction @ '' speedtest failed: '' @ er_chain e)) (next_call c))))"

definition handle_request_permission :: "controller_env \<Rightarrow> controller \<Rightarrow> controller" where
  "handle_request_permission env c =
     (case en_request_permission env (ct_calls c) of
        Inr _ \<Rightarrow> keep_status env (ct_status c) (send_event (EvLog ''requested Android VPN permission'') (next_call c))
      | Inl e \<Rightarrow> send_event (EvLog (''request VPN permission failed: '' @ er_chain e)) (next_call c))"

definition handle_stop_vpn_shell :: "controller_env \<Rightarrow> controller \<Rightarrow> controller" where
  "handle_stop_vpn_shell env c =
     (let c = stop_vpn_runtime env True (c\<lparr>ct_desired_vpn := False\<rparr>) in
      keep_status env ((ct_status c)\<lparr>ui_detail := ''Stopping Android system VPN...''\<rparr>) c)"

definition handle_service_stopped :: "controller_env \<Rightarrow> controller \<Rightarrow> controller" where
  "handle_service_stopped env c =
     (let c = c\<lparr>ct_generation := ct_generation c + 1, ct_desired_vpn := False, ct_reconnect_form := None\<rparr> in
      send_event (EvLog ''Android VpnService stopped; managed runtime shut down'')
        (keep_status env ui_default (stop_active_session env True True False True c)))"

text \<open>The status while reconnecting: what was known of the connection, without its rates.\<close>

definition reconnecting_status :: "string \<Rightarrow> UiStatus \<Rightarrow> UiStatus" where
  "reconnecting_status detail s = s\<lparr>ui_phase := ''Reconnecting'', ui_detail := detail, ui_tx_rate_bytes := 0, ui_rx_rate_bytes := 0,
     ui_vpn_available := False, ui_vpn_permission_granted := False, ui_vpn_active := False\<rparr>"

definition handle_connection_closed :: "controller_env \<Rightarrow> u64 \<Rightarrow> string \<Rightarrow> controller \<Rightarrow> controller" where
  "handle_connection_closed env generation reason c =
     (if generation \<noteq> ct_generation c \<or> ct_client c = None then c
      else
        let restart_vpn = ct_desired_vpn c;
            c = send_event (EvLog (''connection closed unexpectedly: '' @ reason)) c;
            c = stop_active_session env True (\<not> should_preserve_tun2socks_on_connection_loss restart_vpn) False False c;
            c = keep_status env (reconnecting_status
              (if restart_vpn then ''Connection lost: '' @ reason @ ''. Reconnecting soon while keeping Android VPN shell alive...''
               else ''Connection lost: '' @ reason @ ''. Reconnecting soon...'') (ct_status c)) c in
        schedule_reconnect generation 0 c)"

definition handle_reconnect :: "controller_env \<Rightarrow> u64 \<Rightarrow> nat \<Rightarrow> controller \<Rightarrow> controller" where
  "handle_reconnect env generation attempt c =
     (if generation \<noteq> ct_generation c then c
      else case ct_reconnect_form c of
          None \<Rightarrow> c
        | Some form \<Rightarrow>
            let c = show_status env (reconnecting_status
                  (''Reconnect attempt '' @ dec (attempt + 1) @ '' to '' @ trim (fm_server form) @ ''...'') (ct_status c)) c;
                c = send_event (EvLog (''reconnect attempt '' @ dec (attempt + 1) @ '' -> '' @ trim (fm_server form))) c;
                client = ct_calls c in
            (case en_connect env client form of
               Inr info \<Rightarrow>
                 (case activate_connection env form client info (next_call c) of (status, c) \<Rightarrow>
                    let c = send_event (EvLog ''automatic reconnect succeeded'') (c\<lparr>ct_status := status\<rparr>) in
                    if should_restart_tun2socks_after_reconnect (ct_desired_vpn c) (ct_tun2socks c) then
                      (case start_vpn_runtime env (fm_local_udp_enabled form) c of
                         (Inr _, c) \<Rightarrow> c\<lparr>ct_tun2socks := True, ct_status := status\<lparr>ui_detail :=
                           ''Automatic reconnect restored Android system VPN: TUN -> tun2socks -> local SOCKS -> hysteria-core''\<rparr>\<rparr>
                       | (Inl e, c) \<Rightarrow>
                           (send_event (EvLog (''automatic reconnect restored client but failed to restart Android VPN: '' @ er_chain e)) c)
                             \<lparr>ct_status := status\<lparr>ui_detail := ''Reconnected, but Android system VPN restart failed: '' @ er_text e\<rparr>\<rparr>)
                    else if ct_desired_vpn c then
                      keep_status env (status\<lparr>ui_detail := ''Automatic reconnect preserved Android system VPN shell and local DNS path''\<rparr>)
                        (send_event (EvLog ''automatic reconnect preserved Android VPN shell and local DNS path'') c)
                    else c)
             | Inl e \<Rightarrow>
                 let delay = reconnect_delay (attempt + 1);
                     c = send_event (EvLog (''reconnect attempt '' @ dec (attempt + 1) @ '' failed: '' @ er_chain e @ ''; retrying in '' @
                       dec delay @ ''s'')) (next_call c);
                     c = keep_status env (reconnecting_status (''Reconnect attempt '' @ dec (attempt + 1) @ '' failed: '' @ er_text e @
                       ''. Retrying in '' @ dec delay @ ''s.'') (ct_status c)) c in
                 schedule_reconnect generation (attempt + 1) c))"

definition handle_transport_pulse :: "u64 \<Rightarrow> DashboardMetrics \<Rightarrow> controller \<Rightarrow> controller" where
  "handle_transport_pulse generation metrics c =
     (if generation \<noteq> ct_generation c \<or> ct_client c = None then c
      else send_event (EvTransport metrics) (c\<lparr>ct_status := apply_dashboard_metrics metrics (ct_status c)\<rparr>))"

fun handle_command :: "controller_env \<Rightarrow> AppCommand \<Rightarrow> controller \<Rightarrow> controller" where
  "handle_command env (CmdConnect form) c = handle_app_connect env form c"
| "handle_command env (CmdStartManagedVpn form) c = handle_start_managed_vpn env form c"
| "handle_command env (CmdManagedConnect form) c = handle_managed_connect env form c"
| "handle_command env CmdDisconnect c = handle_disconnect env c"
| "handle_command env (CmdSpeedtest direction) c = handle_app_speedtest env direction c"
| "handle_command env CmdRequestVpnPermission c = handle_request_permission env c"
| "handle_command env CmdStopVpnShell c = handle_stop_vpn_shell env c"
| "handle_command env CmdServiceStopped c = handle_service_stopped env c"
| "handle_command env (CmdConnectionClosed generation reason) c = handle_connection_closed env generation reason c"
| "handle_command env (CmdReconnect generation attempt) c = handle_reconnect env generation attempt c"
| "handle_command env (CmdTransportPulse generation metrics) c = handle_transport_pulse generation metrics c"

definition controller_new :: "controller_env \<Rightarrow> controller" where
  "controller_new env =
     (let c = \<lparr>ct_client = None, ct_status = ui_default, ct_local_socks = None, ct_tun2socks = False, ct_close_watch = None,
          ct_transport_watch = None, ct_health_probe = None, ct_generation = 0, ct_reconnect_form = None, ct_desired_vpn = False,
          ct_timers = [], ct_calls = 0, ct_events = []\<rparr> in
      case with_vpn_state env ui_default c of (status, c) \<Rightarrow> c\<lparr>ct_status := status\<rparr>)"

section \<open>What the helpers change\<close>

text \<open>Logging, calls and the status do not touch the connection.\<close>

definition same_session :: "controller \<Rightarrow> controller \<Rightarrow> bool" where
  "same_session c c' \<longleftrightarrow> ct_client c' = ct_client c \<and> ct_local_socks c' = ct_local_socks c \<and> ct_tun2socks c' = ct_tun2socks c \<and>
     ct_close_watch c' = ct_close_watch c \<and> ct_transport_watch c' = ct_transport_watch c \<and> ct_health_probe c' = ct_health_probe c \<and>
     ct_generation c' = ct_generation c \<and> ct_reconnect_form c' = ct_reconnect_form c \<and> ct_desired_vpn c' = ct_desired_vpn c \<and>
     ct_timers c' = ct_timers c"

lemma same_session_refl [simp]: "same_session c c"
  by (simp add: same_session_def)

lemma same_session_trans: "same_session a b \<Longrightarrow> same_session b c \<Longrightarrow> same_session a c"
  by (simp add: same_session_def)

lemma same_session_helpers [simp]:
  "same_session c (send_event ev c)" "same_session c (next_call c)" "same_session c (log_result d f r c)"
  "same_session c (show_status env s c)" "same_session c (keep_status env s c)" "same_session c (c\<lparr>ct_status := s\<rparr>)"
  by (simp_all add: same_session_def send_event_def next_call_def log_result_def show_status_def keep_status_def with_vpn_state_def Let_def
      split: sum.split)

lemma await_tun_session: "same_session c (snd (await_tun env udp n c))"
proof (induction n arbitrary: c)
  case (Suc n)
  then show ?case
    by (auto simp: Let_def same_session_def send_event_def next_call_def split: sum.split)
qed simp

lemma stop_vpn_runtime_session: "same_session (c\<lparr>ct_tun2socks := False\<rparr>) (stop_vpn_runtime env stop_service c)"
  by (simp add: stop_vpn_runtime_def same_session_def Let_def log_result_def send_event_def next_call_def split: sum.split)

lemma stop_active_session_session:
  "same_session (c\<lparr>ct_client := None, ct_close_watch := None, ct_transport_watch := None, ct_health_probe := None, ct_local_socks := None,
      ct_tun2socks := (ct_tun2socks c \<and> \<not> stop_tun)\<rparr>) (stop_active_session env True stop_tun stop_service graceful c)"
proof -
  let ?c = "c\<lparr>ct_close_watch := None, ct_transport_watch := None, ct_health_probe := None\<rparr>"
  show ?thesis
    using stop_vpn_runtime_session[of ?c env stop_service]
    by (auto simp: stop_active_session_def Let_def same_session_def log_result_def send_event_def next_call_def split: sum.split)
qed

lemma activate_connection_session:
  "same_session (c\<lparr>ct_client := Some client, ct_close_watch := Some (ct_generation c), ct_transport_watch := Some (ct_generation c),
      ct_health_probe := Some (ct_generation c), ct_local_socks := Some (ct_generation c), ct_reconnect_form := Some form\<rparr>)
    (snd (activate_connection env form client info c))"
  by (auto simp: activate_connection_def Let_def with_vpn_state_def connect_status_def should_run_health_probe_def
      same_session_def send_event_def next_call_def)

lemmas session_fields [simp] =
  same_session_helpers[unfolded same_session_def, simplified]
  await_tun_session[unfolded same_session_def, simplified]
  stop_vpn_runtime_session[unfolded same_session_def, simplified]
  stop_active_session_session[unfolded same_session_def, simplified]
  activate_connection_session[unfolded same_session_def, simplified]

text \<open>A session that has ended, with or without the VPN runtime, and one that has begun.\<close>

definition ended :: "bool \<Rightarrow> controller \<Rightarrow> controller" where
  "ended tun c = c\<lparr>ct_client := None, ct_local_socks := None, ct_close_watch := None, ct_transport_watch := None, ct_health_probe := None,
     ct_tun2socks := tun\<rparr>"

definition begun :: "FormState \<Rightarrow> nat \<Rightarrow> bool \<Rightarrow> controller \<Rightarrow> controller" where
  "begun form client tun c = c\<lparr>ct_client := Some client, ct_local_socks := Some (ct_generation c), ct_close_watch := Some (ct_generation c),
     ct_transport_watch := Some (ct_generation c), ct_health_probe := Some (ct_generation c), ct_reconnect_form := Some form, ct_tun2socks := tun\<rparr>"

definition renewed :: "bool \<Rightarrow> FormState option \<Rightarrow> controller \<Rightarrow> controller" where
  "renewed desired form c = (ended False c)\<lparr>ct_generation := ct_generation c + 1, ct_desired_vpn := desired, ct_reconnect_form := form\<rparr>"

lemmas session_states = ended_def begun_def renewed_def

lemma handle_app_connect_session:
  "same_session (renewed False None c) (handle_app_connect env form c) \<or>
   (\<exists>client. same_session (begun form client False (renewed False None c)) (handle_app_connect env form c))"
  by (auto simp: handle_app_connect_def Let_def case_prod_beta same_session_def session_states split: sum.split)

lemma handle_start_managed_vpn_session:
  "same_session (renewed True (Some form) c) (handle_start_managed_vpn env form c) \<or>
   same_session (renewed False None c) (handle_start_managed_vpn env form c)"
  by (auto simp: handle_start_managed_vpn_def Let_def same_session_def session_states split: sum.split)

lemma handle_managed_connect_session:
  "same_session (renewed True (Some form) c) (handle_managed_connect env form c) \<or>
   (\<exists>client tun. same_session (begun form client tun (renewed True (Some form) c)) (handle_managed_connect env form c))"
  by (auto simp: handle_managed_connect_def start_vpn_runtime_def Let_def case_prod_beta same_session_def session_states split: sum.split)

lemma handle_disconnect_session:
  "same_session (renewed False None c) (handle_disconnect env c)" "same_session (renewed False None c) (handle_service_stopped env c)"
  by (auto simp: handle_disconnect_def handle_service_stopped_def Let_def same_session_def session_states)

lemma handle_quiet_session:
  "same_session c (handle_app_speedtest env d c)" "same_session c (handle_request_permission env c)"
  "same_session c (handle_transport_pulse g m c)"
  by (auto simp: handle_app_speedtest_def handle_request_permission_def handle_transport_pulse_def Let_def same_session_def
      split: sum.split option.split)

lemma handle_stop_vpn_shell_session:
  "same_session (c\<lparr>ct_desired_vpn := False, ct_tun2socks := False\<rparr>) (handle_stop_vpn_shell env c)"
  by (auto simp: handle_stop_vpn_shell_def Let_def same_session_def)

lemma handle_connection_closed_session:
  assumes "g = ct_generation c" and "ct_client c \<noteq> None"
  shows "same_session ((ended (ct_tun2socks c \<and> ct_desired_vpn c) c)\<lparr>ct_timers := ct_timers c @ [(g, 0)]\<rparr>) (handle_connection_closed env g reason c)"
  using assms by (auto simp: handle_connection_closed_def should_preserve_tun2socks_on_connection_loss_def schedule_reconnect_def Let_def
      same_session_def session_states)

lemma handle_reconnect_session:
  assumes "g = ct_generation c" and "ct_reconnect_form c = Some form"
  shows "same_session (c\<lparr>ct_timers := ct_timers c @ [(g, attempt + 1)]\<rparr>) (handle_reconnect env g attempt c) \<or>
    (\<exists>client tun. (tun \<longrightarrow> ct_desired_vpn c \<or> ct_tun2socks c) \<and> same_session (begun form client tun c) (handle_reconnect env g attempt c))"
  using assms by (auto simp: handle_reconnect_def start_vpn_runtime_def should_restart_tun2socks_after_reconnect_def schedule_reconnect_def
      Let_def case_prod_beta same_session_def session_states split: sum.split)

section \<open>The invariant\<close>

definition current_timers :: "controller \<Rightarrow> nat" where
  "current_timers c = length (filter (\<lambda>(g, _). g = ct_generation c) (ct_timers c))"

definition controller_ok :: "controller \<Rightarrow> bool" where
  "controller_ok c \<longleftrightarrow>
     (case ct_client c of
        None \<Rightarrow> ct_local_socks c = None \<and> ct_close_watch c = None \<and> ct_transport_watch c = None \<and> ct_health_probe c = None
      | Some _ \<Rightarrow> ct_local_socks c = Some (ct_generation c) \<and> ct_close_watch c = Some (ct_generation c) \<and>
          ct_transport_watch c = Some (ct_generation c) \<and> ct_health_probe c = Some (ct_generation c) \<and> ct_reconnect_form c \<noteq> None) \<and>
     (ct_tun2socks c \<longrightarrow> ct_desired_vpn c \<and> (ct_client c \<noteq> None \<or> current_timers c = 1)) \<and>
     current_timers c \<le> (if ct_client c = None \<and> ct_reconnect_form c \<noteq> None then 1 else 0)"

definition timers_ok :: "nat \<Rightarrow> controller \<Rightarrow> bool" where
  "timers_ok n c \<longleftrightarrow> unat (ct_generation c) \<le> n \<and> (\<forall>(g, _) \<in> set (ct_timers c). unat g \<le> unat (ct_generation c))"

lemma controller_ok_same: "same_session c c' \<Longrightarrow> controller_ok c' = controller_ok c"
  by (cases "ct_client c") (simp_all add: same_session_def controller_ok_def current_timers_def)

lemma timers_ok_same: "same_session c c' \<Longrightarrow> timers_ok n c' = timers_ok n c"
  by (simp add: same_session_def timers_ok_def)

text \<open>
  The controller takes one command after the other. A reconnect comes from a timer, once; every
  other command can come at any time, also notices of tasks of earlier connections.
\<close>

fun is_reconnect :: "AppCommand \<Rightarrow> bool" where
  "is_reconnect (CmdReconnect _ _) = True"
| "is_reconnect _ = False"

inductive controller_step :: "controller_env \<Rightarrow> controller \<Rightarrow> controller \<Rightarrow> bool" for env where
  command: "\<not> is_reconnect cmd \<Longrightarrow> controller_step env c (handle_command env cmd c)"
| timer: "ct_timers c = before @ (g, attempt) # after \<Longrightarrow>
    controller_step env c (handle_command env (CmdReconnect g attempt) (c\<lparr>ct_timers := before @ after\<rparr>))"

inductive controller_reach :: "controller_env \<Rightarrow> nat \<Rightarrow> controller \<Rightarrow> bool" for env where
  start: "controller_reach env 0 (controller_new env)"
| step: "controller_reach env n c \<Longrightarrow> controller_step env c c' \<Longrightarrow> controller_reach env (Suc n) c'"

lemma unat_next_generation: "unat (g :: u64) < 2 ^ 64 - 1 \<Longrightarrow> unat (g + 1) = Suc (unat g)"
  by (simp add: unat_word_ariths)

lemma renewed_ok:
  assumes "timers_ok n c" and "n < 2 ^ 64 - 1"
  shows "timers_ok (Suc n) (renewed desired form c)" "controller_ok (renewed desired form c)"
    "current_timers (renewed desired form c) = 0"
    "tun \<longrightarrow> desired \<Longrightarrow> controller_ok (begun f client tun (renewed desired form c))"
    "timers_ok (Suc n) (begun f client tun (renewed desired form c))"
proof -
  have u: "unat (ct_generation c + 1) = Suc (unat (ct_generation c))"
    using assms by (intro unat_next_generation) (simp add: timers_ok_def)
  then have "\<forall>(g, _) \<in> set (ct_timers c). g \<noteq> ct_generation c + 1" using assms(1) by (fastforce simp: timers_ok_def)
  then have none: "filter (\<lambda>(g, _). g = ct_generation c + 1) (ct_timers c) = []" by (auto simp: filter_empty_conv)
  then show "current_timers (renewed desired form c) = 0" by (simp add: current_timers_def session_states)
  show "timers_ok (Suc n) (renewed desired form c)" "timers_ok (Suc n) (begun f client tun (renewed desired form c))"
    using assms(1) u by (fastforce simp: timers_ok_def session_states)+
  show "controller_ok (renewed desired form c)" using none by (simp add: controller_ok_def current_timers_def session_states)
  show "tun \<longrightarrow> desired \<Longrightarrow> controller_ok (begun f client tun (renewed desired form c))"
    using none by (simp add: controller_ok_def current_timers_def session_states)
qed

lemma handle_command_ok:
  assumes "controller_ok c" and "timers_ok n c" and "n < 2 ^ 64 - 1" and "\<not> is_reconnect cmd"
  shows "controller_ok (handle_command env cmd c) \<and> timers_ok (Suc n) (handle_command env cmd c)"
proof (cases cmd)
  case (CmdConnect form)
  then show ?thesis using handle_app_connect_session[of c env form] renewed_ok[OF assms(2,3)] by (auto dest: controller_ok_same timers_ok_same)
next
  case (CmdStartManagedVpn form)
  then show ?thesis using handle_start_managed_vpn_session[of form c env] renewed_ok[OF assms(2,3)] by (auto dest: controller_ok_same timers_ok_same)
next
  case (CmdManagedConnect form)
  then show ?thesis using handle_managed_connect_session[of form c env] renewed_ok[OF assms(2,3)] by (auto dest: controller_ok_same timers_ok_same)
next
  case CmdDisconnect
  then show ?thesis using handle_disconnect_session[of c env] renewed_ok[OF assms(2,3)] by (auto dest: controller_ok_same timers_ok_same)
next
  case CmdServiceStopped
  then show ?thesis using handle_disconnect_session[of c env] renewed_ok[OF assms(2,3)] by (auto dest: controller_ok_same timers_ok_same)
next
  case (CmdSpeedtest d)
  then show ?thesis using controller_ok_same timers_ok_same handle_quiet_session(1)[of c env d] assms(1,2) by (fastforce simp: timers_ok_def)
next
  case CmdRequestVpnPermission
  then show ?thesis using controller_ok_same timers_ok_same handle_quiet_session(2)[of c env] assms(1,2) by (fastforce simp: timers_ok_def)
next
  case (CmdTransportPulse g m)
  then show ?thesis using controller_ok_same timers_ok_same handle_quiet_session(3)[of c g m] assms(1,2) by (fastforce simp: timers_ok_def)
next
  case CmdStopVpnShell
  have "controller_ok (c\<lparr>ct_desired_vpn := False, ct_tun2socks := False\<rparr>)" "timers_ok (Suc n) (c\<lparr>ct_desired_vpn := False, ct_tun2socks := False\<rparr>)"
    using assms(1,2) by (auto simp: controller_ok_def current_timers_def timers_ok_def split: option.splits)
  then show ?thesis using CmdStopVpnShell handle_stop_vpn_shell_session[of c env] by (auto dest: controller_ok_same timers_ok_same)
next
  case (CmdConnectionClosed g reason)
  show ?thesis
  proof (cases "g = ct_generation c \<and> ct_client c \<noteq> None")
    case True
    let ?c = "(ended (ct_tun2socks c \<and> ct_desired_vpn c) c)\<lparr>ct_timers := ct_timers c @ [(g, 0)]\<rparr>"
    have "controller_ok ?c" "timers_ok (Suc n) ?c"
      using True assms(1,2) by (auto simp: controller_ok_def current_timers_def timers_ok_def session_states)
    then show ?thesis
      using CmdConnectionClosed handle_connection_closed_session[of g c env reason] True by (auto dest: controller_ok_same timers_ok_same)
  next
    case False
    then have "handle_command env cmd c = c" using CmdConnectionClosed by (auto simp: handle_connection_closed_def)
    then show ?thesis using assms(1,2) by (auto simp: timers_ok_def)
  qed
next
  case (CmdReconnect g a)
  then show ?thesis using assms(4) by simp
qed

lemma handle_timer_ok:
  assumes "controller_ok c" and "timers_ok n c" and "ct_timers c = before @ (g, attempt) # after"
  shows "controller_ok (handle_reconnect env g attempt (c\<lparr>ct_timers := before @ after\<rparr>)) \<and>
    timers_ok (Suc n) (handle_reconnect env g attempt (c\<lparr>ct_timers := before @ after\<rparr>))"
proof (cases "g = ct_generation c")
  case False
  let ?c = "c\<lparr>ct_timers := before @ after\<rparr>"
  have "current_timers ?c = current_timers c" using False assms(3) by (simp add: current_timers_def)
  then have "controller_ok ?c" using assms(1) by (cases "ct_client c") (simp_all add: controller_ok_def)
  moreover have "handle_reconnect env g attempt ?c = ?c" using False by (simp add: handle_reconnect_def)
  ultimately show ?thesis using assms(2,3) by (auto simp: timers_ok_def)
next
  case True
  let ?c = "c\<lparr>ct_timers := before @ after\<rparr>"
  have "current_timers c = Suc (current_timers ?c)" using True assms(3) by (simp add: current_timers_def)
  with assms(1) have none: "ct_client c = None" "current_timers ?c = 0" and "ct_reconnect_form c \<noteq> None"
    by (auto simp: controller_ok_def split: if_splits)
  then obtain form where form: "ct_reconnect_form c = Some form" by blast
  have ok: "controller_ok (?c\<lparr>ct_timers := ct_timers ?c @ [(g, attempt + 1)]\<rparr>)" "timers_ok (Suc n) (?c\<lparr>ct_timers := ct_timers ?c @ [(g, attempt + 1)]\<rparr>)"
    "\<And>client tun. tun \<longrightarrow> ct_desired_vpn c \<or> ct_tun2socks c \<Longrightarrow> controller_ok (begun form client tun ?c)"
    "\<And>client tun. timers_ok (Suc n) (begun form client tun ?c)"
    using assms none form True by (auto simp: controller_ok_def current_timers_def timers_ok_def session_states)
  show ?thesis
    using handle_reconnect_session[of g ?c form attempt env] True form ok by (auto dest: controller_ok_same timers_ok_same)
qed

lemma controller_reach_ok: "controller_reach env n c \<Longrightarrow> n < 2 ^ 64 \<Longrightarrow> controller_ok c \<and> timers_ok n c"
proof (induction rule: controller_reach.induct)
  case start
  then show ?case by (simp add: controller_new_def with_vpn_state_def next_call_def Let_def controller_ok_def current_timers_def timers_ok_def)
next
  case (step n c c')
  then have ok: "controller_ok c" "timers_ok n c" "n < 2 ^ 64 - 1" by simp_all
  show ?case
    using step(2)
  proof cases
    case (command cmd)
    then show ?thesis using handle_command_ok[OF ok] by simp
  next
    case (timer before g attempt after)
    then show ?thesis using handle_timer_ok[OF ok(1,2) timer(2)] by simp
  qed
qed

section \<open>Properties\<close>

definition sample_controller_env :: controller_env where
  "sample_controller_env = \<lparr>en_connect = (\<lambda>_ _. Ok \<lparr>ci_remote = ''h:1'', ci_udp_enabled = True, ci_tx = 0,
       ci_snapshot = \<lparr>tr_rtt = 1, tr_tx_bytes = 0, tr_rx_bytes = 0\<rparr>\<rparr>),
     en_close = (\<lambda>_. Ok ()), en_speedtest = (\<lambda>_ _. Ok []), en_query_state = (\<lambda>_. Ok vpn_default), en_start_managed_vpn = (\<lambda>_ _. Ok ()),
     en_request_permission = (\<lambda>_. Ok ()), en_stop_vpn_service = (\<lambda>_. Ok ()), en_take_tun_fd = (\<lambda>_. Ok 0),
     en_tun_spawn = (\<lambda>_ _ _. Ok ()), en_tun_stop = (\<lambda>_. Ok ()), en_fl = (\<lambda>x. x)\<rparr>"

definition sample_connected :: controller where
  "sample_connected = handle_command sample_controller_env (CmdConnect form_default) (controller_new sample_controller_env)"

lemma sample_connected_reach: "controller_reach sample_controller_env 1 sample_connected"
  using controller_reach.step[OF controller_reach.start controller_step.command[of "CmdConnect form_default"]]
  by (simp add: sample_connected_def)

lemma sample_connected_state: "ct_client sample_connected \<noteq> None" "ct_reconnect_form sample_connected = Some form_default"
  "ct_timers sample_connected = []"
  by (simp_all add: sample_connected_def handle_app_connect_def sample_controller_env_def controller_new_def with_vpn_state_def next_call_def
      Let_def case_prod_beta)

text \<open>
  C38: The controller's tasks follow its connection. After any sequence of fewer than 2^64 commands of
  the user, of the service and of its tasks, also of tasks of earlier connections: the local server
  and the watchers run exactly while there is a connection, and for its generation; the VPN runtime
  runs only while it is wanted and there is a connection or a pending reconnect; and at most one
  reconnect of the current generation is pending, only while there is no connection, so that an automatic
  reconnect never replaces a live connection.
\<close>

theorem controller_invariant:
  assumes "controller_reach env n c" and "n < 2 ^ 64"
  shows "(\<forall>task \<in> {ct_local_socks c, ct_close_watch c, ct_transport_watch c, ct_health_probe c}.
      task = (if ct_client c = None then None else Some (ct_generation c))) \<and>
    (ct_tun2socks c \<longrightarrow> ct_desired_vpn c \<and> (ct_client c \<noteq> None \<or> current_timers c = 1)) \<and>
    current_timers c \<le> 1 \<and> (current_timers c = 1 \<longrightarrow> ct_client c = None \<and> ct_reconnect_form c \<noteq> None)"
  using controller_reach_ok[OF assms] by (auto simp: controller_ok_def split: option.splits if_splits)

theorem controller_invariant_witness:
  "ct_local_socks sample_connected = Some (ct_generation sample_connected) \<and> current_timers sample_connected = 0"
  using controller_invariant[OF sample_connected_reach] sample_connected_state(1) by auto

fun starts_session :: "AppCommand \<Rightarrow> bool" where
  "starts_session (CmdConnect _) = True"
| "starts_session (CmdStartManagedVpn _) = True"
| "starts_session (CmdManagedConnect _) = True"
| "starts_session _ = False"

inductive background :: "controller_env \<Rightarrow> controller \<Rightarrow> controller \<Rightarrow> bool" for env where
  idle: "background env c c"
| more_command: "background env c c' \<Longrightarrow> \<not> starts_session cmd \<Longrightarrow> background env c (handle_command env cmd c')"
| fired: "background env c c' \<Longrightarrow> background env c (c'\<lparr>ct_timers := timers\<rparr>)"

definition at_rest :: "controller \<Rightarrow> bool" where
  "at_rest c \<longleftrightarrow> ct_client c = None \<and> ct_local_socks c = None \<and> ct_close_watch c = None \<and> ct_transport_watch c = None \<and>
     ct_health_probe c = None \<and> \<not> ct_tun2socks c \<and> ct_reconnect_form c = None"

lemma at_rest_same: "same_session c c' \<Longrightarrow> at_rest c' = at_rest c"
  by (simp add: at_rest_def same_session_def)

lemmas at_rest_handlers = handle_disconnect_session[THEN at_rest_same] handle_quiet_session[THEN at_rest_same]
  handle_stop_vpn_shell_session[THEN at_rest_same]

lemma at_rest_command:
  assumes "at_rest c" and "\<not> starts_session cmd"
  shows "at_rest (handle_command env cmd c)"
proof -
  have "at_rest (renewed False None c)" "at_rest (c\<lparr>ct_desired_vpn := False, ct_tun2socks := False\<rparr>)" "ct_client c = None" "ct_reconnect_form c = None"
    using assms(1) by (simp_all add: at_rest_def session_states)
  then show ?thesis
    using assms by (cases cmd) (simp_all add: at_rest_handlers handle_connection_closed_def handle_reconnect_def)
qed

lemma background_rest: "background env c c' \<Longrightarrow> at_rest c \<Longrightarrow> at_rest c'"
  by (induction rule: background.induct) (auto intro: at_rest_command, simp add: at_rest_def)

text \<open>
  C39: A disconnect is final. Whatever the controller was doing, after the user disconnects or the service
  stops, no notice of a task, no timer and no other command brings a connection, a task or the
  VPN runtime back until a command starts a session.
\<close>

theorem disconnect_final:
  assumes "cmd \<in> {CmdDisconnect, CmdServiceStopped}" and "background env (handle_command env cmd c) c'"
  shows "at_rest c'"
proof -
  have "at_rest (renewed False None c)" by (simp add: at_rest_def session_states)
  then have "at_rest (handle_command env cmd c)" using assms(1) by (auto simp: at_rest_handlers)
  then show ?thesis using background_rest[OF assms(2)] by simp
qed

theorem disconnect_final_witness:
  "at_rest (handle_command sample_controller_env (CmdConnectionClosed 1 ''late'') (handle_command sample_controller_env CmdDisconnect sample_connected))"
  using disconnect_final[of CmdDisconnect sample_controller_env sample_connected] background.more_command[OF background.idle, of "CmdConnectionClosed 1 ''late''"]
  by simp

text \<open>
  C40: A notice of a lost connection can end the connection that replaced it. A reconnect keeps the
  generation of the lost connection, so a second notice about that one, which a task of the local
  server may still have queued while the controller was connecting, is taken for a loss of the new
  connection.
\<close>

theorem stale_notice_ends_connection:
  assumes "ct_client c \<noteq> None" and "ct_reconnect_form c = Some form" and "ct_timers c = []"
    and "\<And>k. \<exists>info. en_connect env k form = Ok info"
    and c1_def: "c1 = handle_command env (CmdConnectionClosed (ct_generation c) reason) c"
    and c2_def: "c2 = handle_command env (CmdReconnect (ct_generation c) 0) (c1\<lparr>ct_timers := []\<rparr>)"
    and c3_def: "c3 = handle_command env (CmdConnectionClosed (ct_generation c) stale) c2"
  shows "controller_step env c c1 \<and> controller_step env c1 c2 \<and> controller_step env c2 c3 \<and> ct_client c2 \<noteq> None \<and> ct_client c3 = None"
proof -
  have c1: "same_session ((ended (ct_tun2socks c \<and> ct_desired_vpn c) c)\<lparr>ct_timers := [(ct_generation c, 0)]\<rparr>) c1"
    using handle_connection_closed_session[of "ct_generation c" c env reason] assms(1,3) by (simp add: c1_def)
  then have f: "ct_timers c1 = [] @ (ct_generation c, 0) # []" "ct_generation c1 = ct_generation c" "ct_reconnect_form c1 = Some form"
    using assms(2) by (simp_all add: same_session_def ended_def)
  have "ct_client c2 \<noteq> None \<and> ct_generation c2 = ct_generation c"
    using f assms(4) unfolding c2_def
    by (auto simp: handle_reconnect_def start_vpn_runtime_def Let_def case_prod_beta split: sum.split)
      (metis Inl_Inr_False)+
  moreover from this have "ct_client c3 = None"
    using handle_connection_closed_session[of "ct_generation c" c2 env stale] by (simp add: c3_def same_session_def ended_def)
  ultimately show ?thesis
    using controller_step.command[of "CmdConnectionClosed (ct_generation c) reason" env c]
      controller_step.command[of "CmdConnectionClosed (ct_generation c) stale" env c2] controller_step.timer[OF f(1), of env]
    by (simp add: c1_def c2_def c3_def)
qed

theorem stale_notice_ends_connection_witness:
  "\<exists>c2. ct_client c2 \<noteq> None \<and> ct_client (handle_command sample_controller_env (CmdConnectionClosed (ct_generation sample_connected) ''late'') c2) = None"
proof -
  have "\<exists>info. en_connect sample_controller_env k form_default = Ok info" for k by (simp add: sample_controller_env_def)
  from stale_notice_ends_connection[OF sample_connected_state this refl refl refl, of "''lost''" "''late''"] show ?thesis by blast
qed

text \<open>
  A failed connect leaves the status of the previous connection in place, so a later status, here
  after a request for permission, shows the phase of a connection that is gone.
\<close>

lemma failed_connect_keeps_status:
  assumes "\<And>k. \<exists>e. en_connect env k form = Err e"
  shows "ct_client (handle_app_connect env form c) = None \<and> ct_status (handle_app_connect env form c) = ct_status c"
proof -
  have "ct_status (stop_vpn_runtime env s c) = ct_status c" for s c
    by (simp add: stop_vpn_runtime_def Let_def log_result_def send_event_def next_call_def split: sum.split)
  then have "ct_status (stop_active_session env True True True True c) = ct_status c" for c
    by (simp add: stop_active_session_def Let_def log_result_def send_event_def next_call_def split: sum.split)
  moreover obtain e where "\<And>k. en_connect env k form = Err (e k)" using assms by metis
  ultimately show ?thesis
    by (simp add: handle_app_connect_def Let_def show_status_def with_vpn_state_def send_event_def next_call_def)
qed

lemma reconnect_delay_bound: "1 \<le> reconnect_delay attempt \<and> reconnect_delay attempt \<le> 15"
  by (simp add: reconnect_delay_def MAX_RECONNECT_BACKOFF_def)

text \<open>The probe reports a connection after two failures in a row, and only then.\<close>

lemma health_probe_reports:
  "health_probe 0 results \<noteq> None \<longleftrightarrow> (\<exists>i. Suc i < length results \<and> isl (results ! i) \<and> isl (results ! Suc i))"
proof -
  have split: "(\<exists>i. P i) \<longleftrightarrow> P 0 \<or> (\<exists>i. P (Suc i))" for P :: "nat \<Rightarrow> bool" by (metis not0_implies_Suc)
  have "(health_probe 0 results \<noteq> None \<longleftrightarrow> (\<exists>i. Suc i < length results \<and> isl (results ! i) \<and> isl (results ! Suc i))) \<and>
    (health_probe 1 results \<noteq> None \<longleftrightarrow> results \<noteq> [] \<and> isl (results ! 0) \<or>
      (\<exists>i. Suc i < length results \<and> isl (results ! i) \<and> isl (results ! Suc i)))"
  proof (induction results)
    case (Cons r results)
    have two: "(\<exists>i. Suc i < length (r # results) \<and> isl ((r # results) ! i) \<and> isl ((r # results) ! Suc i)) \<longleftrightarrow>
        results \<noteq> [] \<and> isl r \<and> isl (results ! 0) \<or> (\<exists>i. Suc i < length results \<and> isl (results ! i) \<and> isl (results ! Suc i))"
      by (subst split) auto
    show ?case unfolding two using Cons by (cases r) (auto simp: HEALTH_PROBE_FAILURE_THRESHOLD_def)
  qed simp
  then show ?thesis by blast
qed

end
