(* ===== verification/Config_Data.thy ===== *)
theory Config_Data
  imports Endpoint Anyhow
begin

text \<open>
  The configuration of the command line program as data (the structs of \<open>app/src/config.rs\<close>):
  one record per section. Durations are nanoseconds. Of the server sections that the program
  only rejects, the fields it looks at are kept.
\<close>

section \<open>Client sections\<close>

record ObfsSection =
  ob_type :: string
  ob_salamander_password :: string

record ClientTransportConfig =
  tp_type :: string
  tp_udp_hop_interval :: nat

record AppClientTlsConfig =
  tl_sni :: string
  tl_insecure :: bool
  tl_pin_sha256 :: string
  tl_ca :: string
  tl_client_certificate :: string
  tl_client_key :: string

record ClientQuicSockoptsConfig =
  so_bind_interface :: "string option"
  so_firewall_mark :: "u32 option"
  so_fd_control_unix_socket :: "string option"

record ClientQuicConfig =
  cq_init_stream_receive_window :: u64
  cq_max_stream_receive_window :: u64
  cq_init_connection_receive_window :: u64
  cq_max_connection_receive_window :: u64
  cq_max_idle_timeout :: nat
  cq_keep_alive_period :: nat
  cq_disable_path_mtu_discovery :: bool
  cq_sockopts :: ClientQuicSockoptsConfig

record BandwidthConfig =
  bw_up :: string
  bw_down :: string

record Socks5Config =
  s5_listen :: string
  s5_username :: string
  s5_password :: string
  s5_disable_udp :: bool

record HttpConfig =
  ht_listen :: string
  ht_username :: string
  ht_password :: string
  ht_realm :: string

record TcpForwardingEntry =
  tf_listen :: string
  tf_remote :: string

record UdpForwardingEntry =
  uf_listen :: string
  uf_remote :: string
  uf_timeout :: nat
  uf_socket_receive_buffer :: nat
  uf_socket_send_buffer :: nat
  uf_channel_depth :: nat
  uf_wireguard_mtu :: "u32 option"

record WireGuardForwardingEntry =
  wg_listen :: string
  wg_remote :: string
  wg_mtu :: u32
  wg_timeout :: nat
  wg_socket_receive_buffer :: nat
  wg_socket_send_buffer :: nat
  wg_channel_depth :: nat

record TcpTProxyConfig =
  tt_listen :: string

record UdpTProxyConfig =
  ut_listen :: string
  ut_timeout :: nat

record TcpRedirectConfig =
  td_listen :: string

record TunAddressConfig =
  ta_ipv4 :: string
  ta_ipv6 :: string

record TunRouteConfig =
  tn_strict :: bool
  tn_ipv4 :: "string list"
  tn_ipv6 :: "string list"
  tn_ipv4_exclude :: "string list"
  tn_ipv6_exclude :: "string list"

record TunConfig =
  tu_name :: string
  tu_mtu :: u32
  tu_timeout :: nat
  tu_address :: TunAddressConfig
  tu_route :: "TunRouteConfig option"

record AppClientConfig =
  ac_server :: string
  ac_auth :: string
  ac_transport :: ClientTransportConfig
  ac_obfs :: ObfsSection
  ac_tls :: AppClientTlsConfig
  ac_quic :: ClientQuicConfig
  ac_bandwidth :: BandwidthConfig
  ac_fast_open :: bool
  ac_lazy :: bool
  ac_socks5 :: "Socks5Config option"
  ac_http :: "HttpConfig option"
  ac_tcp_forwarding :: "TcpForwardingEntry list"
  ac_udp_forwarding :: "UdpForwardingEntry list"
  ac_wireguard_forwarding :: "WireGuardForwardingEntry list"
  ac_tcp_tproxy :: "TcpTProxyConfig option"
  ac_udp_tproxy :: "UdpTProxyConfig option"
  ac_tcp_redirect :: "TcpRedirectConfig option"
  ac_tun :: "TunConfig option"

section \<open>Server sections\<close>

record ServerTlsConfig =
  sl_cert :: string
  sl_key :: string
  sl_sni_guard :: string
  sl_client_ca :: string

record ServerQuicConfig =
  sq_init_stream_receive_window :: u64
  sq_max_stream_receive_window :: u64
  sq_init_connection_receive_window :: u64
  sq_max_connection_receive_window :: u64
  sq_max_idle_timeout :: nat
  sq_max_incoming_streams :: int
  sq_disable_path_mtu_discovery :: bool

record ServerAuthConfig =
  sa_type :: string
  sa_password :: string
  sa_userpass :: "(string \<times> string) list"
  sa_http_url :: string
  sa_http_insecure :: bool
  sa_command :: string

text \<open>Sections that the program does not support: the fields that show they are in use.\<close>

record ServerUnsupported =
  su_acme :: bool
  su_resolver_type :: string
  su_sniff_enable :: bool
  su_acl_file :: string
  su_acl_inline :: "string list"
  su_acl_geoip :: string
  su_acl_geosite :: string
  su_outbounds :: "string list"
  su_traffic_stats_listen :: string
  su_masquerade_type :: string
  su_masquerade_listen_http :: string
  su_masquerade_listen_https :: string

record AppServerConfig =
  sv_listen :: string
  sv_obfs :: ObfsSection
  sv_tls :: "ServerTlsConfig option"
  sv_quic :: ServerQuicConfig
  sv_bandwidth :: BandwidthConfig
  sv_ignore_client_bandwidth :: bool
  sv_speed_test :: bool
  sv_disable_udp :: bool
  sv_udp_idle_timeout :: nat
  sv_auth :: ServerAuthConfig
  sv_unsupported :: ServerUnsupported

section \<open>Forwarding entries\<close>

definition WIREGUARD_FORWARD_DEFAULT_TIMEOUT :: nat where
  "WIREGUARD_FORWARD_DEFAULT_TIMEOUT = secs 300"

definition WIREGUARD_FORWARD_DEFAULT_SOCKET_BUFFER :: nat where
  "WIREGUARD_FORWARD_DEFAULT_SOCKET_BUFFER = 8 * 1024 * 1024"

definition WIREGUARD_FORWARD_DEFAULT_CHANNEL_DEPTH :: nat where
  "WIREGUARD_FORWARD_DEFAULT_CHANNEL_DEPTH = 4096"

definition WIREGUARD_FORWARD_DEFAULT_MTU :: u32 where
  "WIREGUARD_FORWARD_DEFAULT_MTU = 1280"

definition with_defaults :: "WireGuardForwardingEntry \<Rightarrow> WireGuardForwardingEntry" where
  "with_defaults e =
     \<lparr>wg_listen = wg_listen e, wg_remote = wg_remote e,
      wg_mtu = (if wg_mtu e = 0 then WIREGUARD_FORWARD_DEFAULT_MTU else wg_mtu e),
      wg_timeout = (if wg_timeout e = 0 then WIREGUARD_FORWARD_DEFAULT_TIMEOUT else wg_timeout e),
      wg_socket_receive_buffer = (if wg_socket_receive_buffer e = 0 then WIREGUARD_FORWARD_DEFAULT_SOCKET_BUFFER
                                  else wg_socket_receive_buffer e),
      wg_socket_send_buffer = (if wg_socket_send_buffer e = 0 then WIREGUARD_FORWARD_DEFAULT_SOCKET_BUFFER
                               else wg_socket_send_buffer e),
      wg_channel_depth = (if wg_channel_depth e = 0 then WIREGUARD_FORWARD_DEFAULT_CHANNEL_DEPTH else wg_channel_depth e)\<rparr>"

definition into_udp_forwarding_entry :: "WireGuardForwardingEntry \<Rightarrow> UdpForwardingEntry" where
  "into_udp_forwarding_entry e =
     (let effective = with_defaults e in
      \<lparr>uf_listen = wg_listen effective, uf_remote = wg_remote effective, uf_timeout = wg_timeout effective,
       uf_socket_receive_buffer = wg_socket_receive_buffer effective, uf_socket_send_buffer = wg_socket_send_buffer effective,
       uf_channel_depth = wg_channel_depth effective, uf_wireguard_mtu = Some (wg_mtu effective)\<rparr>)"

definition merged_udp_forwarding_entries :: "AppClientConfig \<Rightarrow> UdpForwardingEntry list" where
  "merged_udp_forwarding_entries config =
     ac_udp_forwarding config @ map into_udp_forwarding_entry (ac_wireguard_forwarding config)"

lemma with_defaults_idem [simp]: "with_defaults (with_defaults e) = with_defaults e"
  by (simp add: with_defaults_def WIREGUARD_FORWARD_DEFAULT_MTU_def WIREGUARD_FORWARD_DEFAULT_TIMEOUT_def secs_def
      WIREGUARD_FORWARD_DEFAULT_SOCKET_BUFFER_def WIREGUARD_FORWARD_DEFAULT_CHANNEL_DEPTH_def)

end
