(* ===== verification/Hex.thy ===== *)
theory Hex
  imports Rust_Std
begin

text \<open>Bytes as two hexadecimal digits: splitting a byte into nibbles and putting it together again.\<close>

section \<open>Nibbles\<close>

definition lower_nib :: "u8 \<Rightarrow> u8" where
  "lower_nib n = (if n < 10 then 48 + n else 87 + n)"

definition upper_nib :: "u8 \<Rightarrow> u8" where
  "upper_nib n = (if n < 10 then 48 + n else 55 + n)"

lemma unat_add8: "unat (a :: u8) + unat b < 256 \<Longrightarrow> unat (a + b) = unat a + unat b"
  by (simp add: unat_word_ariths)

lemmas u8_arith = word_le_nat_alt word_less_nat_alt unat_add8 unat_sub

lemma take_bit_4: "x < 16 \<Longrightarrow> take_bit 4 x = x" for x :: u8
proof (rule word_unat_eq_iff[THEN iffD2])
  assume "x < 16"
  then show "unat (take_bit 4 x) = unat x" by (simp add: unsigned_take_bit_eq take_bit_nat_eq_self word_less_nat_alt)
qed

lemma nibble_bits: "x < 16 \<Longrightarrow> 4 \<le> n \<Longrightarrow> \<not> bit x n" for x :: u8
  by (subst take_bit_4[symmetric]) (simp_all add: bit_take_bit_iff)

lemma nibbles_join [simp]: "or (push_bit 4 (drop_bit 4 b)) (take_bit 4 b) = (b :: u8)"
  by (rule bit_word_eqI) (auto simp: bit_simps)

lemma nibbles_split:
  assumes "hi < 16" "lo < 16"
  shows "drop_bit 4 (or (push_bit 4 hi) lo) = (hi :: u8)" "take_bit 4 (or (push_bit 4 hi) lo) = (lo :: u8)"
proof -
  show "drop_bit 4 (or (push_bit 4 hi) lo) = hi"
  proof (rule bit_word_eqI)
    fix n assume "n < LENGTH(8)"
    then show "bit (drop_bit 4 (or (push_bit 4 hi) lo)) n = bit hi n"
      using nibble_bits[OF assms(1), of n] nibble_bits[OF assms(2), of "4 + n"] by (cases "n < 4") (auto simp: bit_simps)
  qed
  show "take_bit 4 (or (push_bit 4 hi) lo) = lo"
  proof (rule bit_word_eqI)
    fix n assume "n < LENGTH(8)"
    then show "bit (take_bit 4 (or (push_bit 4 hi) lo)) n = bit lo n"
      using nibble_bits[OF assms(2), of n] by (cases "n < 4") (auto simp: bit_simps)
  qed
qed

lemma nibble_less [simp]: "drop_bit 4 (b :: u8) < 16" "take_bit 4 (b :: u8) < 16"
proof -
  have "unat (drop_bit 4 b) < 16" using unsigned_less[of b, where ?'a = nat] by (simp add: unat_div drop_bit_eq_div less_mult_imp_div_less)
  then show "drop_bit 4 b < 16" by (simp add: word_less_nat_alt)
  have "unat (take_bit 4 b) < 16" by (simp add: unsigned_take_bit_eq take_bit_nat_less_exp[of 4, simplified])
  then show "take_bit 4 b < 16" by (simp add: word_less_nat_alt)
qed

section \<open>Text of a byte string\<close>

definition hex_bytes :: "bytes \<Rightarrow> bytes" where
  "hex_bytes bs = concat (map (\<lambda>b. [lower_nib (drop_bit 4 b), lower_nib (take_bit 4 b)]) bs)"

lemma hex_bytes_simps [simp]:
  "hex_bytes [] = []" "hex_bytes (b # bs) = lower_nib (drop_bit 4 b) # lower_nib (take_bit 4 b) # hex_bytes bs"
  by (simp_all add: hex_bytes_def)

lemma length_hex_bytes [simp]: "length (hex_bytes bs) = 2 * length bs"
  by (induction bs) simp_all

end
