(* ===== verification/Config.thy ===== *)
theory Config
  imports Config_Data Client Hex
begin

text \<open>
  Loading and checking the configuration of the command line program (\<open>app/src/config.rs\<close>).
  The file system, name resolution, the PEM parser, the platform's certificate store and the
  URL parser are parameters. The lemmas show what an accepted configuration guarantees to the
  core, and that the textual formats (bandwidths, certificate hashes, user information) mean
  what they say.
\<close>

section \<open>Files and names\<close>

record file_system =
  fs_exists :: "string \<Rightarrow> bool"
  fs_home_dir :: "string option"
  fs_open :: "string \<Rightarrow> io_error + bytes"
  fs_pem_certs :: "bytes \<Rightarrow> io_error + bytes list"
  fs_pem_pkcs8 :: "bytes \<Rightarrow> io_error + bytes list"
  fs_pem_rsa :: "bytes \<Rightarrow> io_error + bytes list"
  fs_pem_ec :: "bytes \<Rightarrow> io_error + bytes list"
  fs_native_certs :: "bytes list \<times> string list"

definition path_join :: "string \<Rightarrow> string \<Rightarrow> string" where
  "path_join base rest = (if base = [] \<or> last base = CHR ''/'' then base @ rest else base @ ''/'' @ rest)"

definition resolve_config_path :: "file_system \<Rightarrow> string option \<Rightarrow> anyhow + string" where
  "resolve_config_path fs config_path =
     (case config_path of
        Some path \<Rightarrow> Ok path
      | None \<Rightarrow>
          let candidates = [''config.yaml'', ''config.yml''] @
                (case fs_home_dir fs of
                   Some home \<Rightarrow> [path_join home ''.hysteria/config.yaml'', path_join home ''.hysteria/config.yml'']
                 | None \<Rightarrow> []) @
                [''/etc/hysteria/config.yaml'', ''/etc/hysteria/config.yml'']
          in ok_or [Msg (''no config file found; checked ./config.yaml, ./config.yml, $HOME/.hysteria/config.yaml, '' @
                ''$HOME/.hysteria/config.yml, /etc/hysteria/config.yaml, /etc/hysteria/config.yml'')]
              (find (fs_exists fs) candidates))"

definition load_certificates :: "file_system \<Rightarrow> string \<Rightarrow> anyhow + bytes list" where
  "load_certificates fs path =
     and_then (with_context (''failed to open certificate file '' @ path) (map_err (\<lambda>e. [IoCause e]) (fs_open fs path))) (\<lambda>content.
     and_then (with_context (''failed to parse PEM certificates from '' @ path)
       (map_err (\<lambda>e. [IoCause e]) (fs_pem_certs fs content))) (\<lambda>certs.
     if certs = [] then bail (''no certificates found in '' @ path) else Ok certs))"

definition read_keys ::
    "file_system \<Rightarrow> string \<Rightarrow> (bytes \<Rightarrow> io_error + bytes list) \<Rightarrow> string \<Rightarrow> anyhow + bytes list" where
  "read_keys fs path parser what =
     and_then (with_context (''failed to open private key file '' @ path) (map_err (\<lambda>e. [IoCause e]) (fs_open fs path))) (\<lambda>content.
     with_context (''failed to parse '' @ what @ '' private keys from '' @ path) (map_err (\<lambda>e. [IoCause e]) (parser content)))"

definition load_private_key :: "file_system \<Rightarrow> string \<Rightarrow> anyhow + bytes" where
  "load_private_key fs path =
     and_then (read_keys fs path (fs_pem_pkcs8 fs) ''PKCS#8'') (\<lambda>pkcs8.
     case pkcs8 of key # _ \<Rightarrow> Ok key
     | [] \<Rightarrow>
       and_then (read_keys fs path (fs_pem_rsa fs) ''PKCS#1'') (\<lambda>rsa.
       case rsa of key # _ \<Rightarrow> Ok key
       | [] \<Rightarrow>
         and_then (read_keys fs path (fs_pem_ec fs) ''SEC1'') (\<lambda>sec1.
         case sec1 of key # _ \<Rightarrow> Ok key
         | [] \<Rightarrow> bail (''no supported private key found in '' @ path))))"

fun join_with :: "string \<Rightarrow> string list \<Rightarrow> string" where
  "join_with sep [] = []"
| "join_with sep [x] = x"
| "join_with sep (x # xs) = x @ sep @ join_with sep xs"

definition load_system_root_certificates :: "file_system \<Rightarrow> anyhow + bytes list" where
  "load_system_root_certificates fs =
     (case fs_native_certs fs of (certs, errors) \<Rightarrow>
        if certs \<noteq> [] then Ok certs
        else if errors = []
        then bail ''no system root certificates found; set tls.ca explicitly or use tls.insecure=true''
        else bail (''failed to load system root certificates: '' @ join_with ''; '' errors))"

definition load_root_certificates_with :: "file_system \<Rightarrow> string \<Rightarrow> anyhow + bytes list \<Rightarrow> anyhow + bytes list" where
  "load_root_certificates_with fs path system_loader =
     (if trim path = [] then system_loader
      else with_context ''failed to load tls.ca'' (load_certificates fs path))"

text \<open>\<open>to_socket_addrs\<close> on text: a literal, or a host and a port for the resolver.\<close>

definition to_socket_addrs :: "(string \<Rightarrow> u16 \<Rightarrow> io_error + SocketAddr list) \<Rightarrow> string \<Rightarrow> io_error + SocketAddr list" where
  "to_socket_addrs lookup s =
     (case parse_socket_addr s of
        Some a \<Rightarrow> Ok [a]
      | None \<Rightarrow>
          (case rsplit_once (CHR '':'') s of
             None \<Rightarrow> Err (IoError EkInvalidInput ''invalid socket address'')
           | Some (host, port) \<Rightarrow>
               (case parse_uint 65536 port of
                  None \<Rightarrow> Err (IoError EkInvalidInput ''invalid port value'')
                | Some p \<Rightarrow> lookup host (of_nat p))))"

definition resolve_socket_addr ::
    "(string \<Rightarrow> u16 \<Rightarrow> io_error + SocketAddr list) \<Rightarrow> string \<Rightarrow> string option \<Rightarrow> anyhow + SocketAddr" where
  "resolve_socket_addr lookup input default_host =
     (let input = trim input in
      if input = [] then bail ''address must not be empty''
      else
        let normalized = (if hd input = CHR '':'' then (case default_host of Some h \<Rightarrow> h | None \<Rightarrow> ''127.0.0.1'') @ input else input) in
        and_then (with_context (''failed to resolve '' @ normalized) (map_err (\<lambda>e. [IoCause e]) (to_socket_addrs lookup normalized)))
          (\<lambda>addrs. case addrs of
             [] \<Rightarrow> bail (''no socket addresses resolved for '' @ normalized)
           | a # _ \<Rightarrow> Ok a))"

section \<open>Values\<close>

definition ascii_digit :: "char \<Rightarrow> bool" where
  "ascii_digit c \<longleftrightarrow> to_digit 10 c \<noteq> None"

definition bandwidth_unit :: "string \<Rightarrow> u64 option" where
  "bandwidth_unit unit =
     (if unit \<in> {''b'', ''bps''} then Some 1
      else if unit \<in> {''k'', ''kb'', ''kbps''} then Some 1000
      else if unit \<in> {''m'', ''mb'', ''mbps''} then Some 1000000
      else if unit \<in> {''g'', ''gb'', ''gbps''} then Some 1000000000
      else if unit \<in> {''t'', ''tb'', ''tbps''} then Some 1000000000000
      else None)"

definition parse_bandwidth :: "string \<Rightarrow> anyhow + u64" where
  "parse_bandwidth input =
     (let normalized = to_ascii_lowercase (trim input) in
      if normalized = [] then Ok 0
      else
        let digits = takeWhile ascii_digit normalized; rest = dropWhile ascii_digit normalized in
        if digits = [] \<or> rest = [] then bail ''invalid bandwidth format''
        else
          and_then (with_context (''invalid bandwidth value '' @ digits) (ok_or [ParseIntCause] (parse_uint (2 ^ 64) digits))) (\<lambda>v.
          case bandwidth_unit (trim rest) of
            Some unit \<Rightarrow> Ok (saturating_mul64 (of_nat v) unit div 8)
          | None \<Rightarrow> bail ''unsupported bandwidth unit''))"

definition validate_min_bandwidth :: "string \<Rightarrow> u64 \<Rightarrow> anyhow + unit" where
  "validate_min_bandwidth field v =
     (if v \<noteq> 0 \<and> v < 65536 then bail (field @ '' must be at least 65536 bytes per second'') else Ok ())"

definition normalize_cert_hash :: "string \<Rightarrow> string" where
  "normalize_cert_hash hash = filter (\<lambda>c. c \<noteq> CHR '':'' \<and> c \<noteq> CHR ''-'') (to_ascii_lowercase (trim hash))"

definition hex_nibble :: "u8 \<Rightarrow> anyhow + u8" where
  "hex_nibble v =
     (if 48 \<le> v \<and> v \<le> 57 then Ok (v - 48)
      else if 97 \<le> v \<and> v \<le> 102 then Ok (v - 97 + 10)
      else if 65 \<le> v \<and> v \<le> 70 then Ok (v - 65 + 10)
      else bail ''invalid hex digit in pinned SHA-256 hash'')"

fun hex_pairs :: "bytes \<Rightarrow> anyhow + bytes" where
  "hex_pairs (a # b # rest) =
     and_then (hex_nibble a) (\<lambda>high.
     and_then (hex_nibble b) (\<lambda>low.
     and_then (hex_pairs rest) (\<lambda>out. Ok (or (push_bit 4 high) low # out))))"
| "hex_pairs _ = Ok []"

definition parse_optional_pinned_sha256 :: "string \<Rightarrow> anyhow + bytes option" where
  "parse_optional_pinned_sha256 input =
     (let normalized = normalize_cert_hash input in
      if normalized = [] then Ok None
      else if length normalized \<noteq> 64 then bail ''pinned SHA-256 hash must be exactly 64 hex characters''
      else and_then (hex_pairs (as_bytes normalized)) (\<lambda>out. Ok (Some out)))"

definition parse_bool_like :: "string \<Rightarrow> bool option" where
  "parse_bool_like v =
     (let v = to_ascii_lowercase (trim v) in
      if v \<in> {''1'', ''true'', ''t'', ''yes'', ''y''} then Some True
      else if v \<in> {''0'', ''false'', ''f'', ''no'', ''n''} then Some False
      else None)"

definition percent_nibble :: "u8 \<Rightarrow> anyhow + u8" where
  "percent_nibble v =
     (if 48 \<le> v \<and> v \<le> 57 then Ok (v - 48)
      else if 97 \<le> v \<and> v \<le> 102 then Ok (v - 97 + 10)
      else if 65 \<le> v \<and> v \<le> 70 then Ok (v - 65 + 10)
      else bail ''invalid percent-encoding in client URI auth'')"

fun percent_decode :: "bytes \<Rightarrow> anyhow + bytes" where
  "percent_decode [] = Ok []"
| "percent_decode (b # rest) =
     (if b = 37 then
        (case rest of
           a # c # rest' \<Rightarrow>
             and_then (percent_nibble a) (\<lambda>high.
             and_then (percent_nibble c) (\<lambda>low.
             and_then (percent_decode rest') (\<lambda>out. Ok (or (push_bit 4 high) low # out))))
         | _ \<Rightarrow> bail ''invalid percent-encoding in client URI auth'')
      else and_then (percent_decode rest) (\<lambda>out. Ok (b # out)))"

definition decode_userinfo_component :: "string \<Rightarrow> anyhow + string" where
  "decode_userinfo_component input =
     (if (37 :: u8) \<notin> set (as_bytes input) then Ok input
      else and_then (percent_decode (as_bytes input)) (\<lambda>decoded.
        with_context ''client URI auth is not valid UTF-8'' (ok_or [Utf8Cause] (from_utf8 decoded))))"

section \<open>Client configuration\<close>

text \<open>What the URL parser finds in a URI.\<close>

record url =
  url_scheme :: string
  url_host :: "string option"
  url_port :: "u16 option"
  url_username :: string
  url_password :: "string option"
  url_query :: "(string \<times> string) list"

definition uri_server :: "string \<Rightarrow> u16 option \<Rightarrow> string" where
  "uri_server host port =
     (case port of
        Some p \<Rightarrow> if CHR '':'' \<in> set host then ''['' @ host @ '']:'' @ dec (unat p) else host @ '':'' @ dec (unat p)
      | None \<Rightarrow> host)"

definition uri_auth :: "url \<Rightarrow> string \<Rightarrow> anyhow + string" where
  "uri_auth uri auth =
     (if url_username uri = [] \<and> url_password uri = None then Ok auth
      else
        and_then (with_context ''failed to decode auth username from client URI'' (decode_userinfo_component (url_username uri))) (\<lambda>username.
        case url_password uri of
          None \<Rightarrow> Ok username
        | Some p \<Rightarrow>
            and_then (with_context ''failed to decode auth password from client URI'' (decode_userinfo_component p)) (\<lambda>password.
            Ok (username @ '':'' @ password))))"

definition apply_query :: "(string \<rightharpoonup> string) \<Rightarrow> AppClientConfig \<Rightarrow> AppClientConfig" where
  "apply_query query config =
     (let obfs = (case query ''obfs'' of
            None \<Rightarrow> ac_obfs config
          | Some t \<Rightarrow>
              let o' = (ac_obfs config)\<lparr>ob_type := t\<rparr> in
              if eq_ignore_ascii_case t ''salamander''
              then o'\<lparr>ob_salamander_password := (case query ''obfs-password'' of Some p \<Rightarrow> p | None \<Rightarrow> [])\<rparr> else o');
          tls = ac_tls config;
          tls = (case query ''sni'' of Some s \<Rightarrow> tls\<lparr>tl_sni := s\<rparr> | None \<Rightarrow> tls);
          tls = (case Option.bind (query ''insecure'') parse_bool_like of Some b \<Rightarrow> tls\<lparr>tl_insecure := b\<rparr> | None \<Rightarrow> tls);
          tls = (case query ''pinSHA256'' of Some p \<Rightarrow> tls\<lparr>tl_pin_sha256 := p\<rparr> | None \<Rightarrow> tls)
      in config\<lparr>ac_obfs := obfs, ac_tls := tls\<rparr>)"

definition normalize_client_config :: "(string \<Rightarrow> anyhow + url) \<Rightarrow> AppClientConfig \<Rightarrow> anyhow + AppClientConfig" where
  "normalize_client_config parse_url config =
     (let server = trim (ac_server config) in
      if \<not> (prefix ''hy2://'' server \<or> prefix ''hysteria2://'' server) then Ok config
      else
        and_then (with_context ''failed to parse client server URI'' (parse_url server)) (\<lambda>uri.
        if url_scheme uri \<notin> {''hy2'', ''hysteria2''} then Ok config
        else
          and_then (ok_or [Msg ''client URI is missing a host''] (url_host uri)) (\<lambda>host.
          and_then (uri_auth uri (ac_auth config)) (\<lambda>auth.
          Ok (apply_query (map_of (rev (url_query uri))) (config\<lparr>ac_server := uri_server host (url_port uri), ac_auth := auth\<rparr>))))))"

definition lower_trim :: "string \<Rightarrow> string" where
  "lower_trim s = to_ascii_lowercase (trim s)"

definition ensure_client_core_supported :: "AppClientConfig \<Rightarrow> anyhow + unit" where
  "ensure_client_core_supported config =
     (if trim (ac_server config) = [] then bail ''server must not be empty''
      else if lower_trim (tp_type (ac_transport config)) \<notin> {'''', ''udp''}
      then bail ''transport.type is not supported yet by the Rust client CLI''
      else if lower_trim (ob_type (ac_obfs config)) \<notin> {'''', ''plain'', ''salamander''}
      then bail ''obfs.type is not supported yet by the Rust client CLI''
      else if trim (tl_client_certificate (ac_tls config)) \<noteq> [] \<or> trim (tl_client_key (ac_tls config)) \<noteq> []
      then bail ''mutual TLS client certificates are not supported yet by the Rust client CLI''
      else if ac_fast_open config then bail ''fastOpen is not supported yet by the Rust client CLI''
      else if ac_lazy config then bail ''lazy mode is not supported yet by the Rust client CLI''
      else if ac_tcp_tproxy config \<noteq> None \<or> ac_udp_tproxy config \<noteq> None \<or> ac_tcp_redirect config \<noteq> None \<or> ac_tun config \<noteq> None
      then bail ''tproxy/redirect/tun are not supported yet by the Rust client CLI''
      else if (case ac_socks5 config of Some s \<Rightarrow> trim (s5_listen s) = [] | None \<Rightarrow> False) then bail ''socks5.listen must not be empty''
      else if (case ac_http config of Some h \<Rightarrow> trim (ht_listen h) = [] | None \<Rightarrow> False) then bail ''http.listen must not be empty''
      else Ok ())"

fun check_entries :: "string \<Rightarrow> nat \<Rightarrow> (string \<times> string) list \<Rightarrow> anyhow + unit" where
  "check_entries name i [] = Ok ()"
| "check_entries name i ((listen, remote) # entries) =
     (if trim listen = [] then bail (name @ ''['' @ dec i @ ''].listen must not be empty'')
      else if trim remote = [] then bail (name @ ''['' @ dec i @ ''].remote must not be empty'')
      else check_entries name (Suc i) entries)"

definition ensure_client_runtime_mode_supported :: "AppClientConfig \<Rightarrow> anyhow + unit" where
  "ensure_client_runtime_mode_supported config =
     and_then (ensure_client_core_supported config) (\<lambda>_.
     let udp_forwarding = merged_udp_forwarding_entries config in
     if ac_socks5 config = None \<and> ac_http config = None \<and> ac_tcp_forwarding config = [] \<and> udp_forwarding = []
     then bail ''no client mode specified; configure socks5, http, tcpForwarding, udpForwarding, or wireguardForwarding''
     else
       and_then (check_entries ''tcpForwarding'' 0 (map (\<lambda>e. (tf_listen e, tf_remote e)) (ac_tcp_forwarding config))) (\<lambda>_.
       check_entries ''udp forwarding entry '' 0 (map (\<lambda>e. (uf_listen e, uf_remote e)) udp_forwarding)))"

definition infer_server_name :: "AppClientConfig \<Rightarrow> anyhow + string" where
  "infer_server_name config =
     (if trim (tl_sni (ac_tls config)) \<noteq> [] then Ok (tl_sni (ac_tls config))
      else
        let server = trim (ac_server config) in
        case parse_socket_addr server of
          Some addr \<Rightarrow> Ok (show_ip (sock_ip addr))
        | None \<Rightarrow>
            (case rsplit_once (CHR '':'') server of
               Some (host, _) \<Rightarrow> Ok (trim_matches [CHR ''['', CHR '']''] host)
             | None \<Rightarrow> bail ''failed to infer server name from server address; set tls.sni explicitly''))"

definition build_obfs_config :: "ObfsSection \<Rightarrow> anyhow + ObfsConfig option" where
  "build_obfs_config section =
     (let t = lower_trim (ob_type section) in
      if t \<in> {'''', ''plain''} then Ok None
      else if t = ''salamander'' then
        let password = trim (ob_salamander_password section) in
        if password = [] then bail ''obfs.salamander.password must not be empty'' else Ok (Some (Salamander password))
      else bail (''unsupported obfs.type '' @ t))"

definition resolve_quic_window :: "u64 \<Rightarrow> u64 \<Rightarrow> u64 \<Rightarrow> string \<Rightarrow> string \<Rightarrow> anyhow + u64" where
  "resolve_quic_window init_window max_window default_window init_field max_field =
     (let v = (if init_window = 0 \<and> max_window = 0 then default_window
               else if init_window = 0 then max_window
               else if max_window = 0 then init_window
               else max init_window max_window) in
      if v < 16 * 1024 then bail (init_field @ '' and '' @ max_field @ '' must be at least 16384'') else Ok v)"

definition resolve_quic_idle_timeout :: "nat \<Rightarrow> anyhow + nat" where
  "resolve_quic_idle_timeout v =
     (if v = 0 then Ok DEFAULT_MAX_IDLE_TIMEOUT
      else if \<not> (secs 4 \<le> v \<and> v \<le> secs 120) then bail ''quic.maxIdleTimeout must be between 4s and 120s''
      else Ok v)"

definition resolve_keep_alive_period :: "nat \<Rightarrow> anyhow + nat" where
  "resolve_keep_alive_period v =
     (if v = 0 then Ok DEFAULT_KEEP_ALIVE_PERIOD
      else if \<not> (secs 2 \<le> v \<and> v \<le> secs 60) then bail ''quic.keepAlivePeriod must be between 2s and 60s''
      else Ok v)"

definition build_client_quic_transport :: "ClientQuicConfig \<Rightarrow> anyhow + QuicTransportConfig" where
  "build_client_quic_transport config =
     and_then (resolve_quic_window (cq_init_stream_receive_window config) (cq_max_stream_receive_window config)
       DEFAULT_STREAM_RECEIVE_WINDOW ''quic.initStreamReceiveWindow'' ''quic.maxStreamReceiveWindow'') (\<lambda>stream_window.
     and_then (resolve_quic_window (cq_init_connection_receive_window config) (cq_max_connection_receive_window config)
       DEFAULT_CONNECTION_RECEIVE_WINDOW ''quic.initConnReceiveWindow'' ''quic.maxConnReceiveWindow'') (\<lambda>window.
     and_then (resolve_quic_idle_timeout (cq_max_idle_timeout config)) (\<lambda>idle.
     and_then (resolve_keep_alive_period (cq_keep_alive_period config)) (\<lambda>keep_alive.
     Ok \<lparr>qt_stream_receive_window = stream_window, qt_receive_window = window, qt_max_idle_timeout = idle,
         qt_keep_alive_interval = Some keep_alive, qt_max_concurrent_bidi_streams = None,
         qt_disable_path_mtu_discovery = cq_disable_path_mtu_discovery config\<rparr>))))"

definition build_client_core_config_with ::
    "file_system \<Rightarrow> (string \<Rightarrow> u16 \<Rightarrow> io_error + SocketAddr list) \<Rightarrow> (string \<Rightarrow> anyhow + url) \<Rightarrow> anyhow + bytes list \<Rightarrow>
     AppClientConfig \<Rightarrow> anyhow + ClientConfig" where
  "build_client_core_config_with fs lookup parse_url system_loader config =
     and_then (normalize_client_config parse_url config) (\<lambda>config.
     and_then (ensure_client_core_supported config) (\<lambda>_.
     and_then (with_context ''invalid server address'' (resolve_socket_addr lookup (ac_server config) None)) (\<lambda>addr.
     and_then (infer_server_name config) (\<lambda>name.
     and_then (with_context ''invalid bandwidth.up'' (parse_bandwidth (bw_up (ac_bandwidth config)))) (\<lambda>up.
     and_then (with_context ''invalid bandwidth.down'' (parse_bandwidth (bw_down (ac_bandwidth config)))) (\<lambda>down.
     and_then (with_context ''invalid obfs config'' (build_obfs_config (ac_obfs config))) (\<lambda>obfs.
     and_then (with_context ''invalid quic config'' (build_client_quic_transport (ac_quic config))) (\<lambda>quic.
     and_then (load_root_certificates_with fs (tl_ca (ac_tls config)) system_loader) (\<lambda>roots.
     and_then (with_context ''invalid tls.pinSHA256'' (parse_optional_pinned_sha256 (tl_pin_sha256 (ac_tls config)))) (\<lambda>pin.
     Ok ((client_config_new addr name)\<lparr>cc_auth := ac_auth config, cc_bandwidth_max_tx := up, cc_bandwidth_max_rx := down,
       cc_obfs := obfs, cc_quic := quic,
       cc_tls := \<lparr>ct_insecure = tl_insecure (ac_tls config), ct_root_certificates = roots,
                 ct_pinned_certificate_sha256 = pin\<rparr>\<rparr>)))))))))))"

definition build_client_core_config ::
    "file_system \<Rightarrow> (string \<Rightarrow> u16 \<Rightarrow> io_error + SocketAddr list) \<Rightarrow> (string \<Rightarrow> anyhow + url) \<Rightarrow> AppClientConfig \<Rightarrow> anyhow + ClientConfig" where
  "build_client_core_config fs lookup parse_url config =
     build_client_core_config_with fs lookup parse_url (load_system_root_certificates fs) config"

record RunnableClientConfig =
  rcc_core :: ClientConfig
  rcc_socks5 :: "Socks5Config option"
  rcc_http :: "HttpConfig option"
  rcc_tcp_forwarding :: "TcpForwardingEntry list"
  rcc_udp_forwarding :: "UdpForwardingEntry list"

definition build_runnable_client_config ::
    "file_system \<Rightarrow> (string \<Rightarrow> u16 \<Rightarrow> io_error + SocketAddr list) \<Rightarrow> (string \<Rightarrow> anyhow + url) \<Rightarrow> AppClientConfig \<Rightarrow>
     anyhow + RunnableClientConfig" where
  "build_runnable_client_config fs lookup parse_url config =
     and_then (ensure_client_runtime_mode_supported config) (\<lambda>_.
     and_then (build_client_core_config fs lookup parse_url config) (\<lambda>core.
     Ok \<lparr>rcc_core = core, rcc_socks5 = ac_socks5 config, rcc_http = ac_http config,
         rcc_tcp_forwarding = ac_tcp_forwarding config, rcc_udp_forwarding = merged_udp_forwarding_entries config\<rparr>))"

section \<open>Server configuration\<close>

definition ensure_server_mode_supported :: "AppServerConfig \<Rightarrow> anyhow + unit" where
  "ensure_server_mode_supported config =
     (let u = sv_unsupported config; a = sv_auth config in
      if lower_trim (ob_type (sv_obfs config)) \<notin> {'''', ''plain'', ''salamander''}
      then bail ''obfs.type is not supported yet by the Rust server CLI''
      else if su_acme u then bail ''acme is not supported yet by the Rust server CLI''
      else if sa_userpass a \<noteq> [] \<or> trim (sa_http_url a) \<noteq> [] \<or> trim (sa_command a) \<noteq> []
      then bail ''only password authentication is supported by the Rust server CLI''
      else if trim (su_resolver_type u) \<noteq> [] \<or> su_sniff_enable u \<or> trim (su_acl_file u) \<noteq> [] \<or> su_acl_inline u \<noteq> [] \<or>
              trim (su_acl_geoip u) \<noteq> [] \<or> trim (su_acl_geosite u) \<noteq> [] \<or> su_outbounds u \<noteq> [] \<or>
              trim (su_traffic_stats_listen u) \<noteq> [] \<or> trim (su_masquerade_type u) \<noteq> [] \<or>
              trim (su_masquerade_listen_http u) \<noteq> [] \<or> trim (su_masquerade_listen_https u) \<noteq> []
      then bail ''resolver/sniff/acl/outbounds/trafficStats/masquerade are not supported yet by the Rust server CLI''
      else case sv_tls config of
          None \<Rightarrow> bail ''tls must be configured''
        | Some tls \<Rightarrow>
            if trim (sl_cert tls) = [] \<or> trim (sl_key tls) = [] then bail ''tls.cert and tls.key must not be empty''
            else if trim (sl_client_ca tls) \<noteq> [] then bail ''tls.clientCA is not supported yet by the Rust server CLI''
            else if trim (sl_sni_guard tls) \<noteq> [] then bail ''tls.sniGuard is not supported yet by the Rust server CLI''
            else if lower_trim (sa_type a) \<notin> {'''', ''password''} then bail ''auth.type must be empty or password''
            else if trim (sa_password a) = [] then bail ''auth.password must not be empty''
            else if sv_udp_idle_timeout config \<noteq> 0 \<and> (sv_udp_idle_timeout config < secs 2 \<or> sv_udp_idle_timeout config > secs 600)
            then bail ''udpIdleTimeout must be between 2s and 600s''
            else Ok ())"

definition build_password_authenticator :: "ServerAuthConfig \<Rightarrow> anyhow + PasswordAuthenticator" where
  "build_password_authenticator auth =
     (if trim (sa_password auth) = [] then bail ''auth.password must not be empty'' else Ok (password_new (sa_password auth)))"

definition build_server_quic_transport :: "ServerQuicConfig \<Rightarrow> anyhow + QuicTransportConfig" where
  "build_server_quic_transport config =
     and_then (if sq_max_incoming_streams config = 0 then Ok DEFAULT_MAX_INCOMING_STREAMS
               else if sq_max_incoming_streams config < 8 then bail ''quic.maxIncomingStreams must be at least 8''
               else Ok (of_int (sq_max_incoming_streams config))) (\<lambda>streams.
     and_then (resolve_quic_window (sq_init_stream_receive_window config) (sq_max_stream_receive_window config)
       DEFAULT_STREAM_RECEIVE_WINDOW ''quic.initStreamReceiveWindow'' ''quic.maxStreamReceiveWindow'') (\<lambda>stream_window.
     and_then (resolve_quic_window (sq_init_connection_receive_window config) (sq_max_connection_receive_window config)
       DEFAULT_CONNECTION_RECEIVE_WINDOW ''quic.initConnReceiveWindow'' ''quic.maxConnReceiveWindow'') (\<lambda>window.
     and_then (resolve_quic_idle_timeout (sq_max_idle_timeout config)) (\<lambda>idle.
     Ok \<lparr>qt_stream_receive_window = stream_window, qt_receive_window = window, qt_max_idle_timeout = idle,
         qt_keep_alive_interval = None, qt_max_concurrent_bidi_streams = Some streams,
         qt_disable_path_mtu_discovery = sq_disable_path_mtu_discovery config\<rparr>))))"

definition build_runnable_server_config ::
    "file_system \<Rightarrow> (string \<Rightarrow> u16 \<Rightarrow> io_error + SocketAddr list) \<Rightarrow> AppServerConfig \<Rightarrow> anyhow + ServerConfig" where
  "build_runnable_server_config fs lookup config =
     and_then (ensure_server_mode_supported config) (\<lambda>_.
     and_then (ok_or [Msg ''tls must be configured for the Rust server''] (sv_tls config)) (\<lambda>tls.
     and_then (with_context ''invalid bandwidth.up'' (parse_bandwidth (bw_up (sv_bandwidth config)))) (\<lambda>up.
     and_then (with_context ''invalid bandwidth.down'' (parse_bandwidth (bw_down (sv_bandwidth config)))) (\<lambda>down.
     and_then (validate_min_bandwidth ''bandwidth.up'' up) (\<lambda>_.
     and_then (validate_min_bandwidth ''bandwidth.down'' down) (\<lambda>_.
     and_then (with_context ''invalid listen address''
       (resolve_socket_addr lookup (if sv_listen config = [] then '':443'' else sv_listen config) (Some ''0.0.0.0''))) (\<lambda>bind_addr.
     and_then (with_context ''failed to load tls.cert'' (load_certificates fs (sl_cert tls))) (\<lambda>certs.
     and_then (with_context ''failed to load tls.key'' (load_private_key fs (sl_key tls))) (\<lambda>key.
     and_then (build_password_authenticator (sv_auth config)) (\<lambda>auth.
     and_then (with_context ''invalid obfs config'' (build_obfs_config (sv_obfs config))) (\<lambda>obfs.
     and_then (with_context ''invalid quic config'' (build_server_quic_transport (sv_quic config))) (\<lambda>quic.
     Ok \<lparr>sc_bind_addr = bind_addr, sc_certificates = certs, sc_private_key = key,
         sc_authenticator = password_authenticate auth, sc_obfs = obfs, sc_speed_test = sv_speed_test config,
         sc_disable_udp = sv_disable_udp config, sc_udp_idle_timeout = sv_udp_idle_timeout config,
         sc_bandwidth_max_tx = up, sc_bandwidth_max_rx = down,
         sc_ignore_client_bandwidth = sv_ignore_client_bandwidth config, sc_quic = quic\<rparr>))))))))))))"

section \<open>Certificate hashes\<close>

lemma hex_nibble_lower: "n < 16 \<Longrightarrow> hex_nibble (lower_nib n) = Ok n"
  by (auto simp: hex_nibble_def lower_nib_def u8_arith)

lemma hex_nibble_Ok: "hex_nibble v = Ok n \<Longrightarrow> \<not> (65 \<le> v \<and> v \<le> 70) \<Longrightarrow> n < 16 \<and> v = lower_nib n"
  by (auto simp: hex_nibble_def lower_nib_def u8_arith split: if_splits)

lemma hex_pairs_hex_bytes: "hex_pairs (hex_bytes h) = Ok h"
  by (induction h) (simp_all add: hex_nibble_lower)

lemma hex_pairs_Ok:
  assumes "hex_pairs bs = Ok h" and "even (length bs)" and "\<forall>v \<in> set bs. \<not> (65 \<le> v \<and> v \<le> 70)"
  shows "bs = hex_bytes h"
  using assms
proof (induction bs arbitrary: h rule: hex_pairs.induct)
  case (1 a b rest)
  then obtain hi lo out where "hex_nibble a = Ok hi" "hex_nibble b = Ok lo" "hex_pairs rest = Ok out"
    "h = or (push_bit 4 hi) lo # out" by (auto simp: and_then_Ok_iff)
  moreover from this have "rest = hex_bytes out" using 1 by auto
  moreover have "hi < 16 \<and> a = lower_nib hi" "lo < 16 \<and> b = lower_nib lo"
    using calculation(1,2) "1.prems"(3) by (auto dest!: hex_nibble_Ok)
  ultimately show ?case using nibbles_split[of hi lo] by simp
qed auto

lemma ascii_lower_not_upper: "\<not> (65 \<le> (of_char (ascii_lower c) :: nat) \<and> (of_char (ascii_lower c) :: nat) \<le> 90)"
  by (auto simp: ascii_lower_def Let_def)

lemma lowercase_bytes: "\<forall>v \<in> set (as_bytes (normalize_cert_hash s)). \<not> (65 \<le> v \<and> v \<le> 70)"
proof
  fix v assume "v \<in> set (as_bytes (normalize_cert_hash s))"
  then obtain c where "v = of_char (ascii_lower c)"
    by (auto simp: as_bytes_def normalize_cert_hash_def to_ascii_lowercase_def)
  then show "\<not> (65 \<le> v \<and> v \<le> 70)"
    using ascii_lower_not_upper[of c] by (auto simp: word_le_nat_alt unat_of_char)
qed

lemma parse_pinned_iff:
  "parse_optional_pinned_sha256 s = Ok (Some h) \<longleftrightarrow> length h = 32 \<and> as_bytes (normalize_cert_hash s) = hex_bytes h"
proof
  assume p: "parse_optional_pinned_sha256 s = Ok (Some h)"
  then have len: "length (normalize_cert_hash s) = 64" and "hex_pairs (as_bytes (normalize_cert_hash s)) = Ok h"
    by (auto simp: parse_optional_pinned_sha256_def Let_def and_then_Ok_iff split: if_splits)
  then have eq: "as_bytes (normalize_cert_hash s) = hex_bytes h" using lowercase_bytes by (intro hex_pairs_Ok) auto
  from arg_cong[OF eq, of length] len have "length h = 32" by simp
  with eq show "length h = 32 \<and> as_bytes (normalize_cert_hash s) = hex_bytes h" by simp
next
  assume h: "length h = 32 \<and> as_bytes (normalize_cert_hash s) = hex_bytes h"
  from arg_cong[OF conjunct2[OF h], of length] conjunct1[OF h]
  have "length (normalize_cert_hash s) = 64" by simp
  with h show "parse_optional_pinned_sha256 s = Ok (Some h)"
    by (auto simp: parse_optional_pinned_sha256_def Let_def hex_pairs_hex_bytes)
qed

section \<open>Bandwidths\<close>

lemma to_ascii_lowercase_append [simp]: "to_ascii_lowercase (s @ t) = to_ascii_lowercase s @ to_ascii_lowercase t"
  by (simp add: to_ascii_lowercase_def)

lemma dec_ascii: "c \<in> set (dec n) \<Longrightarrow> ascii_digit c \<and> ascii_lower c = c"
proof -
  assume c: "c \<in> set (dec n)"
  have "ascii_digit c" using print_radix_chars(2)[of 10 c n] c by (simp add: ascii_digit_def)
  then show ?thesis by (auto simp: ascii_digit_def to_digit_def ascii_lower_def Let_def split: if_splits)
qed

lemma lowercase_dec: "to_ascii_lowercase (dec n) = dec n"
  using dec_ascii by (simp add: to_ascii_lowercase_def map_idI)

lemma bandwidth_unit_start:
  "bandwidth_unit unit \<noteq> None \<Longrightarrow>
   list_all (\<lambda>c. c \<in> set ''bpskmgt'') unit \<and> unit \<noteq> []"
  unfolding bandwidth_unit_def by (simp split: if_split_asm; elim disjE; simp)

lemma unit_chars: "c \<in> set ''bpskmgt'' \<Longrightarrow> graphic c \<and> \<not> ascii_digit c"
  by (auto simp: graphic_def ascii_digit_def to_digit_def)

lemma graphic_lower: "graphic (ascii_lower c) = graphic c"
  by (auto simp: graphic_def ascii_lower_def Let_def)

lemma dec_graphic: "c \<in> set (dec n) \<Longrightarrow> graphic c"
  using dec_ascii[of c n] by (auto simp: graphic_def ascii_digit_def to_digit_def Let_def split: if_splits)

lemma space_str: "str_of [32] = '' ''"
  by code_simp

lemma whitespace_space:
  "'' '' \<in> set whitespace" "w \<in> set whitespace \<Longrightarrow> w \<noteq> [] \<Longrightarrow> prefix w (CHR '' '' # s) \<Longrightarrow> w = '' ''"
proof -
  have "list_all (\<lambda>w. of_char (hd w) = (32 :: nat) \<longrightarrow> w = str_of [32]) whitespace"
    by (simp add: whitespace_def str_of_def)
  then show "w \<in> set whitespace \<Longrightarrow> w \<noteq> [] \<Longrightarrow> prefix w (CHR '' '' # s) \<Longrightarrow> w = '' ''"
    by (cases w) (auto simp: list_all_iff space_str)
  have "str_of [32] \<in> set whitespace" by (simp add: whitespace_def)
  then show "'' '' \<in> set whitespace" by (simp only: space_str)
qed

lemma find_whitespace_space: "find (\<lambda>w. w \<noteq> [] \<and> prefix w (CHR '' '' # s)) whitespace = Some '' ''"
proof (cases "find (\<lambda>w. w \<noteq> [] \<and> prefix w (CHR '' '' # s)) whitespace")
  case None
  then show ?thesis using whitespace_space(1) by (auto simp: find_None_iff)
next
  case (Some w)
  then show ?thesis using whitespace_space(2)[of w s] by (auto simp: find_Some_iff)
qed

lemma trim_spaces: "trim (replicate n (CHR '' '') @ s) = trim s"
proof (induction n)
  case (Suc n)
  have "strip_front whitespace (CHR '' '' # replicate n (CHR '' '') @ s) = strip_front whitespace (replicate n (CHR '' '') @ s)"
    by (subst strip_front.simps) (simp add: find_whitespace_space)
  with Suc show ?case by (simp add: trim_def)
qed simp

lemma digits_split:
  assumes "\<not> ascii_digit (hd rest)" and "rest \<noteq> []"
  shows "takeWhile ascii_digit (dec n @ rest) = dec n" "dropWhile ascii_digit (dec n @ rest) = rest"
proof -
  have "\<forall>c \<in> set (dec n). ascii_digit c" using dec_ascii by blast
  then show "takeWhile ascii_digit (dec n @ rest) = dec n" "dropWhile ascii_digit (dec n @ rest) = rest"
    using assms by (cases rest; simp add: takeWhile_append2 dropWhile_append2)+
qed

definition bandwidth_text :: "nat \<Rightarrow> nat \<Rightarrow> string \<Rightarrow> string" where
  "bandwidth_text n spaces unit = dec n @ replicate spaces (CHR '' '') @ unit"

lemma parse_bandwidth_text:
  assumes n: "n < 2 ^ 64" and unit: "bandwidth_unit (to_ascii_lowercase unit) = Some k"
  shows "parse_bandwidth (bandwidth_text n spaces unit) = Ok (saturating_mul64 (of_nat n) k div 8)"
proof -
  let ?u = "to_ascii_lowercase unit"
  let ?rest = "replicate spaces (CHR '' '') @ ?u"
  have u: "list_all (\<lambda>c. c \<in> set ''bpskmgt'') ?u" "?u \<noteq> []" using bandwidth_unit_start[of ?u] unit by auto
  then have g: "\<forall>c \<in> set ?u. graphic c \<and> \<not> ascii_digit c" using unit_chars by (auto simp: list_all_iff)
  then have "\<forall>c \<in> set unit. graphic c" by (auto simp: to_ascii_lowercase_def graphic_lower)
  moreover have ne: "unit \<noteq> []" "dec n \<noteq> []" using u(2) by (auto simp: to_ascii_lowercase_def)
  ultimately have "trim (bandwidth_text n spaces unit) = bandwidth_text n spaces unit"
    using dec_graphic[of "hd (dec n)" n] by (intro trim_id) (auto simp: bandwidth_text_def)
  moreover have "to_ascii_lowercase (bandwidth_text n spaces unit) = dec n @ ?rest"
    by (simp add: bandwidth_text_def lowercase_dec) (simp add: to_ascii_lowercase_def map_replicate ascii_lower_def)
  moreover have "trim ?rest = ?u" using g u(2) by (simp add: trim_spaces trim_id)
  moreover have "\<not> ascii_digit (hd ?rest)" "?rest \<noteq> []"
    using g u(2) by (cases spaces; simp add: ascii_digit_def to_digit_def)+
  ultimately show ?thesis
    using n unit ne(2) by (simp add: parse_bandwidth_def Let_def digits_split with_context_def)
qed

text \<open>
  A configured bandwidth means bits per second in the decimal unit named, whatever the case of
  the unit and the number of blanks before it: the limit in bytes is the product divided by eight,
  and a product that does not fit saturates instead of wrapping to a small limit.
\<close>

lemma bandwidth_in_bytes:
  assumes "n < 2 ^ 64" and "bandwidth_unit (to_ascii_lowercase unit) = Some k"
  shows "map_sum id unat (parse_bandwidth (bandwidth_text n spaces unit)) = Ok (min (n * unat k) (2 ^ 64 - 1) div 8)"
  using assms(1) by (simp add: parse_bandwidth_text[OF assms] unat_div unat_saturating_mul64 unat_of_nat)

section \<open>What an accepted configuration guarantees\<close>

lemma resolve_quic_window_Ok: "resolve_quic_window i m d f g = Ok w \<Longrightarrow> 16384 \<le> w"
  by (auto simp: resolve_quic_window_def Let_def not_less split: if_splits)

lemma resolve_quic_idle_timeout_Ok: "resolve_quic_idle_timeout t = Ok d \<Longrightarrow> secs 4 \<le> d \<and> d \<le> secs 120"
  by (auto simp: resolve_quic_idle_timeout_def DEFAULT_MAX_IDLE_TIMEOUT_def secs_def split: if_splits)

lemma resolve_keep_alive_period_Ok: "resolve_keep_alive_period t = Ok d \<Longrightarrow> secs 2 \<le> d \<and> d \<le> secs 60"
  by (auto simp: resolve_keep_alive_period_def DEFAULT_KEEP_ALIVE_PERIOD_def secs_def split: if_splits)

lemma idle_range_millis: "d \<le> secs 120 \<Longrightarrow> d div 1000000 \<le> unat MAX_VARINT"
  using div_le_mono[of d "secs 120" 1000000] by (simp add: secs_def MAX_VARINT_def)

lemma load_certificates_Ok: "load_certificates fs path = Ok certs \<Longrightarrow> certs \<noteq> []"
  by (auto simp: load_certificates_def and_then_Ok_iff split: if_splits)

lemma build_obfs_config_Ok: "build_obfs_config s = Ok (Some (Salamander p)) \<Longrightarrow> p \<noteq> []"
  by (auto simp: build_obfs_config_def Let_def split: if_splits)

definition fits_quic :: "QuicTransportConfig \<Rightarrow> bool" where
  "fits_quic quic \<longleftrightarrow> qt_stream_receive_window quic \<le> MAX_VARINT \<and> qt_receive_window quic \<le> MAX_VARINT \<and>
     (case qt_max_concurrent_bidi_streams quic of Some n \<Rightarrow> n \<le> MAX_VARINT | None \<Rightarrow> True)"

lemma guard_Ok_iff: "(if c then Err e else r) = Ok v \<longleftrightarrow> \<not> c \<and> r = Ok v"
  by simp

lemma ensure_server_mode_timeout:
  assumes "ensure_server_mode_supported config = Ok ()"
  shows "sv_udp_idle_timeout config \<in> {0} \<union> {secs 2..secs 600}"
proof (cases "sv_tls config")
  case (Some tls)
  have "\<not> (sv_udp_idle_timeout config \<noteq> 0 \<and> (sv_udp_idle_timeout config < secs 2 \<or> sv_udp_idle_timeout config > secs 600))"
    using assms unfolding ensure_server_mode_supported_def Let_def guard_Ok_iff Some option.case by (elim conjE)
  then show ?thesis by auto
next
  case None
  then show ?thesis using assms unfolding ensure_server_mode_supported_def Let_def guard_Ok_iff by simp
qed

lemma build_server_quic_transport_Ok:
  assumes "build_server_quic_transport config = Ok quic"
  shows "quic_ok quic \<longleftrightarrow> fits_quic quic"
  using assms
  by (auto simp: build_server_quic_transport_def and_then_Ok_iff quic_ok_def fits_quic_def MIN_QUIC_RECEIVE_WINDOW_def
      dest!: resolve_quic_window_Ok resolve_quic_idle_timeout_Ok intro: idle_range_millis)

lemma build_client_quic_transport_Ok:
  assumes "build_client_quic_transport config = Ok quic"
  shows "quic_ok quic \<longleftrightarrow> fits_quic quic"
  using assms
  by (auto simp: build_client_quic_transport_def and_then_Ok_iff quic_ok_def fits_quic_def MIN_QUIC_RECEIVE_WINDOW_def
      dest!: resolve_quic_window_Ok resolve_quic_idle_timeout_Ok intro: idle_range_millis)

text \<open>A small configuration of each kind.\<close>

definition sample_fs :: file_system where
  "sample_fs = \<lparr>fs_exists = \<lambda>_. True, fs_home_dir = None, fs_open = \<lambda>_. Ok [0], fs_pem_certs = \<lambda>_. Ok [[1]],
     fs_pem_pkcs8 = \<lambda>_. Ok [[2]], fs_pem_rsa = \<lambda>_. Ok [], fs_pem_ec = \<lambda>_. Ok [], fs_native_certs = ([[1]], [])\<rparr>"

definition sample_server :: AppServerConfig where
  "sample_server = \<lparr>sv_listen = ''127.0.0.1:443'', sv_obfs = \<lparr>ob_type = [], ob_salamander_password = []\<rparr>,
     sv_tls = Some \<lparr>sl_cert = ''cert'', sl_key = ''key'', sl_sni_guard = [], sl_client_ca = []\<rparr>,
     sv_quic = \<lparr>sq_init_stream_receive_window = 0, sq_max_stream_receive_window = 0, sq_init_connection_receive_window = 0,
       sq_max_connection_receive_window = 0, sq_max_idle_timeout = 0, sq_max_incoming_streams = 0,
       sq_disable_path_mtu_discovery = False\<rparr>,
     sv_bandwidth = \<lparr>bw_up = [], bw_down = []\<rparr>, sv_ignore_client_bandwidth = False, sv_speed_test = False,
     sv_disable_udp = False, sv_udp_idle_timeout = 0,
     sv_auth = \<lparr>sa_type = [], sa_password = ''pw'', sa_userpass = [], sa_http_url = [], sa_http_insecure = False, sa_command = []\<rparr>,
     sv_unsupported = \<lparr>su_acme = False, su_resolver_type = [], su_sniff_enable = False, su_acl_file = [], su_acl_inline = [],
       su_acl_geoip = [], su_acl_geosite = [], su_outbounds = [], su_traffic_stats_listen = [], su_masquerade_type = [],
       su_masquerade_listen_http = [], su_masquerade_listen_https = []\<rparr>\<rparr>"

definition sample_client :: AppClientConfig where
  "sample_client = \<lparr>ac_server = ''127.0.0.1:443'', ac_auth = ''pw'', ac_transport = \<lparr>tp_type = [], tp_udp_hop_interval = 0\<rparr>,
     ac_obfs = \<lparr>ob_type = [], ob_salamander_password = []\<rparr>,
     ac_tls = \<lparr>tl_sni = ''localhost'', tl_insecure = True, tl_pin_sha256 = concat (replicate 31 ''00:'') @ ''00'', tl_ca = [],
       tl_client_certificate = [], tl_client_key = []\<rparr>,
     ac_quic = \<lparr>cq_init_stream_receive_window = 0, cq_max_stream_receive_window = 0, cq_init_connection_receive_window = 0,
       cq_max_connection_receive_window = 0, cq_max_idle_timeout = 0, cq_keep_alive_period = 0,
       cq_disable_path_mtu_discovery = False,
       cq_sockopts = \<lparr>so_bind_interface = None, so_firewall_mark = None, so_fd_control_unix_socket = None\<rparr>\<rparr>,
     ac_bandwidth = \<lparr>bw_up = [], bw_down = []\<rparr>, ac_fast_open = False, ac_lazy = False, ac_socks5 = None, ac_http = None,
     ac_tcp_forwarding = [], ac_udp_forwarding = [], ac_wireguard_forwarding = [], ac_tcp_tproxy = None, ac_udp_tproxy = None,
     ac_tcp_redirect = None, ac_tun = None\<rparr>"

lemma sample_addr: "parse_socket_addr ''127.0.0.1:443'' = Some (SocketV4 (Ipv4Addr 127 0 0 1) 443)"
proof -
  have "show_socket_addr (SocketV4 (Ipv4Addr 127 0 0 1) 443) = ''127.0.0.1:443''"
    by (simp add: show_socket_addr_def show_ipv4_def print_radix.simps) code_simp
  with parse_show_socket_addr(1) show ?thesis by metis
qed

lemma sample_resolves: "resolve_socket_addr lookup ''127.0.0.1:443'' d = Ok (SocketV4 (Ipv4Addr 127 0 0 1) 443)"
  by (simp add: resolve_socket_addr_def Let_def trim_id graphic_def to_socket_addrs_def sample_addr)

lemma trim_Nil [simp]: "trim [] = []"
  by (simp add: trim_id)

lemma lower_trim_Nil [simp]: "lower_trim [] = []"
  by (simp add: lower_trim_def to_ascii_lowercase_def)

lemma parse_bandwidth_Nil [simp]: "parse_bandwidth [] = Ok 0"
  by (simp add: parse_bandwidth_def to_ascii_lowercase_def)

lemma default_windows:
  "resolve_quic_window 0 0 DEFAULT_STREAM_RECEIVE_WINDOW f g = Ok DEFAULT_STREAM_RECEIVE_WINDOW"
  "resolve_quic_window 0 0 DEFAULT_CONNECTION_RECEIVE_WINDOW f g = Ok DEFAULT_CONNECTION_RECEIVE_WINDOW"
  by (simp_all add: resolve_quic_window_def DEFAULT_STREAM_RECEIVE_WINDOW_def DEFAULT_CONNECTION_RECEIVE_WINDOW_def)

lemma sample_server_accepted: "\<exists>sc. build_runnable_server_config sample_fs lookup sample_server = Ok sc"
  by (simp add: build_runnable_server_config_def sample_server_def sample_fs_def ensure_server_mode_supported_def sample_resolves
      validate_min_bandwidth_def load_certificates_def load_private_key_def read_keys_def build_password_authenticator_def
      build_obfs_config_def build_server_quic_transport_def default_windows resolve_quic_idle_timeout_def trim_id graphic_def)

lemma sample_pin: "normalize_cert_hash (tl_pin_sha256 (ac_tls sample_client)) = replicate 64 (CHR ''0'')"
proof -
  have "trim (concat (replicate 31 ''00:'') @ ''00'') = concat (replicate 31 ''00:'') @ ''00''"
    by (rule trim_id) (simp add: graphic_def numeral_eq_Suc)
  then show ?thesis by (simp add: normalize_cert_hash_def sample_client_def to_ascii_lowercase_def ascii_lower_def numeral_eq_Suc)
qed

lemma sample_pin_parsed: "parse_optional_pinned_sha256 (tl_pin_sha256 (ac_tls sample_client)) = Ok (Some (replicate 32 0))"
  unfolding parse_pinned_iff sample_pin by code_simp

lemma sample_client_simps:
  "ac_server sample_client = ''127.0.0.1:443''" "ac_auth sample_client = ''pw''" "tp_type (ac_transport sample_client) = []"
  "ob_type (ac_obfs sample_client) = []" "tl_sni (ac_tls sample_client) = ''localhost''" "tl_ca (ac_tls sample_client) = []"
  "tl_client_certificate (ac_tls sample_client) = []" "tl_client_key (ac_tls sample_client) = []"
  "bw_up (ac_bandwidth sample_client) = []" "bw_down (ac_bandwidth sample_client) = []"
  "\<not> ac_fast_open sample_client" "\<not> ac_lazy sample_client" "ac_socks5 sample_client = None" "ac_http sample_client = None"
  "ac_tcp_tproxy sample_client = None" "ac_udp_tproxy sample_client = None" "ac_tcp_redirect sample_client = None"
  "ac_tun sample_client = None"
  by (simp_all add: sample_client_def)

lemma sample_client_quic: "build_client_quic_transport (ac_quic sample_client) = Ok client_default"
  by (simp add: sample_client_def build_client_quic_transport_def default_windows resolve_quic_idle_timeout_def
      resolve_keep_alive_period_def client_default_def)

lemma sample_client_merged: "normalize_client_config parse_url sample_client = Ok sample_client"
  by (simp add: normalize_client_config_def sample_client_simps trim_id graphic_def)

lemma sample_client_accepted:
  "\<exists>cc. build_client_core_config sample_fs lookup parse_url sample_client = Ok cc \<and> cc_server_name cc = ''localhost'' \<and>
    cc_obfs cc = None \<and> cc_auth cc = ''pw'' \<and> cc_quic cc = client_default \<and> ct_pinned_certificate_sha256 (cc_tls cc) = Some (replicate 32 0)"
  by (simp add: build_client_core_config_def build_client_core_config_with_def sample_client_merged sample_client_quic sample_pin_parsed
      sample_client_simps ensure_client_core_supported_def sample_resolves infer_server_name_def build_obfs_config_def
      load_root_certificates_with_def load_system_root_certificates_def sample_fs_def client_config_new_def trim_id graphic_def)



text \<open>
  C27: A client whose configuration pins a certificate talks only to that certificate's holder. When
  the pin of the configuration (after a server URI has been merged in) is not blank and connecting
  succeeds, the first certificate the server presented has a SHA-256 hash whose hexadecimal digits
  are the pin, up to case, colons and dashes, even when TLS verification is switched off.
\<close>

theorem pin_enforced:
  assumes "build_client_core_config fs lookup parse_url config = Ok cc"
    and "normalize_client_config parse_url config = Ok merged"
    and "normalize_cert_hash (tl_pin_sha256 (ac_tls merged)) \<noteq> []"
    and "client_connect checks fl now sha256 api empty_headers g net cc = Some (Ok client, closes)"
  shows "\<exists>cert chain. nt_connect net (cc_server_addr cc) (cc_server_name cc) = Ok (Some (Certificates (cert # chain))) \<and>
    hex_bytes (sha256 cert) = as_bytes (normalize_cert_hash (tl_pin_sha256 (ac_tls merged)))"
proof -
  let ?pin = "parse_optional_pinned_sha256 (tl_pin_sha256 (ac_tls merged))"
  have pin: "?pin = Ok (ct_pinned_certificate_sha256 (cc_tls cc))"
    using assms(1,2) by (auto simp: build_client_core_config_def build_client_core_config_with_def and_then_Ok_iff)
  with assms(3) obtain h where h: "ct_pinned_certificate_sha256 (cc_tls cc) = Some h"
    by (cases "ct_pinned_certificate_sha256 (cc_tls cc)") (auto simp: parse_optional_pinned_sha256_def Let_def and_then_Ok_iff split: if_splits)
  with pin have hex: "as_bytes (normalize_cert_hash (tl_pin_sha256 (ac_tls merged))) = hex_bytes h"
    using parse_pinned_iff by simp
  have "client_handshake fl now sha256 api empty_headers g net cc = (Ok client, closes)"
    using assms(4) by (auto simp: client_connect_def split: if_splits sum.splits option.splits)
  then obtain identity c where "nt_connect net (cc_server_addr cc) (cc_server_name cc) = Ok identity"
    "verify_pinned_certificate sha256 identity (Some h) = (Ok (), c)"
    by (auto simp: client_handshake_def h split: sum.splits prod.splits)
  with hex show ?thesis
    by (auto simp: verify_pinned_certificate_def split: option.splits sum.splits list.splits if_splits)
      (auto simp: downcast_certificates_def split: peer_identity.splits)
qed

theorem pin_enforced_witness:
  "\<exists>cc cert chain. build_client_core_config sample_fs (\<lambda>_ _. Ok []) (\<lambda>_. Err []) sample_client = Ok cc \<and>
     nt_connect example_net (cc_server_addr cc) (cc_server_name cc) = Ok (Some (Certificates (cert # chain))) \<and>
     hex_bytes (replicate 32 0) = as_bytes (normalize_cert_hash (tl_pin_sha256 (ac_tls sample_client)))"
proof -
  let ?net = "example_net\<lparr>nt_exchange := \<lambda>_. Ok (STATUS_AUTH_OK, Map.empty)\<rparr>"
  obtain cc where cc: "build_client_core_config sample_fs (\<lambda>_ _. Ok []) (\<lambda>_. Err []) sample_client = Ok cc"
    "cc_server_name cc = ''localhost''" "cc_obfs cc = None" "cc_auth cc = ''pw''" "cc_quic cc = client_default"
    "ct_pinned_certificate_sha256 (cc_tls cc) = Some (replicate 32 0)"
    using sample_client_accepted by blast
  have "connects True (\<lambda>_. replicate 32 0) ?net cc"
    using example_transport cc(2-) by (simp add: connects_def example_net_def make_client_endpoint_def build_client_config_def build_obfuscator_def)
  from client_connect_connects[OF this headers_ok_map rng_ok_least, of "\<lambda>x. x" 0 Map.empty] cc(4)
  obtain client where c: "client_connect True (\<lambda>x. x) 0 (\<lambda>_. replicate 32 0) map_headers Map.empty least_rng ?net cc = Some (Ok client, [])"
    by (auto simp: visible_def Let_def)
  have same: "nt_connect ?net = nt_connect example_net" by simp
  have "normalize_cert_hash (tl_pin_sha256 (ac_tls sample_client)) \<noteq> []" by (simp add: sample_pin)
  from pin_enforced[OF cc(1) sample_client_merged this c] cc(1)
  show ?thesis unfolding same by blast
qed

end
