(* ===== verification/Share.thy ===== *)
theory Share
  imports Config "HOL-Library.Char_ord" "HOL-Library.List_Lexorder"
begin

text \<open>
  Sharing a client configuration as a URI or as YAML (\<open>app/src/share.rs\<close>). The URL parser, the
  form encoder and the YAML writer are parameters. The lemmas show that the credentials survive
  the escaping of the URI, and that a shared URI configures the same connection on the other side.
\<close>

section \<open>URIs\<close>

definition HEX :: bytes where
  "HEX = as_bytes ''0123456789ABCDEF''"

definition should_escape_userinfo :: "u8 \<Rightarrow> bool" where
  "should_escape_userinfo b \<longleftrightarrow>
     \<not> (97 \<le> b \<and> b \<le> 122 \<or> 65 \<le> b \<and> b \<le> 90 \<or> 48 \<le> b \<and> b \<le> 57 \<or> b \<in> set (as_bytes ''-_.~$&+,;=''))"

definition escape_userinfo_component :: "string \<Rightarrow> string" where
  "escape_userinfo_component input =
     str_of (concat (map (\<lambda>b. if should_escape_userinfo b
                              then [37, HEX ! unat (drop_bit 4 b), HEX ! unat (and b 15)] else [b]) (as_bytes input)))"

definition encode_auth :: "string \<Rightarrow> string" where
  "encode_auth auth =
     (case split_once (CHR '':'') auth of
        Some (username, password) \<Rightarrow> escape_userinfo_component username @ '':'' @ escape_userinfo_component password
      | None \<Rightarrow> escape_userinfo_component auth)"

definition share_pairs :: "AppClientConfig \<Rightarrow> anyhow + (string \<times> string) list" where
  "share_pairs config =
     and_then (let t = lower_trim (ob_type (ac_obfs config)) in
        if t \<in> {'''', ''plain''} then Ok []
        else if t = ''salamander''
        then Ok [(''obfs'', ''salamander''), (''obfs-password'', ob_salamander_password (ac_obfs config))]
        else bail (''unsupported obfs.type '' @ t)) (\<lambda>pairs.
     let tls = ac_tls config in
     Ok (pairs @
         (if trim (tl_sni tls) \<noteq> [] then [(''sni'', tl_sni tls)] else []) @
         (if tl_insecure tls then [(''insecure'', ''1'')] else []) @
         (if trim (tl_pin_sha256 tls) \<noteq> [] then [(''pinSHA256'', normalize_cert_hash (tl_pin_sha256 tls))] else [])))"

definition build_share_uri ::
    "(string \<Rightarrow> anyhow + url) \<Rightarrow> ((string \<times> string) list \<Rightarrow> string) \<Rightarrow> AppClientConfig \<Rightarrow> anyhow + string" where
  "build_share_uri parse_url encode_query config =
     and_then (normalize_client_config parse_url config) (\<lambda>config.
     let server = trim (ac_server config) in
     if server = [] then bail ''server must not be empty''
     else
       and_then (share_pairs config) (\<lambda>pairs.
       let uri = ''hysteria2://'' @ (if ac_auth config \<noteq> [] then encode_auth (ac_auth config) @ ''@'' else []) @ server @ ''/'';
           query = encode_query (sort_key fst pairs) in
       Ok (if query \<noteq> [] then uri @ ''?'' @ query else uri)))"

section \<open>YAML\<close>

record ShareTlsExport =
  xt_sni :: string
  xt_insecure :: bool
  xt_pin_sha256 :: string
  xt_ca :: string

record ShareObfsExport =
  xo_kind :: string
  xo_salamander_password :: string

record ShareUdpForwardingExport =
  xu_listen :: string
  xu_remote :: string
  xu_timeout :: nat
  xu_socket_receive_buffer :: nat
  xu_socket_send_buffer :: nat
  xu_channel_depth :: nat

record ShareWireGuardForwardingExport =
  xw_listen :: string
  xw_remote :: string
  xw_mtu :: u32
  xw_timeout :: nat
  xw_socket_receive_buffer :: nat
  xw_socket_send_buffer :: nat
  xw_channel_depth :: nat

record ShareConfigExport =
  sx_server :: string
  sx_auth :: string
  sx_tls :: "ShareTlsExport option"
  sx_obfs :: "ShareObfsExport option"
  sx_bandwidth :: "BandwidthConfig option"
  sx_socks5 :: "Socks5Config option"
  sx_http :: "HttpConfig option"
  sx_tcp_forwarding :: "TcpForwardingEntry list"
  sx_udp_forwarding :: "ShareUdpForwardingExport list"
  sx_wireguard_forwarding :: "ShareWireGuardForwardingExport list"

definition export_udp_forwarding :: "UdpForwardingEntry \<Rightarrow> ShareUdpForwardingExport" where
  "export_udp_forwarding e =
     \<lparr>xu_listen = uf_listen e, xu_remote = uf_remote e, xu_timeout = uf_timeout e,
      xu_socket_receive_buffer = uf_socket_receive_buffer e, xu_socket_send_buffer = uf_socket_send_buffer e,
      xu_channel_depth = uf_channel_depth e\<rparr>"

definition export_wireguard_forwarding :: "WireGuardForwardingEntry \<Rightarrow> ShareWireGuardForwardingExport" where
  "export_wireguard_forwarding e =
     \<lparr>xw_listen = wg_listen e, xw_remote = wg_remote e, xw_mtu = wg_mtu e, xw_timeout = wg_timeout e,
      xw_socket_receive_buffer = wg_socket_receive_buffer e, xw_socket_send_buffer = wg_socket_send_buffer e,
      xw_channel_depth = wg_channel_depth e\<rparr>"

definition from_config :: "AppClientConfig \<Rightarrow> ShareConfigExport" where
  "from_config config =
     (let tls = ac_tls config; bandwidth = ac_bandwidth config in
      \<lparr>sx_server = ac_server config, sx_auth = ac_auth config,
       sx_tls = (if tl_sni tls \<noteq> [] \<or> tl_insecure tls \<or> tl_pin_sha256 tls \<noteq> [] \<or> tl_ca tls \<noteq> []
                 then Some \<lparr>xt_sni = tl_sni tls, xt_insecure = tl_insecure tls, xt_pin_sha256 = tl_pin_sha256 tls, xt_ca = tl_ca tls\<rparr>
                 else None),
       sx_obfs = (if lower_trim (ob_type (ac_obfs config)) = ''salamander''
                  then Some \<lparr>xo_kind = ''salamander'', xo_salamander_password = ob_salamander_password (ac_obfs config)\<rparr>
                  else None),
       sx_bandwidth = (if bw_up bandwidth \<noteq> [] \<or> bw_down bandwidth \<noteq> [] then Some bandwidth else None),
       sx_socks5 = ac_socks5 config, sx_http = ac_http config, sx_tcp_forwarding = ac_tcp_forwarding config,
       sx_udp_forwarding = map export_udp_forwarding (ac_udp_forwarding config),
       sx_wireguard_forwarding = map (\<lambda>e. export_wireguard_forwarding (with_defaults e)) (ac_wireguard_forwarding config)\<rparr>)"

definition build_share_config_yaml ::
    "(string \<Rightarrow> anyhow + url) \<Rightarrow> (ShareConfigExport \<Rightarrow> anyhow + string) \<Rightarrow> AppClientConfig \<Rightarrow> anyhow + string" where
  "build_share_config_yaml parse_url to_yaml config =
     and_then (normalize_client_config parse_url config) (\<lambda>config. to_yaml (from_config config))"

section \<open>Escaping\<close>

lemma HEX_upper_nib: "n < 16 \<Longrightarrow> HEX ! unat n = upper_nib n" for n :: u8
proof -
  have "\<forall>k \<in> set [0..<16]. HEX ! k = upper_nib (of_nat k)" by code_simp
  moreover assume "n < 16"
  ultimately show ?thesis by (auto simp: word_less_nat_alt)
qed

lemma percent_nibble_upper: "n < 16 \<Longrightarrow> percent_nibble (upper_nib n) = Ok n"
  by (auto simp: percent_nibble_def upper_nib_def u8_arith)

lemma percent_decode_escape: "percent_decode (as_bytes (escape_userinfo_component s)) = Ok (as_bytes s)"
proof -
  have and15: "and b 15 = take_bit 4 b" for b :: u8 by (simp add: take_bit_eq_mask mask_eq_exp_minus_1)
  have "percent_decode (concat (map (\<lambda>b. if should_escape_userinfo b
      then [37, HEX ! unat (drop_bit 4 b), HEX ! unat (and b 15)] else [b]) bs)) = Ok bs" for bs
  proof (induction bs)
    case (Cons b bs)
    have "b \<noteq> 37" if "\<not> should_escape_userinfo b"
      using that by (auto simp: should_escape_userinfo_def as_bytes_def)
    with Cons show ?case by (auto simp: and15 HEX_upper_nib percent_nibble_upper)
  qed simp
  then show ?thesis by (simp add: escape_userinfo_component_def)
qed

lemma escape_Nil_iff [simp]: "escape_userinfo_component s = [] \<longleftrightarrow> s = []"
proof
  assume "escape_userinfo_component s = []"
  then show "s = []" using percent_decode_escape[of s] as_bytes_inject[of s "[]"] by simp
qed (simp add: escape_userinfo_component_def str_of_def)

lemma percent_decode_plain: "37 \<notin> set bs \<Longrightarrow> percent_decode bs = Ok bs"
  by (induction bs) auto

text \<open>Text that decodes to the bytes of a string, whether or not it has escapes, is that string.\<close>

lemma decode_userinfo_component_escaped:
  assumes "str_ok s" and "percent_decode (as_bytes t) = Ok (as_bytes s)"
  shows "decode_userinfo_component t = Ok s"
proof (cases "37 \<in> set (as_bytes t)")
  case False
  then have "as_bytes t = as_bytes s" using assms(2) percent_decode_plain[of "as_bytes t"] by simp
  with False show ?thesis by (simp add: decode_userinfo_component_def)
next
  case True
  then show ?thesis using assms by (simp add: decode_userinfo_component_def from_utf8_def str_ok_def)
qed

section \<open>Reading a shared URI\<close>

text \<open>\<open>ClientConfig::default()\<close>.\<close>

definition default_client :: AppClientConfig where
  "default_client = \<lparr>ac_server = [], ac_auth = [], ac_transport = \<lparr>tp_type = [], tp_udp_hop_interval = 0\<rparr>,
     ac_obfs = \<lparr>ob_type = [], ob_salamander_password = []\<rparr>,
     ac_tls = \<lparr>tl_sni = [], tl_insecure = False, tl_pin_sha256 = [], tl_ca = [], tl_client_certificate = [], tl_client_key = []\<rparr>,
     ac_quic = \<lparr>cq_init_stream_receive_window = 0, cq_max_stream_receive_window = 0, cq_init_connection_receive_window = 0,
       cq_max_connection_receive_window = 0, cq_max_idle_timeout = 0, cq_keep_alive_period = 0,
       cq_disable_path_mtu_discovery = False,
       cq_sockopts = \<lparr>so_bind_interface = None, so_firewall_mark = None, so_fd_control_unix_socket = None\<rparr>\<rparr>,
     ac_bandwidth = \<lparr>bw_up = [], bw_down = []\<rparr>, ac_fast_open = False, ac_lazy = False, ac_socks5 = None, ac_http = None,
     ac_tcp_forwarding = [], ac_udp_forwarding = [], ac_wireguard_forwarding = [], ac_tcp_tproxy = None, ac_udp_tproxy = None,
     ac_tcp_redirect = None, ac_tun = None\<rparr>"

text \<open>The text of a URI from its parts, and what a URL parser finds in it: it may escape more of the user information.\<close>

definition uri_text :: "string \<Rightarrow> string \<Rightarrow> u16 \<Rightarrow> string \<Rightarrow> string" where
  "uri_text userinfo host port query =
     ''hysteria2://'' @ (if userinfo \<noteq> [] then userinfo @ ''@'' else []) @ host @ '':'' @ dec (unat port) @ ''/'' @
     (if query \<noteq> [] then ''?'' @ query else [])"

definition same_userinfo :: "string \<Rightarrow> string \<Rightarrow> bool" where
  "same_userinfo s t \<longleftrightarrow> (s = [] \<longleftrightarrow> t = []) \<and> percent_decode (as_bytes s) = percent_decode (as_bytes t)"

definition url_reads :: "url \<Rightarrow> string \<Rightarrow> string option \<Rightarrow> string \<Rightarrow> u16 \<Rightarrow> (string \<times> string) list \<Rightarrow> bool" where
  "url_reads u user password host port pairs \<longleftrightarrow>
     url_scheme u = ''hysteria2'' \<and> url_host u = Some host \<and> url_port u = Some port \<and> same_userinfo (url_username u) user \<and>
     (case password of
        None \<Rightarrow> url_password u = None
      | Some p \<Rightarrow> (case url_password u of Some q \<Rightarrow> same_userinfo q p | None \<Rightarrow> False)) \<and>
     url_query u = pairs"

lemma uri_auth_reads:
  assumes "url_reads u (escape_userinfo_component name) (map_option escape_userinfo_component password) host port pairs"
    and "str_ok name" and "\<forall>p. password = Some p \<longrightarrow> str_ok p"
  shows "uri_auth u [] = Ok (case password of None \<Rightarrow> name | Some p \<Rightarrow> name @ '':'' @ p)"
proof -
  have name: "decode_userinfo_component (url_username u) = Ok name" "url_username u = [] \<longleftrightarrow> name = []"
    using assms(1,2) by (auto simp: url_reads_def same_userinfo_def percent_decode_escape intro: decode_userinfo_component_escaped)
  show ?thesis
  proof (cases password)
    case None
    then have "url_password u = None" using assms(1) by (simp add: url_reads_def)
    then show ?thesis using name None by (simp add: uri_auth_def)
  next
    case (Some p)
    then obtain q where q: "url_password u = Some q" "same_userinfo q (escape_userinfo_component p)"
      using assms(1) by (auto simp: url_reads_def split: option.splits)
    then have "decode_userinfo_component q = Ok p"
      using assms(3) Some by (auto simp: same_userinfo_def percent_decode_escape intro: decode_userinfo_component_escaped)
    then show ?thesis using name Some q(1) by (simp add: uri_auth_def)
  qed
qed

definition auth_parts :: "string \<Rightarrow> string \<times> string option" where
  "auth_parts auth = (case split_once (CHR '':'') auth of Some (name, password) \<Rightarrow> (name, Some password) | None \<Rightarrow> (auth, None))"

lemma auth_parts_join: "auth_parts auth = (name, password) \<Longrightarrow>
    (case password of None \<Rightarrow> name | Some p \<Rightarrow> name @ '':'' @ p) = auth"
  by (auto simp: auth_parts_def split: option.splits dest: split_once_Some(1))

lemma encode_auth_parts: "auth_parts auth = (name, password) \<Longrightarrow>
    encode_auth auth = escape_userinfo_component name @
      (case password of None \<Rightarrow> [] | Some p \<Rightarrow> '':'' @ escape_userinfo_component p)"
  by (auto simp: auth_parts_def encode_auth_def split: option.splits)

lemma encode_auth_Nil_iff [simp]: "encode_auth auth = [] \<longleftrightarrow> auth = []"
  by (auto simp: encode_auth_def split_once_def split: option.splits)

lemma map_of_sorted:
  assumes "distinct (map fst pairs)"
  shows "map_of (rev (sort_key fst pairs)) = map_of pairs"
proof -
  have "distinct (map fst (rev (sort_key fst pairs)))" using assms by (simp add: distinct_map)
  with assms show ?thesis by (simp add: map_of_inject_set)
qed

lemma share_pairs_lookup:
  assumes "share_pairs config = Ok pairs"
  shows "distinct (map fst pairs)"
    "map_of pairs ''obfs'' = (if lower_trim (ob_type (ac_obfs config)) = ''salamander'' then Some ''salamander'' else None)"
    "lower_trim (ob_type (ac_obfs config)) = ''salamander'' \<Longrightarrow>
       map_of pairs ''obfs-password'' = Some (ob_salamander_password (ac_obfs config))"
    "map_of pairs ''sni'' = (if trim (tl_sni (ac_tls config)) \<noteq> [] then Some (tl_sni (ac_tls config)) else None)"
    "map_of pairs ''insecure'' = (if tl_insecure (ac_tls config) then Some ''1'' else None)"
    "map_of pairs ''pinSHA256'' = (if trim (tl_pin_sha256 (ac_tls config)) \<noteq> []
       then Some (normalize_cert_hash (tl_pin_sha256 (ac_tls config))) else None)"
    "lower_trim (ob_type (ac_obfs config)) \<in> {[], ''plain'', ''salamander''}"
  using assms by (auto simp: share_pairs_def and_then_Ok_iff Let_def split: if_splits)

text \<open>The settings that a URI carries: two configurations that agree on them reach the server in the same way.\<close>

definition same_connection :: "AppClientConfig \<Rightarrow> AppClientConfig \<Rightarrow> bool" where
  "same_connection a b \<longleftrightarrow> trim (ac_server a) = trim (ac_server b) \<and> ac_auth a = ac_auth b \<and>
     tl_insecure (ac_tls a) = tl_insecure (ac_tls b) \<and> infer_server_name a = infer_server_name b \<and>
     build_obfs_config (ac_obfs a) = build_obfs_config (ac_obfs b) \<and>
     parse_optional_pinned_sha256 (tl_pin_sha256 (ac_tls a)) = parse_optional_pinned_sha256 (tl_pin_sha256 (ac_tls b))"

lemma normalize_cert_hash_Nil [simp]: "normalize_cert_hash [] = []"
  by (simp add: normalize_cert_hash_def to_ascii_lowercase_def)

lemma normalize_cert_hash_blank: "trim s = [] \<Longrightarrow> normalize_cert_hash s = []"
  by (simp add: normalize_cert_hash_def to_ascii_lowercase_def)

definition hash_char :: "char \<Rightarrow> bool" where
  "hash_char c \<longleftrightarrow> graphic c \<and> ascii_lower c = c \<and> c \<noteq> CHR '':'' \<and> c \<noteq> CHR ''-''"

lemma hash_charI: "48 \<le> (of_char c :: nat) \<and> (of_char c :: nat) \<le> 57 \<or> 97 \<le> (of_char c :: nat) \<and> (of_char c :: nat) \<le> 102 \<Longrightarrow> hash_char c"
  by (auto simp: hash_char_def graphic_def ascii_lower_def Let_def)

lemma lower_nib_char: "n < 16 \<Longrightarrow> hash_char (char_of (unat (lower_nib n)))"
  by (rule hash_charI) (auto simp: lower_nib_def u8_arith)

lemma hex_text_normal: "normalize_cert_hash (str_of (hex_bytes h)) = str_of (hex_bytes h)"
proof -
  have ok: "hash_char c" if "c \<in> set (str_of (hex_bytes h))" for c
    using that by (induction h) (auto simp: str_of_def lower_nib_char)
  have "str_of (hex_bytes h) = [] \<or> graphic (hd (str_of (hex_bytes h))) \<and> graphic (last (str_of (hex_bytes h)))"
    using ok hd_in_set last_in_set unfolding hash_char_def by blast
  moreover have "to_ascii_lowercase (str_of (hex_bytes h)) = str_of (hex_bytes h)"
    using ok by (simp add: to_ascii_lowercase_def hash_char_def map_idI)
  ultimately show ?thesis using ok by (simp add: normalize_cert_hash_def trim_id filter_id_conv hash_char_def)
qed

lemma parse_pinned_normalized:
  assumes "parse_optional_pinned_sha256 s = Ok pin"
  shows "parse_optional_pinned_sha256 (normalize_cert_hash s) = Ok pin"
proof (cases pin)
  case None
  then have "normalize_cert_hash s = []"
    using assms by (auto simp: parse_optional_pinned_sha256_def Let_def and_then_Ok_iff split: if_splits)
  then show ?thesis using None by (simp add: parse_optional_pinned_sha256_def)
next
  case (Some h)
  then have h: "length h = 32" "as_bytes (normalize_cert_hash s) = hex_bytes h"
    using assms parse_pinned_iff by auto
  then show ?thesis
    using hex_text_normal[of h] Some parse_pinned_iff[of "normalize_cert_hash s" h] by (metis str_of_as_bytes)
qed

definition plain_host :: "string \<Rightarrow> bool" where
  "plain_host host \<longleftrightarrow> host \<noteq> [] \<and> list_all (\<lambda>c. graphic c \<and> c \<noteq> CHR '':'') host"

lemma dec_port: "dec n \<noteq> []" "graphic (last (dec n))" "hd (dec n) \<noteq> CHR ''/''" "CHR ''/'' \<notin> set (dec n)"
proof -
  show ne: "dec n \<noteq> []" by simp
  then show "graphic (last (dec n))" using dec_graphic last_in_set by blast
  show slash: "CHR ''/'' \<notin> set (dec n)"
    using dec_ascii[of "CHR ''/''" n] by (auto simp: ascii_digit_def to_digit_def)
  then show "hd (dec n) \<noteq> CHR ''/''" using ne hd_in_set[of "dec n"] by metis
qed

lemma plain_server:
  assumes "plain_host host"
  shows "trim (host @ '':'' @ dec n) = host @ '':'' @ dec n" "\<not> prefix (scheme @ ''://'') (host @ '':'' @ dec n)"
    "uri_server host (Some port) = host @ '':'' @ dec (unat port)"
proof -
  have h: "host \<noteq> []" "graphic (hd host)" "CHR '':'' \<notin> set host"
    using assms by (cases host; auto simp: plain_host_def list_all_iff)+
  then show "trim (host @ '':'' @ dec n) = host @ '':'' @ dec n" using dec_port(1,2)[of n] by (intro trim_id) auto
  show "uri_server host (Some port) = host @ '':'' @ dec (unat port)" using h by (simp add: uri_server_def)
  show "\<not> prefix (scheme @ ''://'') (host @ '':'' @ dec n)"
  proof
    assume "prefix (scheme @ ''://'') (host @ '':'' @ dec n)"
    then obtain rest where "host @ '':'' @ dec n = scheme @ '':'' @ ''//'' @ rest" by (auto simp: prefix_def)
    then have "CHR ''/'' \<in> set (dec n)"
      using h(3) by (auto simp: append_eq_append_conv2 append_eq_Cons_conv Cons_eq_append_conv)
    then show False using dec_port(4) by blast
  qed
qed

lemma uri_text_trim:
  assumes "list_all graphic query"
  shows "trim (uri_text userinfo host port query) = uri_text userinfo host port query"
proof -
  have "graphic (last query)" if "query \<noteq> []" using that assms by (auto simp: list_all_iff)
  then show ?thesis by (intro trim_id) (auto simp: uri_text_def graphic_def)
qed

lemma apply_query_shared:
  assumes pairs: "share_pairs config = Ok pairs" and pin: "parse_optional_pinned_sha256 (tl_pin_sha256 (ac_tls config)) = Ok pin"
    and server: "ac_server config = server" and base: "base = default_client\<lparr>ac_server := server, ac_auth := ac_auth config\<rparr>"
  shows "same_connection (apply_query (map_of (rev (sort_key fst pairs))) base) config"
proof -
  note look = share_pairs_lookup[OF pairs]
  let ?shared = "apply_query (map_of pairs) base"
  have sni: "tl_sni (ac_tls ?shared) = (if trim (tl_sni (ac_tls config)) \<noteq> [] then tl_sni (ac_tls config) else [])"
    using look(4) by (simp add: apply_query_def base default_client_def Let_def split: option.split)
  have name: "infer_server_name ?shared = infer_server_name config"
    using sni by (simp add: infer_server_name_def apply_query_def base server Let_def)
  have obfs: "build_obfs_config (ac_obfs ?shared) = build_obfs_config (ac_obfs config)"
  proof (cases "lower_trim (ob_type (ac_obfs config)) = ''salamander''")
    case True
    have "eq_ignore_ascii_case ''salamander'' ''salamander''" "lower_trim ''salamander'' = ''salamander''"
      by (simp_all add: eq_ignore_ascii_case_def lower_trim_def trim_id graphic_def to_ascii_lowercase_def ascii_lower_def)
    then show ?thesis
      using True look(2,3) by (simp add: apply_query_def base Let_def build_obfs_config_def)
  next
    case False
    then have "build_obfs_config (ac_obfs config) = Ok None" using look(7) by (auto simp: build_obfs_config_def)
    moreover have "ac_obfs ?shared = ac_obfs default_client" using False look(2) by (simp add: apply_query_def base Let_def)
    ultimately show ?thesis by (simp add: default_client_def build_obfs_config_def)
  qed
  have "tl_pin_sha256 (ac_tls ?shared) = normalize_cert_hash (tl_pin_sha256 (ac_tls config))"
    using look(6) by (simp add: apply_query_def base default_client_def Let_def normalize_cert_hash_blank split: option.split)
  then have pins: "parse_optional_pinned_sha256 (tl_pin_sha256 (ac_tls ?shared)) = Ok pin"
    using parse_pinned_normalized[OF pin] by simp
  have "parse_bool_like ''1'' = Some True"
    by (simp add: parse_bool_like_def trim_id graphic_def to_ascii_lowercase_def ascii_lower_def)
  then have "tl_insecure (ac_tls ?shared) = tl_insecure (ac_tls config)"
    using look(5) by (simp add: apply_query_def base default_client_def Let_def split: option.split)
  with name obfs pins pin show ?thesis
    by (simp add: same_connection_def map_of_sorted[OF look(1)]) (simp add: apply_query_def base server Let_def)
qed

section \<open>Properties\<close>



text \<open>
  A server URI with an IPv6 address is never dialled. The URL parser gives such a host with its
  brackets; the merged configuration brackets it a second time, which no longer reads as an
  address, so the resolver is asked for a host name in doubled brackets.
\<close>

lemma uri_ipv6_host:
  "to_socket_addrs lookup (uri_server (''['' @ show_ipv6 ip @ '']'') (Some port)) =
   lookup (''[['' @ show_ipv6 ip @ '']]'') port"
proof -
  let ?s = "''[['' @ show_ipv6 ip @ '']]:'' @ dec (unat port)"
  have s: "uri_server (''['' @ show_ipv6 ip @ '']'') (Some port) = ?s" using show_ipv6_colon by (simp add: uri_server_def)
  have number: "read_number r m z bound (CHR ''['' # t) = None" if "r \<le> 16" for r m z bound t
    using that by (simp add: read_number_eq is_digit_def to_digit_def)
  then have v4: "read_ipv4 (CHR ''['' # t) = None" for t by (simp add: read_ipv4_def read_octet_def read_separator_def)
  have "read_groups 8 0 (CHR ''['' # t) = ([], False, CHR ''['' # t)" for t
    using read_groups.simps(2)[of 7 0 "CHR ''['' # t"] by (simp add: read_separator_def number v4)
  then have "read_ipv6 (CHR ''['' # t) = None" for t by (simp add: read_ipv6_def)
  then have "parse_socket_addr ?s = None"
    by (simp add: parse_socket_addr_def read_socket_v4_def read_socket_v6_def v4 complete_def)
  moreover have "rsplit_once (CHR '':'') ?s = Some (''[['' @ show_ipv6 ip @ '']]'', dec (unat port))"
    using rsplit_once_append[of "CHR '':''" "dec (unat port)" "''[['' @ show_ipv6 ip @ '']]''"] dec_ascii[of "CHR '':''" "unat port"]
    by (auto simp: ascii_digit_def to_digit_def)
  moreover have "parse_uint 65536 (dec (unat port)) = Some (unat port)" using unat_bounds(2)[of port] by simp
  ultimately show ?thesis unfolding s by (simp add: to_socket_addrs_def)
qed

end
