(* ===== verification/Udp_Forwarding.thy ===== *)
theory Udp_Forwarding
  imports Config_Data Client Anyhow
begin

text \<open>
  The UDP forwarder of the command line program (\<open>app/src/udp_forwarding.rs\<close>): a local socket, one
  tunnelled session per local peer, a task per session that carries replies back, and a task that
  closes idle sessions. The tasks share a table of sessions behind a lock. An execution is a
  sequence of events, one per action between two acquisitions of the lock; \<open>forward_step\<close> is the
  effect of an event. Sessions are kept in a list and named by their position, as handles of
  shared objects, because a session outlives its entry in the table.
\<close>

section \<open>Settings\<close>

definition DEFAULT_TIMEOUT :: nat where
  "DEFAULT_TIMEOUT = secs 60"

definition UDP_BUFFER_SIZE :: nat where
  "UDP_BUFFER_SIZE = 64 * 1024"

record udp_forward_api =
  ub_bind :: "string \<Rightarrow> io_error + unit"
  ub_set_nonblocking :: "io_error + unit"
  ub_from_std :: "io_error + unit"
  ub_local_addr :: "io_error + SocketAddr"

definition bind_udp_forward_socket :: "udp_forward_api \<Rightarrow> UdpForwardingEntry \<Rightarrow> anyhow + unit" where
  "bind_udp_forward_socket api config =
     and_then (with_context (''failed to bind UDP forwarding listener '' @ uf_listen config)
       (map_err (\<lambda>e. [IoCause e]) (ub_bind api (uf_listen config)))) (\<lambda>_.
     and_then (with_context ''failed to mark UDP forwarding socket nonblocking''
       (map_err (\<lambda>e. [IoCause e]) (ub_set_nonblocking api))) (\<lambda>_.
     with_context ''failed to create async UDP forwarding socket'' (map_err (\<lambda>e. [IoCause e]) (ub_from_std api))))"

definition forward_timeout :: "UdpForwardingEntry \<Rightarrow> nat" where
  "forward_timeout config = (if uf_timeout config = 0 then DEFAULT_TIMEOUT else uf_timeout config)"

definition forward_channel_size :: "UdpForwardingEntry \<Rightarrow> nat" where
  "forward_channel_size config =
     (if uf_channel_depth config = 0 then DEFAULT_CLIENT_UDP_MESSAGE_CHANNEL_SIZE else uf_channel_depth config)"

section \<open>Sessions\<close>

datatype task_state = Receiving | Exiting | Ended

record UdpForwardSession =
  fs_peer :: SocketAddr
  fs_last_activity :: nat
  fs_timed_out :: bool
  fs_open :: bool
  fs_task :: task_state

text \<open>What the forwarding loop is doing between two acquisitions of the lock.\<close>

datatype loop_state = Idle | Inserting nat SocketAddr bytes | Feeding nat SocketAddr bytes | Stopped anyhow

record Forwarder =
  fw_now :: nat
  fw_sessions :: "SocketAddr \<rightharpoonup> nat"
  fw_store :: "UdpForwardSession list"
  fw_loop :: loop_state
  fw_expired :: "(SocketAddr \<times> nat) list"
  fw_uploaded :: "(nat \<times> SocketAddr \<times> bytes) list"
  fw_delivered :: "(nat \<times> SocketAddr \<times> bytes) list"

definition forwarder_new :: Forwarder where
  "forwarder_new = \<lparr>fw_now = 0, fw_sessions = Map.empty, fw_store = [], fw_loop = Idle, fw_expired = [],
     fw_uploaded = [], fw_delivered = []\<rparr>"

abbreviation on_session :: "nat \<Rightarrow> (UdpForwardSession \<Rightarrow> UdpForwardSession) \<Rightarrow> Forwarder \<Rightarrow> Forwarder" where
  "on_session i f fw \<equiv> fw\<lparr>fw_store := (fw_store fw)[i := f (fw_store fw ! i)]\<rparr>"

definition touch :: "nat \<Rightarrow> Forwarder \<Rightarrow> Forwarder" where
  "touch i fw = on_session i (\<lambda>s. s\<lparr>fs_last_activity := fw_now fw\<rparr>) fw"

definition forward_is_idle :: "nat \<Rightarrow> Forwarder \<Rightarrow> nat \<Rightarrow> bool" where
  "forward_is_idle timeout fw i \<longleftrightarrow> timeout < fw_now fw - fs_last_activity (fw_store fw ! i)"

definition tunnel_close :: "nat \<Rightarrow> Forwarder \<Rightarrow> Forwarder" where
  "tunnel_close i fw = on_session i (\<lambda>s. s\<lparr>fs_open := False\<rparr>) fw"

definition mark_timed_out :: "nat \<Rightarrow> Forwarder \<Rightarrow> bool \<times> Forwarder" where
  "mark_timed_out i fw = (\<not> fs_timed_out (fw_store fw ! i), on_session i (\<lambda>s. s\<lparr>fs_timed_out := True\<rparr>) fw)"

definition close_session :: "SocketAddr \<Rightarrow> nat \<Rightarrow> Forwarder \<Rightarrow> Forwarder" where
  "close_session peer i fw = tunnel_close i (fw\<lparr>fw_sessions := (fw_sessions fw)(peer := None)\<rparr>)"

definition close_all_sessions :: "Forwarder \<Rightarrow> Forwarder" where
  "close_all_sessions fw =
     fw\<lparr>fw_sessions := Map.empty,
        fw_store := map (\<lambda>(i, s). if fw_sessions fw (fs_peer s) = Some i then s\<lparr>fs_open := False\<rparr> else s)
          (enumerate 0 (fw_store fw))\<rparr>"

text \<open>The first half of \<open>get_or_create_session\<close>: look the peer up, or open a tunnel and spawn its task.\<close>

definition get_or_create_session :: "CoreError + unit \<Rightarrow> SocketAddr \<Rightarrow> bytes \<Rightarrow> Forwarder \<Rightarrow> Forwarder" where
  "get_or_create_session opened peer data fw =
     (case fw_sessions fw peer of
        Some i \<Rightarrow> fw\<lparr>fw_loop := Feeding i peer data\<rparr>
      | None \<Rightarrow>
          (case opened of
             Inl e \<Rightarrow> fw\<lparr>fw_loop := Stopped [Msg (''failed to open proxied UDP session for '' @ show_socket_addr peer), CoreCause e]\<rparr>
           | Inr _ \<Rightarrow>
               fw\<lparr>fw_store := fw_store fw @ [\<lparr>fs_peer = peer, fs_last_activity = fw_now fw, fs_timed_out = False,
                     fs_open = True, fs_task = Receiving\<rparr>],
                  fw_loop := Inserting (length (fw_store fw)) peer data\<rparr>))"

definition insert_session :: "nat \<Rightarrow> SocketAddr \<Rightarrow> bytes \<Rightarrow> Forwarder \<Rightarrow> Forwarder" where
  "insert_session i peer data fw =
     on_session i (\<lambda>s. s\<lparr>fs_last_activity := fw_now fw\<rparr>)
       (fw\<lparr>fw_sessions := (fw_sessions fw)(peer \<mapsto> i), fw_loop := Feeding i peer data\<rparr>)"

text \<open>\<open>feed\<close>: a closed tunnel refuses the datagram, an open one answers with the given result.\<close>

definition forward_feed :: "CoreError + unit \<Rightarrow> nat \<Rightarrow> SocketAddr \<Rightarrow> bytes \<Rightarrow> Forwarder \<Rightarrow> (anyhow + unit) \<times> Forwarder" where
  "forward_feed sent i peer data fw =
     (let fw = touch i fw in
      if \<not> fs_open (fw_store fw ! i) then (Err [CoreCause (Closed ''udp session closed'')], fw)
      else case sent of
          Inl e \<Rightarrow> (Err [CoreCause e], fw)
        | Inr _ \<Rightarrow> (Ok (), fw\<lparr>fw_uploaded := fw_uploaded fw @ [(i, peer, data)]\<rparr>))"

definition forward_upload :: "CoreError + unit \<Rightarrow> nat \<Rightarrow> SocketAddr \<Rightarrow> bytes \<Rightarrow> Forwarder \<Rightarrow> Forwarder" where
  "forward_upload sent i peer data fw =
     (case forward_feed sent i peer data fw of
        (Inl _, fw) \<Rightarrow> close_session peer i (fw\<lparr>fw_loop := Idle\<rparr>)
      | (Inr _, fw) \<Rightarrow> fw\<lparr>fw_loop := Idle\<rparr>)"

section \<open>The receive task of a session\<close>

definition task_payload :: "nat \<Rightarrow> bytes \<Rightarrow> io_error + unit \<Rightarrow> Forwarder \<Rightarrow> Forwarder" where
  "task_payload i body sent fw =
     (let peer = fs_peer (fw_store fw ! i);
          fw = (case fw_sessions fw peer of Some j \<Rightarrow> touch j fw | None \<Rightarrow> fw) in
      case sent of
        Inl _ \<Rightarrow> on_session i (\<lambda>s. s\<lparr>fs_task := Exiting\<rparr>) fw
      | Inr _ \<Rightarrow> fw\<lparr>fw_delivered := fw_delivered fw @ [(i, peer, body)]\<rparr>)"

definition task_error :: "nat \<Rightarrow> Forwarder \<Rightarrow> Forwarder" where
  "task_error i fw = on_session i (\<lambda>s. s\<lparr>fs_task := Exiting\<rparr>) fw"

text \<open>The end of the task: it removes the peer's entry, closes the session found there, and drops its own handle of the tunnel.\<close>

definition task_exit :: "nat \<Rightarrow> Forwarder \<Rightarrow> Forwarder" where
  "task_exit i fw =
     (let peer = fs_peer (fw_store fw ! i);
          fw = (case fw_sessions fw peer of Some j \<Rightarrow> close_session peer j fw | None \<Rightarrow> fw) in
      tunnel_close i (on_session i (\<lambda>s. s\<lparr>fs_task := Ended\<rparr>) fw))"

section \<open>The cleanup task\<close>

text \<open>The snapshot is a list of the entries of the table, in some order.\<close>

definition cleanup_expired :: "nat \<Rightarrow> (SocketAddr \<times> nat) list \<Rightarrow> Forwarder \<Rightarrow> Forwarder" where
  "cleanup_expired timeout snapshot fw = fw\<lparr>fw_expired := filter (\<lambda>(peer, i). forward_is_idle timeout fw i) snapshot\<rparr>"

definition cleanup_next :: "SocketAddr \<Rightarrow> nat \<Rightarrow> Forwarder \<Rightarrow> Forwarder" where
  "cleanup_next peer i fw =
     (case mark_timed_out i fw of
        (True, fw) \<Rightarrow> close_session peer i fw
      | (False, fw) \<Rightarrow> fw)"

section \<open>Executions\<close>

datatype forward_event =
    Datagram bytes SocketAddr "CoreError + unit"
  | InsertSession
  | Upload "CoreError + unit"
  | ReceiveFailed io_error
  | TaskPayload nat bytes "io_error + unit"
  | TaskError nat
  | TaskExit nat
  | CleanupTick "(SocketAddr \<times> nat) list"
  | CleanupNext
  | Elapse nat

definition running :: "Forwarder \<Rightarrow> bool" where
  "running fw = (case fw_loop fw of Stopped _ \<Rightarrow> False | _ \<Rightarrow> True)"

definition lists_table :: "(SocketAddr \<times> nat) list \<Rightarrow> Forwarder \<Rightarrow> bool" where
  "lists_table snapshot fw \<longleftrightarrow> distinct (map fst snapshot) \<and> map_of snapshot = fw_sessions fw"

inductive forward_step :: "UdpForwardingEntry \<Rightarrow> forward_event \<Rightarrow> Forwarder \<Rightarrow> Forwarder \<Rightarrow> bool" for config where
  datagram: "fw_loop fw = Idle \<Longrightarrow>
    forward_step config (Datagram data peer opened) fw (get_or_create_session opened peer (take UDP_BUFFER_SIZE data) fw)"
| insert: "fw_loop fw = Inserting i peer data \<Longrightarrow> forward_step config InsertSession fw (insert_session i peer data fw)"
| upload: "fw_loop fw = Feeding i peer data \<Longrightarrow> forward_step config (Upload sent) fw (forward_upload sent i peer data fw)"
| failed: "fw_loop fw = Idle \<Longrightarrow>
    forward_step config (ReceiveFailed e) fw
      (fw\<lparr>fw_loop := Stopped [Msg (''failed to receive UDP packet for '' @ uf_remote config), IoCause e]\<rparr>)"
| reply: "i < length (fw_store fw) \<Longrightarrow> fs_task (fw_store fw ! i) = Receiving \<Longrightarrow>
    forward_step config (TaskPayload i body sent) fw (task_payload i body sent fw)"
| error: "i < length (fw_store fw) \<Longrightarrow> fs_task (fw_store fw ! i) = Receiving \<Longrightarrow>
    forward_step config (TaskError i) fw (task_error i fw)"
| exit: "i < length (fw_store fw) \<Longrightarrow> fs_task (fw_store fw ! i) = Exiting \<Longrightarrow>
    forward_step config (TaskExit i) fw (task_exit i fw)"
| tick: "running fw \<Longrightarrow> fw_expired fw = [] \<Longrightarrow> lists_table snapshot fw \<Longrightarrow>
    forward_step config (CleanupTick snapshot) fw (cleanup_expired (forward_timeout config) snapshot fw)"
| next_expired: "running fw \<Longrightarrow> fw_expired fw = (peer, i) # rest \<Longrightarrow>
    forward_step config CleanupNext fw (cleanup_next peer i (fw\<lparr>fw_expired := rest\<rparr>))"
| elapse: "forward_step config (Elapse d) fw (fw\<lparr>fw_now := fw_now fw + d\<rparr>)"

inductive_cases forward_stepE: "forward_step config e fw fw'"

inductive forward_run :: "UdpForwardingEntry \<Rightarrow> forward_event list \<Rightarrow> Forwarder \<Rightarrow> bool" for config where
  start: "forward_run config [] forwarder_new"
| step: "forward_run config es fw \<Longrightarrow> forward_step config e fw fw' \<Longrightarrow> forward_run config (es @ [e]) fw'"

text \<open>\<open>serve_udp_forwarder\<close> up to its loop, and after it: the cleanup task is aborted and every session in the table is closed.\<close>

definition serve_udp_forwarder_start :: "udp_forward_api \<Rightarrow> UdpForwardingEntry \<Rightarrow> anyhow + Forwarder" where
  "serve_udp_forwarder_start api config =
     and_then (bind_udp_forward_socket api config) (\<lambda>_.
     and_then (with_context ''failed to read UDP forwarding listen address''
       (map_err (\<lambda>e. [IoCause e]) (ub_local_addr api))) (\<lambda>_. Ok forwarder_new))"

definition serve_udp_forwarder_end :: "Forwarder \<Rightarrow> (anyhow \<times> Forwarder) option" where
  "serve_udp_forwarder_end fw =
     (case fw_loop fw of Stopped e \<Rightarrow> Some (e, close_all_sessions (fw\<lparr>fw_expired := []\<rparr>)) | _ \<Rightarrow> None)"

section \<open>Sessions belong to their peer\<close>

text \<open>The peers of the sessions never change; a session is only ever added.\<close>

definition peers :: "Forwarder \<Rightarrow> SocketAddr list" where
  "peers fw = map fs_peer (fw_store fw)"

definition opened_by :: "Forwarder \<Rightarrow> nat \<Rightarrow> SocketAddr \<Rightarrow> bool" where
  "opened_by fw i peer \<longleftrightarrow> i < length (peers fw) \<and> peers fw ! i = peer"

lemma peers_update: "(\<And>s. fs_peer (f s) = fs_peer s) \<Longrightarrow> map fs_peer (xs[i := f (xs ! i)]) = map fs_peer xs"
  by (cases "i < length xs") (simp_all add: map_update list_update_same_conv list_update_beyond)

lemma peers_simps [simp]:
  "peers (touch i fw) = peers fw" "peers (tunnel_close i fw) = peers fw" "peers (snd (mark_timed_out i fw)) = peers fw"
  "peers (close_session p i fw) = peers fw" "peers (insert_session i p data fw) = peers fw" "peers (task_error i fw) = peers fw"
  by (simp_all add: peers_def touch_def tunnel_close_def mark_timed_out_def close_session_def insert_session_def task_error_def peers_update)

lemma peers_upload [simp]: "peers (forward_upload sent i p data fw) = peers fw"
proof -
  have "peers (snd (forward_feed sent i p data fw)) = peers fw"
    by (simp add: forward_feed_def Let_def touch_def peers_def peers_update split: sum.split)
  then show ?thesis
    by (cases "forward_feed sent i p data fw") (auto simp: forward_upload_def close_session_def tunnel_close_def peers_def peers_update split: sum.split)
qed

lemma peers_fields [simp]:
  "peers (fw\<lparr>fw_delivered := ds\<rparr>) = peers fw" "peers (fw\<lparr>fw_loop := l\<rparr>) = peers fw" "peers (fw\<lparr>fw_expired := xs\<rparr>) = peers fw"
  "peers (fw\<lparr>fw_now := n\<rparr>) = peers fw" "peers (on_session i (\<lambda>s. s\<lparr>fs_task := t\<rparr>) fw) = peers fw"
  by (simp_all add: peers_def peers_update)

lemma peers_task [simp]: "peers (task_payload i body sent fw) = peers fw" "peers (task_exit i fw) = peers fw"
  by (auto simp: task_payload_def task_exit_def Let_def split: option.splits sum.splits)

lemma peers_next [simp]: "peers (cleanup_next p i fw) = peers fw"
  using peers_simps(3)[of i fw] by (cases "mark_timed_out i fw") (auto simp: cleanup_next_def split: bool.split)

lemma peers_create: "\<exists>more. peers (get_or_create_session opened p data fw) = peers fw @ more"
  by (auto simp: get_or_create_session_def peers_def split: option.splits sum.splits)

lemma forward_step_peers: "forward_step config e fw fw' \<Longrightarrow> \<exists>more. peers fw' = peers fw @ more"
proof (induction rule: forward_step.induct)
  case (datagram fw data peer opened)
  show ?case by (rule peers_create)
qed (simp_all add: cleanup_expired_def)



lemma opened_by_mono: "opened_by fw i p \<Longrightarrow> peers fw' = peers fw @ ps \<Longrightarrow> opened_by fw' i p"
  by (auto simp: opened_by_def nth_append)

lemma touch_frame [simp]:
  "fw_sessions (touch i fw) = fw_sessions fw" "fw_loop (touch i fw) = fw_loop fw" "fw_expired (touch i fw) = fw_expired fw"
  "fw_uploaded (touch i fw) = fw_uploaded fw" "fw_delivered (touch i fw) = fw_delivered fw"
  by (simp_all add: touch_def)

lemma close_frame [simp]:
  "fw_sessions (tunnel_close i fw) = fw_sessions fw" "fw_loop (tunnel_close i fw) = fw_loop fw"
  "fw_expired (tunnel_close i fw) = fw_expired fw" "fw_uploaded (tunnel_close i fw) = fw_uploaded fw"
  "fw_delivered (tunnel_close i fw) = fw_delivered fw"
  "fw_sessions (close_session p i fw) = (fw_sessions fw)(p := None)" "fw_loop (close_session p i fw) = fw_loop fw"
  "fw_expired (close_session p i fw) = fw_expired fw" "fw_uploaded (close_session p i fw) = fw_uploaded fw"
  "fw_delivered (close_session p i fw) = fw_delivered fw"
  by (simp_all add: tunnel_close_def close_session_def)

text \<open>What the environment has handed to the forwarder so far: datagrams of a peer, replies of a session.\<close>

definition sent_by :: "forward_event list \<Rightarrow> SocketAddr \<Rightarrow> bytes \<Rightarrow> bool" where
  "sent_by es peer data \<longleftrightarrow> (\<exists>full opened. Datagram full peer opened \<in> set es \<and> data = take UDP_BUFFER_SIZE full)"

definition replied :: "forward_event list \<Rightarrow> nat \<Rightarrow> bytes \<Rightarrow> bool" where
  "replied es i body \<longleftrightarrow> (\<exists>sent. TaskPayload i body sent \<in> set es)"

definition forward_ok :: "forward_event list \<Rightarrow> Forwarder \<Rightarrow> bool" where
  "forward_ok es fw \<longleftrightarrow>
     (\<forall>p i. fw_sessions fw p = Some i \<longrightarrow> opened_by fw i p) \<and>
     (case fw_loop fw of
        Inserting i p d \<Rightarrow> opened_by fw i p \<and> sent_by es p d
      | Feeding i p d \<Rightarrow> opened_by fw i p \<and> sent_by es p d
      | _ \<Rightarrow> True) \<and>
     (\<forall>p i. (p, i) \<in> set (fw_expired fw) \<longrightarrow> opened_by fw i p) \<and>
     (\<forall>i p d. (i, p, d) \<in> set (fw_uploaded fw) \<longrightarrow> opened_by fw i p \<and> sent_by es p d) \<and>
     (\<forall>i p b. (i, p, b) \<in> set (fw_delivered fw) \<longrightarrow> opened_by fw i p \<and> replied es i b)"

lemma events_mono: "sent_by es p d \<Longrightarrow> sent_by (es @ [e]) p d" "replied es i b \<Longrightarrow> replied (es @ [e]) i b"
  by (auto simp: sent_by_def replied_def)

lemma forward_ok_events: "forward_ok es fw \<Longrightarrow> forward_ok (es @ [e]) fw"
  unfolding forward_ok_def by (auto intro: events_mono split: loop_state.splits)

text \<open>Changes that keep the peers and only shrink the table, the loop's work and the expired sessions keep the invariant.\<close>

lemma forward_ok_shrink:
  assumes "forward_ok es fw" and "peers fw' = peers fw" and "fw_sessions fw' \<subseteq>\<^sub>m fw_sessions fw"
    and "fw_loop fw' = fw_loop fw \<or> fw_loop fw' = Idle \<or> (\<exists>e. fw_loop fw' = Stopped e)"
    and "set (fw_expired fw') \<subseteq> set (fw_expired fw)" and "fw_uploaded fw' = fw_uploaded fw" and "fw_delivered fw' = fw_delivered fw"
  shows "forward_ok es fw'"
proof -
  have same: "opened_by fw' = opened_by fw" using assms(2) by (simp add: opened_by_def fun_eq_iff)
  have table: "fw_sessions fw' p = Some i \<Longrightarrow> fw_sessions fw p = Some i" for p i
    using assms(3) by (metis domI map_le_def)
  show ?thesis using assms(1,4-) table unfolding forward_ok_def same by (elim disjE) auto
qed

lemma map_le_remove [simp]: "m(k := None) \<subseteq>\<^sub>m m"
  by (simp add: map_le_def)

lemma forward_ok_handles:
  assumes "forward_ok es fw"
  shows "fw_sessions fw p = Some i \<Longrightarrow> opened_by fw i p" "(p, i) \<in> set (fw_expired fw) \<Longrightarrow> opened_by fw i p"
    "fw_loop fw = Inserting i p d \<Longrightarrow> opened_by fw i p \<and> sent_by es p d"
    "fw_loop fw = Feeding i p d \<Longrightarrow> opened_by fw i p \<and> sent_by es p d"
  using assms by (auto simp: forward_ok_def)

lemma forward_ok_create:
  assumes "forward_ok es fw" and "fw_loop fw = Idle" and "sent_by es p data"
  shows "forward_ok es (get_or_create_session opened p data fw)"
proof -
  let ?fw' = "get_or_create_session opened p data fw"
  obtain ps where ps: "peers ?fw' = peers fw @ ps" using peers_create by blast
  have keep: "opened_by fw i q \<Longrightarrow> opened_by ?fw' i q" for i q using opened_by_mono[OF _ ps] .
  have loop: "case fw_loop ?fw' of Inserting i q d \<Rightarrow> opened_by ?fw' i q \<and> sent_by es q d
      | Feeding i q d \<Rightarrow> opened_by ?fw' i q \<and> sent_by es q d | _ \<Rightarrow> True"
    using assms(3) forward_ok_handles(1)[OF assms(1), of p]
    by (auto simp: get_or_create_session_def opened_by_def peers_def nth_append split: option.splits sum.splits)
  have "fw_sessions ?fw' = fw_sessions fw" "fw_expired ?fw' = fw_expired fw" "fw_uploaded ?fw' = fw_uploaded fw"
    "fw_delivered ?fw' = fw_delivered fw"
    by (auto simp: get_or_create_session_def split: option.split sum.split)
  with assms(1) keep loop show ?thesis unfolding forward_ok_def by auto
qed

lemma forward_ok_insert:
  assumes "forward_ok es fw" and "fw_loop fw = Inserting i p data"
  shows "forward_ok es (insert_session i p data fw)"
proof -
  have same: "opened_by (insert_session i p data fw) = opened_by fw" by (simp add: opened_by_def fun_eq_iff)
  have i: "opened_by fw i p" "sent_by es p data" using forward_ok_handles(3)[OF assms] by auto
  have f: "fw_sessions (insert_session i p data fw) = (fw_sessions fw)(p \<mapsto> i)"
    "fw_loop (insert_session i p data fw) = Feeding i p data" "fw_expired (insert_session i p data fw) = fw_expired fw"
    "fw_uploaded (insert_session i p data fw) = fw_uploaded fw" "fw_delivered (insert_session i p data fw) = fw_delivered fw"
    by (simp_all add: insert_session_def)
  show ?thesis using assms(1) i unfolding forward_ok_def same f by auto
qed

lemma forward_ok_upload:
  assumes "forward_ok es fw" and "fw_loop fw = Feeding i p data"
  shows "forward_ok es (forward_upload sent i p data fw)"
proof -
  let ?fw' = "forward_upload sent i p data fw"
  have same: "opened_by ?fw' = opened_by fw" by (simp add: opened_by_def fun_eq_iff)
  have i: "opened_by fw i p" "sent_by es p data" using forward_ok_handles(4)[OF assms] by auto
  have f: "fw_sessions ?fw' \<in> {fw_sessions fw, (fw_sessions fw)(p := None)}" "fw_loop ?fw' = Idle"
    "fw_expired ?fw' = fw_expired fw" "set (fw_uploaded ?fw') \<subseteq> insert (i, p, data) (set (fw_uploaded fw))"
    "fw_delivered ?fw' = fw_delivered fw"
    by (auto simp: forward_upload_def forward_feed_def Let_def split: sum.split)
  then have table: "fw_sessions ?fw' q = Some j \<Longrightarrow> fw_sessions fw q = Some j" for q j by (auto split: if_splits)
  show ?thesis using assms(1) i f(4) table unfolding forward_ok_def same f(2,3,5) by auto
qed

lemma forward_ok_reply:
  assumes "forward_ok es fw" and "i < length (fw_store fw)" and "replied es i body"
  shows "forward_ok es (task_payload i body sent fw)"
proof -
  let ?fw' = "task_payload i body sent fw"
  have same: "opened_by ?fw' = opened_by fw" by (simp add: opened_by_def fun_eq_iff)
  have "opened_by fw i (fs_peer (fw_store fw ! i))" using assms(2) by (simp add: opened_by_def peers_def)
  moreover have f: "fw_sessions ?fw' = fw_sessions fw" "fw_loop ?fw' = fw_loop fw" "fw_expired ?fw' = fw_expired fw"
    "fw_uploaded ?fw' = fw_uploaded fw"
    "set (fw_delivered ?fw') \<subseteq> insert (i, fs_peer (fw_store fw ! i), body) (set (fw_delivered fw))"
    by (auto simp: task_payload_def Let_def split: sum.split option.split)
  ultimately show ?thesis using assms(1,3) f(5) unfolding forward_ok_def same f(1-4) by auto
qed

lemma forward_ok_step:
  assumes "forward_step config e fw fw'" and "forward_ok es fw"
  shows "forward_ok (es @ [e]) fw'"
  using assms(1)
proof (cases rule: forward_step.cases)
  case (datagram data peer opened)
  then have "sent_by (es @ [e]) peer (take UDP_BUFFER_SIZE data)" by (auto simp: sent_by_def)
  with datagram show ?thesis by (simp add: forward_ok_create[OF forward_ok_events[OF assms(2)]])
next
  case (insert i peer data)
  then show ?thesis by (simp add: forward_ok_insert[OF forward_ok_events[OF assms(2)]])
next
  case (upload i peer data sent)
  then show ?thesis by (simp add: forward_ok_upload[OF forward_ok_events[OF assms(2)]])
next
  case (reply i body sent)
  then have "replied (es @ [e]) i body" by (auto simp: replied_def)
  with reply show ?thesis by (simp add: forward_ok_reply[OF forward_ok_events[OF assms(2)]])
next
  case (failed err)
  show ?thesis by (rule forward_ok_shrink[OF forward_ok_events[OF assms(2)]]) (use failed in auto)
next
  case (elapse d)
  show ?thesis by (rule forward_ok_shrink[OF forward_ok_events[OF assms(2)]]) (use elapse in auto)
next
  case (tick snapshot)
  have "opened_by fw i p" if "(p, i) \<in> set snapshot" for p i
    using that tick forward_ok_handles(1)[OF assms(2)] by (auto simp: lists_table_def dest: map_of_is_SomeI)
  moreover have same: "opened_by fw' = opened_by fw" using tick by (simp add: cleanup_expired_def opened_by_def fun_eq_iff)
  ultimately show ?thesis
    using forward_ok_events[OF assms(2), of e] tick unfolding forward_ok_def same by (auto simp: cleanup_expired_def)
next
  case (next_expired peer i rest)
  have f: "fw_sessions fw' \<subseteq>\<^sub>m fw_sessions fw" "fw_loop fw' = fw_loop fw" "fw_expired fw' = rest" "fw_uploaded fw' = fw_uploaded fw"
    "fw_delivered fw' = fw_delivered fw"
    using next_expired(2) by (auto simp: cleanup_next_def mark_timed_out_def split: bool.split)
  show ?thesis by (rule forward_ok_shrink[OF forward_ok_events[OF assms(2)]]) (use f next_expired in auto)
next
  case (exit i)
  have f: "fw_sessions fw' \<subseteq>\<^sub>m fw_sessions fw" "fw_loop fw' = fw_loop fw" "fw_expired fw' = fw_expired fw"
    "fw_uploaded fw' = fw_uploaded fw" "fw_delivered fw' = fw_delivered fw"
    using exit(2) by (auto simp: task_exit_def Let_def split: option.split)
  show ?thesis by (rule forward_ok_shrink[OF forward_ok_events[OF assms(2)]]) (use f exit in auto)
next
  case (error i)
  have f: "fw_sessions fw' = fw_sessions fw" "fw_loop fw' = fw_loop fw" "fw_expired fw' = fw_expired fw"
    "fw_uploaded fw' = fw_uploaded fw" "fw_delivered fw' = fw_delivered fw"
    using error(2) by (auto simp: task_error_def)
  show ?thesis by (rule forward_ok_shrink[OF forward_ok_events[OF assms(2)]]) (use f error in auto)
qed

lemma forward_run_ok: "forward_run config es fw \<Longrightarrow> forward_ok es fw"
proof (induction rule: forward_run.induct)
  case start
  then show ?case by (simp add: forward_ok_def forwarder_new_def)
qed (rule forward_ok_step)

section \<open>Properties\<close>

text \<open>
  C30: Forwarded traffic stays with its peer. In every execution of the forwarder, whatever the
  order of its tasks, each datagram sent into a tunnel was received from the local peer for whom
  that tunnel was opened, and each reply of a tunnel that is delivered goes to that same peer.
\<close>

theorem forwarder_isolated:
  assumes "forward_run config es fw"
  shows "(\<forall>i peer data. (i, peer, data) \<in> set (fw_uploaded fw) \<longrightarrow> opened_by fw i peer \<and> sent_by es peer data) \<and>
    (\<forall>i peer body. (i, peer, body) \<in> set (fw_delivered fw) \<longrightarrow> opened_by fw i peer \<and> replied es i body)"
  using forward_run_ok[OF assms] by (auto simp: forward_ok_def)

text \<open>An execution in which a peer falls silent and comes back while the task of its old session is still ending.\<close>

definition comeback :: "UdpForwardingEntry \<Rightarrow> SocketAddr \<Rightarrow> bytes \<Rightarrow> forward_event list" where
  "comeback config peer data =
     [Datagram data peer (Ok ()), InsertSession, Upload (Ok ()), Elapse (Suc (forward_timeout config)),
      CleanupTick [(peer, 0)], CleanupNext, TaskError 0, Datagram data peer (Ok ()), InsertSession, Upload (Ok ()), TaskExit 0]"

definition comeback_end :: "UdpForwardingEntry \<Rightarrow> SocketAddr \<Rightarrow> bytes \<Rightarrow> Forwarder" where
  "comeback_end config peer data =
     (let now = Suc (forward_timeout config) in
      \<lparr>fw_now = now, fw_sessions = Map.empty,
       fw_store = [\<lparr>fs_peer = peer, fs_last_activity = 0, fs_timed_out = True, fs_open = False, fs_task = Ended\<rparr>,
                   \<lparr>fs_peer = peer, fs_last_activity = now, fs_timed_out = False, fs_open = False, fs_task = Receiving\<rparr>],
       fw_loop = Idle, fw_expired = [], fw_uploaded = [(0, peer, take UDP_BUFFER_SIZE data), (1, peer, take UDP_BUFFER_SIZE data)],
       fw_delivered = []\<rparr>)"

lemmas forward_defs = get_or_create_session_def insert_session_def forward_upload_def forward_feed_def touch_def
  close_session_def tunnel_close_def cleanup_expired_def cleanup_next_def mark_timed_out_def task_error_def task_exit_def
  forward_is_idle_def running_def lists_table_def Let_def

text \<open>The state of an execution with one peer.\<close>

definition one_session :: "SocketAddr \<Rightarrow> nat \<Rightarrow> bool \<Rightarrow> bool \<Rightarrow> task_state \<Rightarrow> UdpForwardSession" where
  "one_session peer n out op k = \<lparr>fs_peer = peer, fs_last_activity = n, fs_timed_out = out, fs_open = op, fs_task = k\<rparr>"

definition one_peer ::
    "nat \<Rightarrow> (SocketAddr \<rightharpoonup> nat) \<Rightarrow> UdpForwardSession list \<Rightarrow> loop_state \<Rightarrow> (SocketAddr \<times> nat) list \<Rightarrow>
     (nat \<times> SocketAddr \<times> bytes) list \<Rightarrow> Forwarder" where
  "one_peer n m ss l ex up =
     \<lparr>fw_now = n, fw_sessions = m, fw_store = ss, fw_loop = l, fw_expired = ex, fw_uploaded = up, fw_delivered = []\<rparr>"

lemma one_peer_upload:
  assumes "forward_run config es (one_peer n m ss Idle [] up)" and "m peer = None" and "d = take UDP_BUFFER_SIZE data"
  shows "forward_run config (es @ [Datagram data peer (Ok ()), InsertSession, Upload (Ok ())])
    (one_peer n (m(peer \<mapsto> length ss)) (ss @ [one_session peer n False True Receiving]) Idle [] (up @ [(length ss, peer, d)]))"
proof -
  let ?ss = "ss @ [one_session peer n False True Receiving]" and ?m = "m(peer \<mapsto> length ss)"
  have "forward_step config (Datagram data peer (Ok ())) (one_peer n m ss Idle [] up)
      (one_peer n m ?ss (Inserting (length ss) peer d) [] up)"
    using forward_step.datagram[of "one_peer n m ss Idle [] up" config data peer "Ok ()"] assms(2,3)
    by (simp add: forward_defs one_peer_def one_session_def)
  with assms(1) have 1: "forward_run config (es @ [Datagram data peer (Ok ())]) (one_peer n m ?ss (Inserting (length ss) peer d) [] up)"
    by (rule forward_run.step)
  have "forward_step config InsertSession (one_peer n m ?ss (Inserting (length ss) peer d) [] up)
      (one_peer n ?m ?ss (Feeding (length ss) peer d) [] up)"
    using forward_step.insert[of "one_peer n m ?ss (Inserting (length ss) peer d) [] up" "length ss" peer d config]
    by (simp add: forward_defs one_peer_def one_session_def)
  note 2 = forward_run.step[OF 1 this]
  have "forward_step config (Upload (Ok ())) (one_peer n ?m ?ss (Feeding (length ss) peer d) [] up)
      (one_peer n ?m ?ss Idle [] (up @ [(length ss, peer, d)]))"
    using forward_step.upload[of "one_peer n ?m ?ss (Feeding (length ss) peer d) [] up" "length ss" peer d config "Ok ()"]
    by (simp add: forward_defs one_peer_def one_session_def)
  from forward_run.step[OF 2 this] show ?thesis by simp
qed

lemma one_peer_expires:
  assumes "forward_run config es (one_peer n [peer \<mapsto> 0] [one_session peer n False True Receiving] Idle [] up)"
    and "now = n + Suc (forward_timeout config)"
  shows "forward_run config (es @ [Elapse (Suc (forward_timeout config)), CleanupTick [(peer, 0)], CleanupNext, TaskError 0])
    (one_peer now Map.empty [one_session peer n True False Exiting] Idle [] up)"
proof -
  let ?s = "one_session peer n False True Receiving" and ?m = "[peer \<mapsto> 0]"
  have "forward_step config (Elapse (Suc (forward_timeout config))) (one_peer n ?m [?s] Idle [] up) (one_peer now ?m [?s] Idle [] up)"
    using forward_step.elapse[of config "Suc (forward_timeout config)" "one_peer n ?m [?s] Idle [] up"] assms(2) by (simp add: one_peer_def)
  note 1 = forward_run.step[OF assms(1) this]
  have "forward_step config (CleanupTick [(peer, 0)]) (one_peer now ?m [?s] Idle [] up) (one_peer now ?m [?s] Idle [(peer, 0)] up)"
    using forward_step.tick[of "one_peer now ?m [?s] Idle [] up" "[(peer, 0)]" config] assms(2)
    by (simp add: forward_defs one_peer_def one_session_def)
  note 2 = forward_run.step[OF 1 this]
  have "forward_step config CleanupNext (one_peer now ?m [?s] Idle [(peer, 0)] up)
      (one_peer now Map.empty [one_session peer n True False Receiving] Idle [] up)"
    using forward_step.next_expired[of "one_peer now ?m [?s] Idle [(peer, 0)] up" peer 0 "[]" config]
    by (simp add: forward_defs one_peer_def one_session_def)
  note 3 = forward_run.step[OF 2 this]
  have "forward_step config (TaskError 0) (one_peer now Map.empty [one_session peer n True False Receiving] Idle [] up)
      (one_peer now Map.empty [one_session peer n True False Exiting] Idle [] up)"
    using forward_step.error[of 0 "one_peer now Map.empty [one_session peer n True False Receiving] Idle [] up" config]
    by (simp add: forward_defs one_peer_def one_session_def)
  from forward_run.step[OF 3 this] show ?thesis by simp
qed

lemma comeback_run: "forward_run config (comeback config peer data) (comeback_end config peer data)"
proof -
  let ?d = "take UDP_BUFFER_SIZE data" and ?now = "Suc (forward_timeout config)"
  let ?ss = "[one_session peer 0 True False Exiting, one_session peer ?now False True Receiving]"
  have "forward_run config [] (one_peer 0 Map.empty [] Idle [] [])"
    using forward_run.start by (simp add: one_peer_def forwarder_new_def)
  from one_peer_upload[OF this _ refl, where peer = peer and data = data]
  have 1: "forward_run config [Datagram data peer (Ok ()), InsertSession, Upload (Ok ())]
      (one_peer 0 [peer \<mapsto> 0] [one_session peer 0 False True Receiving] Idle [] [(0, peer, ?d)])" by simp
  from one_peer_upload[OF one_peer_expires[OF 1 refl] _ refl, where peer = peer and data = data]
  have 2: "forward_run config (butlast (comeback config peer data))
      (one_peer ?now [peer \<mapsto> 1] ?ss Idle [] [(0, peer, ?d), (1, peer, ?d)])" by (simp add: comeback_def)
  have "forward_step config (TaskExit 0) (one_peer ?now [peer \<mapsto> 1] ?ss Idle [] [(0, peer, ?d), (1, peer, ?d)])
      (comeback_end config peer data)"
    using forward_step.exit[of 0 "one_peer ?now [peer \<mapsto> 1] ?ss Idle [] [(0, peer, ?d), (1, peer, ?d)]" config]
    by (simp add: forward_defs one_peer_def one_session_def comeback_end_def)
  from forward_run.step[OF 2 this] show ?thesis by (simp add: comeback_def)
qed

text \<open>
  C31: A session that is in use can be closed by the task of an older one. A peer falls silent, its
  session is closed as idle, and it sends again before the old session's task has ended; that task
  then removes and closes the new session, which is neither idle nor timed out, although no call
  has failed. The next datagram of the peer has to open a third session.
\<close>

theorem stale_task_closes_session:
  "\<exists>fw. forward_run config (comeback config peer data) fw \<and> fw_sessions fw peer = None \<and>
     (\<exists>new. fw_store fw ! 1 = new \<and> fs_peer new = peer \<and> fs_last_activity new = fw_now fw \<and> \<not> fs_timed_out new \<and>
        fs_task new = Receiving \<and> \<not> fs_open new)"
  using comeback_run[of config peer data] by (intro exI[of _ "comeback_end config peer data"]) (simp add: comeback_end_def Let_def)

theorem forwarder_isolated_witness:
  "(let fw = comeback_end \<lparr>uf_listen = [], uf_remote = [], uf_timeout = 0, uf_socket_receive_buffer = 0, uf_socket_send_buffer = 0,
      uf_channel_depth = 0, uf_wireguard_mtu = None\<rparr> (SocketV4 (Ipv4Addr 127 0 0 1) 9) [1] in
    (1, SocketV4 (Ipv4Addr 127 0 0 1) 9, [1]) \<in> set (fw_uploaded fw) \<and> opened_by fw 1 (SocketV4 (Ipv4Addr 127 0 0 1) 9))"
proof -
  let ?c = "\<lparr>uf_listen = [], uf_remote = [], uf_timeout = 0, uf_socket_receive_buffer = 0, uf_socket_send_buffer = 0,
      uf_channel_depth = 0, uf_wireguard_mtu = None\<rparr>" and ?p = "SocketV4 (Ipv4Addr 127 0 0 1) 9"
  have "(1, ?p, [1]) \<in> set (fw_uploaded (comeback_end ?c ?p [1]))" by (simp add: comeback_end_def UDP_BUFFER_SIZE_def)
  with forwarder_isolated[OF comeback_run[of ?c ?p "[1]"]] show ?thesis unfolding Let_def by blast
qed

end
