(* ===== verification/Http_Text.thy ===== *)
theory Http_Text
  imports Config
begin

text \<open>
  The text of HTTP/1 messages in the proxy of the command line program
  (\<open>app/src/http_proxy.rs\<close>): request and status lines, header lines, targets and authorities,
  the headers that are forwarded, and the rules that find the extent of a body. Base64 and the
  table of standard reason phrases belong to other crates and are parameters.
\<close>

section \<open>Messages\<close>

definition KEEP_ALIVE_TIMEOUT_SECS :: nat where
  "KEEP_ALIVE_TIMEOUT_SECS = 60"

definition MAX_HTTP_HEADER_SIZE :: nat where
  "MAX_HTTP_HEADER_SIZE = 64 * 1024"

definition MAX_CHUNK_LINE_SIZE :: nat where
  "MAX_CHUNK_LINE_SIZE = 8 * 1024"

type_synonym headers = "(string \<times> string) list"

record HttpAuth =
  hu_username :: string
  hu_password :: string
  hu_realm :: string

datatype BodyKind = NoBody | ContentLength nat | Chunked | UntilEof

record HttpRequestHead =
  rh_method :: string
  rh_target :: string
  rh_version :: string
  rh_headers :: headers

record HttpResponseHead =
  ph_version :: string
  ph_status :: u16
  ph_reason :: string
  ph_headers :: headers

record http_api =
  ha_base64_standard :: "string \<Rightarrow> bytes option"
  ha_base64_url_safe :: "string \<Rightarrow> bytes option"
  ha_canonical_reason :: "u16 \<Rightarrow> string option"

definition crlf :: string where
  "crlf = [CHR 13, CHR 10]"

section \<open>Reading a head\<close>

fun header_lines :: "string list \<Rightarrow> anyhow + headers" where
  "header_lines [] = Ok []"
| "header_lines (line # rest) =
     (if line = [] then header_lines rest
      else and_then (ok_or [Msg ''malformed HTTP header line''] (split_once (CHR '':'') line)) (\<lambda>(name, v).
        and_then (header_lines rest) (\<lambda>headers. Ok ((trim name, trim v) # headers))))"

definition parse_request_head :: "bytes \<Rightarrow> anyhow + HttpRequestHead" where
  "parse_request_head header_bytes =
     and_then (with_context ''HTTP request header is not valid UTF-8'' (ok_or [Utf8Cause] (from_utf8 header_bytes))) (\<lambda>header_text.
     let lines = split_crlf header_text in
     and_then (ok_or [Msg ''missing HTTP request target''] (split_once (CHR '' '') (hd lines))) (\<lambda>(method, rest).
     and_then (ok_or [Msg ''missing HTTP version''] (split_once (CHR '' '') rest)) (\<lambda>(target, version).
     and_then (header_lines (tl lines)) (\<lambda>headers.
     Ok \<lparr>rh_method = method, rh_target = target, rh_version = version, rh_headers = headers\<rparr>))))"

definition parse_response_head :: "bytes \<Rightarrow> anyhow + HttpResponseHead" where
  "parse_response_head header_bytes =
     and_then (with_context ''HTTP response header is not valid UTF-8'' (ok_or [Utf8Cause] (from_utf8 header_bytes))) (\<lambda>header_text.
     let lines = split_crlf header_text in
     and_then (ok_or [Msg ''missing HTTP response status''] (split_once (CHR '' '') (hd lines))) (\<lambda>(version, rest).
     let (status_text, reason) = (case split_once (CHR '' '') rest of Some (s, r) \<Rightarrow> (s, trim r) | None \<Rightarrow> (rest, [])) in
     and_then (with_context ''invalid HTTP response status'' (ok_or [ParseIntCause] (parse_uint 65536 status_text))) (\<lambda>status.
     and_then (header_lines (tl lines)) (\<lambda>headers.
     Ok \<lparr>ph_version = version, ph_status = of_nat status, ph_reason = reason, ph_headers = headers\<rparr>))))"

section \<open>Headers\<close>

definition header_contains_token :: "headers \<Rightarrow> string \<Rightarrow> string \<Rightarrow> bool" where
  "header_contains_token headers name token =
     list_ex (\<lambda>(n, v). eq_ignore_ascii_case n name \<and> list_ex (\<lambda>part. eq_ignore_ascii_case (trim part) token) (split_on (CHR '','') v))
       headers"

definition header_value :: "headers \<Rightarrow> string \<Rightarrow> string option" where
  "header_value headers name = map_option snd (find (\<lambda>(n, _). eq_ignore_ascii_case n name) headers)"

definition version_at_least_http_11 :: "string \<Rightarrow> bool" where
  "version_at_least_http_11 version =
     (case strip_prefix ''HTTP/'' version of
        Some rest \<Rightarrow>
          (case split_once (CHR ''.'') rest of
             None \<Rightarrow> False
           | Some (major, minor) \<Rightarrow>
               (case (parse_uint 65536 major, parse_uint 65536 minor) of
                  (Some major, Some minor) \<Rightarrow> 1 < major \<or> major = 1 \<and> 1 \<le> minor
                | _ \<Rightarrow> False))
      | None \<Rightarrow> False)"

definition request_keep_alive :: "HttpRequestHead \<Rightarrow> bool" where
  "request_keep_alive request \<longleftrightarrow> version_at_least_http_11 (rh_version request) \<and>
     (header_contains_token (rh_headers request) ''Proxy-Connection'' ''keep-alive'' \<or>
      header_contains_token (rh_headers request) ''Connection'' ''keep-alive'')"

definition content_length :: "string \<Rightarrow> headers \<Rightarrow> anyhow + nat option" where
  "content_length message headers =
     (case header_value headers ''Content-Length'' of
        None \<Rightarrow> Ok None
      | Some v \<Rightarrow> and_then (with_context message (ok_or [ParseIntCause] (parse_uint (2 ^ 64) v))) (\<lambda>n. Ok (Some n)))"

definition request_body_kind :: "headers \<Rightarrow> anyhow + BodyKind" where
  "request_body_kind headers =
     (if header_contains_token headers ''Transfer-Encoding'' ''chunked'' then Ok Chunked
      else if header_value headers ''Transfer-Encoding'' \<noteq> None then bail ''unsupported request Transfer-Encoding''
      else and_then (content_length ''invalid HTTP Content-Length header'' headers) (\<lambda>len.
        Ok (case len of None \<Rightarrow> NoBody | Some n \<Rightarrow> if n = 0 then NoBody else ContentLength n)))"

definition response_body_kind :: "string \<Rightarrow> u16 \<Rightarrow> headers \<Rightarrow> anyhow + BodyKind" where
  "response_body_kind request_method status headers =
     (if eq_ignore_ascii_case request_method ''HEAD'' \<or> status \<in> {101, 204, 304} \<or> 100 \<le> status \<and> status < 200 then Ok NoBody
      else if header_contains_token headers ''Transfer-Encoding'' ''chunked'' then Ok Chunked
      else if header_value headers ''Transfer-Encoding'' \<noteq> None then bail ''unsupported response Transfer-Encoding''
      else and_then (content_length ''invalid HTTP response Content-Length header'' headers) (\<lambda>len.
        Ok (case len of None \<Rightarrow> UntilEof | Some n \<Rightarrow> if n = 0 then NoBody else ContentLength n)))"

definition proxy_authorized :: "http_api \<Rightarrow> headers \<Rightarrow> HttpAuth \<Rightarrow> bool" where
  "proxy_authorized api headers auth =
     (case header_value headers ''Proxy-Authorization'' of
        None \<Rightarrow> False
      | Some header \<Rightarrow>
          (case (case strip_prefix ''Basic '' header of Some e \<Rightarrow> Some e | None \<Rightarrow> strip_prefix ''basic '' header) of
             None \<Rightarrow> False
           | Some encoded \<Rightarrow>
               (case (case ha_base64_standard api (trim encoded) of Some d \<Rightarrow> Some d | None \<Rightarrow> ha_base64_url_safe api (trim encoded)) of
                  None \<Rightarrow> False
                | Some decoded \<Rightarrow>
                    (case Option.bind (from_utf8 decoded) (split_once (CHR '':'')) of
                       None \<Rightarrow> False
                     | Some (username, password) \<Rightarrow> username = hu_username auth \<and> password = hu_password auth))))"

section \<open>Targets\<close>

definition split_authority_and_path :: "string \<Rightarrow> string \<times> string" where
  "split_authority_and_path v =
     (if CHR ''/'' \<in> set v then (takeWhile (\<lambda>c. c \<noteq> CHR ''/'') v, dropWhile (\<lambda>c. c \<noteq> CHR ''/'') v) else (v, ''/''))"

definition authority_to_addr :: "string \<Rightarrow> anyhow + string" where
  "authority_to_addr authority =
     (if parse_socket_addr authority \<noteq> None then Ok authority
      else
        let normalized = trim authority in
        if normalized = [] then bail ''empty authority''
        else if hd normalized = CHR ''['' \<and> sublist '']:'' normalized then Ok normalized
        else if rsplit_once (CHR '':'') normalized \<noteq> None then Ok normalized
        else Ok (normalized @ '':80''))"

definition normalize_host_header :: "string \<Rightarrow> anyhow + string" where
  "normalize_host_header authority =
     (let normalized = trim authority in
      if normalized = [] then bail ''empty authority''
      else case parse_socket_addr normalized of
          Some (SocketV4 ip port) \<Rightarrow> Ok (if port = 80 then show_ipv4 ip else normalized)
        | Some (SocketV6 ip port _ _) \<Rightarrow> Ok (if port = 80 then ''['' @ show_ipv6 ip @ '']'' else normalized)
        | None \<Rightarrow> Ok (if suffix '':80'' normalized then take (length normalized - 3) normalized else normalized))"

definition parse_proxy_target :: "string \<Rightarrow> headers \<Rightarrow> anyhow + string \<times> string \<times> string" where
  "parse_proxy_target target headers =
     (case strip_prefix ''http://'' target of
        Some rest \<Rightarrow>
          (case split_authority_and_path rest of (authority, path) \<Rightarrow>
             and_then (authority_to_addr authority) (\<lambda>request_addr.
             and_then (normalize_host_header authority) (\<lambda>host_header. Ok (request_addr, path, host_header))))
      | None \<Rightarrow>
          if prefix ''https://'' target then bail ''plain HTTPS proxy requests are not supported; use CONNECT''
          else if prefix ''/'' target then
            and_then (ok_or [Msg ''missing Host header for proxied HTTP request''] (header_value headers ''Host'')) (\<lambda>host.
            and_then (authority_to_addr host) (\<lambda>request_addr.
            and_then (normalize_host_header host) (\<lambda>host_header. Ok (request_addr, target, host_header))))
          else
            and_then (authority_to_addr target) (\<lambda>request_addr.
            and_then (normalize_host_header target) (\<lambda>host_header. Ok (request_addr, ''/'', host_header))))"

section \<open>Writing a head\<close>

definition hop_by_hop :: "string list" where
  "hop_by_hop = [''proxy-connection'', ''connection'', ''keep-alive'', ''proxy-authenticate'', ''proxy-authorization'', ''te'',
     ''trailers'', ''upgrade'']"

definition should_skip_request_header :: "string \<Rightarrow> BodyKind \<Rightarrow> bool" where
  "should_skip_request_header name body_kind \<longleftrightarrow>
     body_kind = Chunked \<and> eq_ignore_ascii_case name ''Content-Length'' \<or> to_ascii_lowercase name \<in> set hop_by_hop"

definition should_skip_response_header :: "string \<Rightarrow> BodyKind \<Rightarrow> bool" where
  "should_skip_response_header name body_kind \<longleftrightarrow>
     body_kind = Chunked \<and> eq_ignore_ascii_case name ''Content-Length'' \<or> to_ascii_lowercase name \<in> set hop_by_hop"

definition header_line :: "string \<times> string \<Rightarrow> string" where
  "header_line h = (case h of (name, v) \<Rightarrow> name @ '': '' @ v @ crlf)"

definition build_outbound_request :: "HttpRequestHead \<Rightarrow> string \<Rightarrow> string \<Rightarrow> BodyKind \<Rightarrow> string" where
  "build_outbound_request request request_target host_header body_kind =
     (let kept = filter (\<lambda>(name, _). \<not> should_skip_request_header name body_kind) (rh_headers request);
          host_line = header_line (''Host'', host_header);
          saw_host = list_ex (\<lambda>(name, _). eq_ignore_ascii_case name ''Host'') kept in
      rh_method request @ '' '' @ request_target @ '' '' @ rh_version request @ crlf @
      concat (map (\<lambda>(name, v). if eq_ignore_ascii_case name ''Host'' then host_line else header_line (name, v)) kept) @
      (if saw_host then [] else host_line) @ header_line (''Connection'', ''close'') @ crlf)"

definition build_outbound_response :: "http_api \<Rightarrow> HttpResponseHead \<Rightarrow> BodyKind \<Rightarrow> bool option \<Rightarrow> string" where
  "build_outbound_response api response body_kind keep_alive =
     (let reason = (if ph_reason response = []
                    then (case ha_canonical_reason api (ph_status response) of Some r \<Rightarrow> r | None \<Rightarrow> [])
                    else ph_reason response) in
      ph_version response @ '' '' @ dec (unat (ph_status response)) @ '' '' @ reason @ crlf @
      concat (map header_line (filter (\<lambda>(name, _). \<not> should_skip_response_header name body_kind) (ph_headers response))) @
      (case keep_alive of
         Some True \<Rightarrow> header_line (''Connection'', ''keep-alive'') @ header_line (''Proxy-Connection'', ''keep-alive'') @
           header_line (''Keep-Alive'', ''timeout='' @ dec KEEP_ALIVE_TIMEOUT_SECS)
       | Some False \<Rightarrow> header_line (''Connection'', ''close'')
       | None \<Rightarrow> []) @ crlf)"

definition status_text :: "string \<Rightarrow> u16 \<Rightarrow> string \<Rightarrow> bool \<Rightarrow> string" where
  "status_text version status reason keep_alive =
     version @ '' '' @ dec (unat status) @ '' '' @ reason @ crlf @ header_line (''Content-Length'', ''0'') @
     (if keep_alive
      then header_line (''Connection'', ''keep-alive'') @ header_line (''Proxy-Connection'', ''keep-alive'') @
        header_line (''Keep-Alive'', ''timeout='' @ dec KEEP_ALIVE_TIMEOUT_SECS)
      else header_line (''Connection'', ''close'')) @ crlf"

definition auth_required_text :: "string \<Rightarrow> string \<Rightarrow> string" where
  "auth_required_text version realm =
     version @ '' 407 Proxy Authentication Required'' @ crlf @
     header_line (''Proxy-Authenticate'', ''Basic realm=\"'' @ realm @ ''\"'') @
     header_line (''Content-Length'', ''0'') @ header_line (''Connection'', ''close'') @ crlf"



end
