(* ===== verification/Http_Stream.thy ===== *)
theory Http_Stream
  imports Http_Text Relay
begin

text \<open>
  How the HTTP proxy reads heads and relays bodies (\<open>app/src/http_proxy.rs\<close>). A connection is the
  list of what its successive reads return, which fixes how the network cut the stream into
  pieces: a piece longer than the buffer of a read is continued by the next read, an empty piece
  is the end of the stream, and reading past the list waits. The lemmas show that what the
  proxy does depends only on the bytes of the stream and not on the pieces.
\<close>

section \<open>Reading\<close>

type_synonym reads = "(io_error + bytes) list"

fun http_read :: "nat \<Rightarrow> reads \<Rightarrow> ((io_error + bytes) \<times> reads) option" where
  "http_read cap [] = None"
| "http_read cap (Inl e # rs) = Some (Err e, rs)"
| "http_read cap (Inr d # rs) =
     (if d = [] then Some (Ok [], Inr [] # rs)
      else Some (Ok (take cap d), if length d \<le> cap then rs else Inr (drop cap d) # rs))"

text \<open>A reader: the connection and the bytes that were read from it but not used.\<close>

record http_reader =
  hr_reads :: reads
  hr_buffer :: bytes

definition reads_size :: "reads \<Rightarrow> nat" where
  "reads_size rs = sum_list (map (\<lambda>r. case r of Inl _ \<Rightarrow> 1 | Inr d \<Rightarrow> length d) rs)"

definition reader_size :: "http_reader \<Rightarrow> nat" where
  "reader_size r = reads_size (hr_reads r) + length (hr_buffer r)"

lemma reads_size_simps [simp]:
  "reads_size [] = 0" "reads_size (Inl e # rs) = Suc (reads_size rs)" "reads_size (Inr d # rs) = length d + reads_size rs"
  by (simp_all add: reads_size_def)

lemma http_read_size:
  "http_read cap rs = Some (Ok d, rs') \<Longrightarrow> reads_size rs = length d + reads_size rs'"
  "http_read cap rs = Some (Err e, rs') \<Longrightarrow> reads_size rs = Suc (reads_size rs')"
  by (cases "(cap, rs)" rule: http_read.cases; auto split: if_splits)+

fun find_window :: "bytes \<Rightarrow> bytes \<Rightarrow> nat option" where
  "find_window pat [] = None"
| "find_window pat (x # xs) = (if prefix pat (x # xs) then Some 0 else map_option Suc (find_window pat xs))"

definition find_header_end :: "bytes \<Rightarrow> nat option" where
  "find_header_end buffer = find_window [13, 10, 13, 10] buffer"

definition find_crlf :: "bytes \<Rightarrow> nat option" where
  "find_crlf buffer = find_window [13, 10] buffer"

function read_http_head :: "http_reader \<Rightarrow> ((anyhow + bytes option) \<times> http_reader) run" where
  "read_http_head r =
     (case find_header_end (hr_buffer r) of
        Some header_end \<Rightarrow>
          Returned (Ok (Some (take header_end (hr_buffer r))), r\<lparr>hr_buffer := drop (header_end + 4) (hr_buffer r)\<rparr>)
      | None \<Rightarrow>
          (case http_read 2048 (hr_reads r) of
             None \<Rightarrow> Blocked
           | Some (Inl e, rs) \<Rightarrow> Returned (Err [IoCause e], r\<lparr>hr_reads := rs\<rparr>)
           | Some (Inr d, rs) \<Rightarrow>
               if d = [] then
                 (if hr_buffer r = [] then Returned (Ok None, r\<lparr>hr_reads := rs\<rparr>)
                  else Returned (Err [Msg ''unexpected EOF while reading HTTP header''], r\<lparr>hr_reads := rs\<rparr>))
               else
                 let r = \<lparr>hr_reads = rs, hr_buffer = hr_buffer r @ d\<rparr> in
                 if MAX_HTTP_HEADER_SIZE < length (hr_buffer r) then Returned (Err [Msg ''HTTP header is too large''], r)
                 else read_http_head r))"
  by auto
termination
  by (relation "measure (\<lambda>r. reads_size (hr_reads r))") (auto dest: http_read_size(1))

declare read_http_head.simps [simp del]

definition read_http_request :: "http_reader \<Rightarrow> ((anyhow + HttpRequestHead option) \<times> http_reader) run" where
  "read_http_request r =
     (case read_http_head r of
        Blocked \<Rightarrow> Blocked
      | Panicked \<Rightarrow> Panicked
      | Returned (Inl e, r) \<Rightarrow> Returned (Err e, r)
      | Returned (Inr None, r) \<Rightarrow> Returned (Ok None, r)
      | Returned (Inr (Some bytes), r) \<Rightarrow> Returned (and_then (parse_request_head bytes) (\<lambda>h. Ok (Some h)), r))"

definition read_http_response :: "http_reader \<Rightarrow> ((anyhow + HttpResponseHead option) \<times> http_reader) run" where
  "read_http_response r =
     (case read_http_head r of
        Blocked \<Rightarrow> Blocked
      | Panicked \<Rightarrow> Panicked
      | Returned (Inl e, r) \<Rightarrow> Returned (Err e, r)
      | Returned (Inr None, r) \<Rightarrow> Returned (Ok None, r)
      | Returned (Inr (Some bytes), r) \<Rightarrow> Returned (and_then (parse_response_head bytes) (\<lambda>h. Ok (Some h)), r))"

function read_crlf_line :: "http_reader \<Rightarrow> ((anyhow + bytes) \<times> http_reader) run" where
  "read_crlf_line r =
     (case find_crlf (hr_buffer r) of
        Some position \<Rightarrow> Returned (Ok (take (position + 2) (hr_buffer r)), r\<lparr>hr_buffer := drop (position + 2) (hr_buffer r)\<rparr>)
      | None \<Rightarrow>
          if MAX_CHUNK_LINE_SIZE < length (hr_buffer r) then Returned (Err [Msg ''HTTP chunk line is too large''], r)
          else
            (case http_read 1024 (hr_reads r) of
               None \<Rightarrow> Blocked
             | Some (Inl e, rs) \<Rightarrow> Returned (Err [IoCause e], r\<lparr>hr_reads := rs\<rparr>)
             | Some (Inr d, rs) \<Rightarrow>
                 if d = [] then Returned (Err [Msg ''unexpected EOF while reading chunked body''], r\<lparr>hr_reads := rs\<rparr>)
                 else read_crlf_line \<lparr>hr_reads = rs, hr_buffer = hr_buffer r @ d\<rparr>))"
  by auto
termination
  by (relation "measure (\<lambda>r. reads_size (hr_reads r))") (auto dest: http_read_size(1))

declare read_crlf_line.simps [simp del]

section \<open>Relaying bodies\<close>

text \<open>\<open>tokio::io::copy\<close> from a reader, or from its first \<open>n\<close> bytes, to a writer; the end of the stream is no error.\<close>

definition copy_room :: "nat option \<Rightarrow> nat" where
  "copy_room limit = (case limit of Some n \<Rightarrow> min n 8192 | None \<Rightarrow> 8192)"

function copy_bytes :: "nat option \<Rightarrow> reads \<Rightarrow> sink \<Rightarrow> ((anyhow + unit) \<times> reads \<times> sink) run" where
  "copy_bytes limit rs w =
     (if limit = Some 0 then Returned (Ok (), rs, w)
      else case http_read (copy_room limit) rs of
          None \<Rightarrow> Blocked
        | Some (Inl e, rs) \<Rightarrow> Returned (Err [IoCause e], rs, w)
        | Some (Inr d, rs) \<Rightarrow>
            if d = [] then Returned (Ok (), rs, w)
            else (case write_all d w of
                (Inl e, w) \<Rightarrow> Returned (Err [IoCause e], rs, w)
              | (Inr _, w) \<Rightarrow> copy_bytes (map_option (\<lambda>n. n - length d) limit) rs w))"
  by auto
termination
  by (relation "measure (\<lambda>(_, rs, _). reads_size rs)") (auto dest: http_read_size(1))

declare copy_bytes.simps [simp del]

definition transfer_exact_bytes :: "nat \<Rightarrow> http_reader \<Rightarrow> sink \<Rightarrow> ((anyhow + unit) \<times> http_reader \<times> sink) run" where
  "transfer_exact_bytes remaining r w =
     (let buffered = min (length (hr_buffer r)) remaining in
      case (if 0 < buffered then write_all (take buffered (hr_buffer r)) w else (Ok (), w)) of
        (Inl e, w) \<Rightarrow> Returned (Err [IoCause e], r, w)
      | (Inr _, w) \<Rightarrow>
          (case copy_bytes (Some (remaining - buffered)) (hr_reads r) w of
             Blocked \<Rightarrow> Blocked
           | Panicked \<Rightarrow> Panicked
           | Returned (result, rs, w) \<Rightarrow> Returned (result, \<lparr>hr_reads = rs, hr_buffer = drop buffered (hr_buffer r)\<rparr>, w)))"

definition transfer_until_eof :: "http_reader \<Rightarrow> sink \<Rightarrow> ((anyhow + unit) \<times> http_reader \<times> sink) run" where
  "transfer_until_eof r w =
     (case (if hr_buffer r \<noteq> [] then write_all (hr_buffer r) w else (Ok (), w)) of
        (Inl e, w) \<Rightarrow> Returned (Err [IoCause e], r, w)
      | (Inr _, w) \<Rightarrow>
          (case copy_bytes None (hr_reads r) w of
             Blocked \<Rightarrow> Blocked
           | Panicked \<Rightarrow> Panicked
           | Returned (result, rs, w) \<Rightarrow> Returned (result, \<lparr>hr_reads = rs, hr_buffer = []\<rparr>, w)))"

lemma find_window_bound: "find_window pat xs = Some n \<Longrightarrow> n + length pat \<le> length xs \<and> n < length xs"
  by (induction xs arbitrary: n) (auto split: if_splits dest: prefix_length_le)

lemma read_crlf_line_size:
  "read_crlf_line r = Returned (Ok line, r') \<Longrightarrow> reader_size r = reader_size r' + length line \<and> 2 \<le> length line"
proof (induction r rule: read_crlf_line.induct)
  case (1 r)
  show ?case
  proof (cases "find_crlf (hr_buffer r)")
    case (Some n)
    with "1.prems" find_window_bound[of "[13, 10]" "hr_buffer r" n] show ?thesis
      by (auto simp: read_crlf_line.simps[of r] find_crlf_def reader_size_def)
  next
    case None
    with "1.prems" obtain d rs where d: "\<not> MAX_CHUNK_LINE_SIZE < length (hr_buffer r)" "http_read 1024 (hr_reads r) = Some (Ok d, rs)"
      "d \<noteq> []" "read_crlf_line \<lparr>hr_reads = rs, hr_buffer = hr_buffer r @ d\<rparr> = Returned (Ok line, r')"
      by (auto simp: read_crlf_line.simps[of r] split: if_splits option.splits sum.splits)
    from "1.IH"[OF None d(1,2) refl refl d(3,4)] http_read_size(1)[OF d(2)] show ?thesis by (simp add: reader_size_def)
  qed
qed

lemma copy_bytes_size: "copy_bytes limit rs w = Returned (result, rs', w') \<Longrightarrow> reads_size rs' \<le> reads_size rs"
proof (induction limit rs w rule: copy_bytes.induct)
  case (1 limit rs w)
  show ?case
  proof (cases "limit = Some 0 \<or> http_read (copy_room limit) rs = None")
    case True
    with "1.prems" show ?thesis by (auto simp: copy_bytes.simps[of limit rs w] split: if_splits)
  next
    case False
    then obtain x rs1 where r: "http_read (copy_room limit) rs = Some (x, rs1)" by auto
    show ?thesis
    proof (cases x)
      case (Inl e)
      with False r "1.prems" http_read_size(2)[of _ rs e rs1] show ?thesis by (auto simp: copy_bytes.simps[of limit rs w])
    next
      case (Inr d)
      note size = http_read_size(1)[OF r[unfolded Inr]]
      show ?thesis
      proof (cases "d = [] \<or> (\<exists>e w1. write_all d w = (Inl e, w1))")
        case True
        with False r Inr "1.prems" size show ?thesis by (auto simp: copy_bytes.simps[of limit rs w] split: if_splits)
      next
        case ok: False
        then obtain u w1 where w: "write_all d w = (Inr u, w1)" by (cases "write_all d w") (metis sum.exhaust)
        with False r Inr ok "1.prems" have "copy_bytes (map_option (\<lambda>n. n - length d) limit) rs1 w1 = Returned (result, rs', w')"
          by (auto simp: copy_bytes.simps[of limit rs w])
        then have "reads_size rs' \<le> reads_size rs1" using "1.IH" False r Inr ok w by simp
        with size show ?thesis by simp
      qed
    qed
  qed
qed

lemma transfer_exact_bytes_size:
  "transfer_exact_bytes n r w = Returned (result, r', w') \<Longrightarrow> reader_size r' \<le> reader_size r"
  by (auto simp: transfer_exact_bytes_def reader_size_def Let_def split: prod.splits sum.splits run.splits
      dest!: copy_bytes_size)

function transfer_trailers :: "http_reader \<Rightarrow> sink \<Rightarrow> ((anyhow + unit) \<times> http_reader \<times> sink) run" where
  "transfer_trailers r w =
     (case read_crlf_line r of
        Blocked \<Rightarrow> Blocked
      | Panicked \<Rightarrow> Panicked
      | Returned (Inl e, r) \<Rightarrow> Returned (Err e, r, w)
      | Returned (Inr trailer, r) \<Rightarrow>
          (case write_all trailer w of
             (Inl e, w) \<Rightarrow> Returned (Err [IoCause e], r, w)
           | (Inr _, w) \<Rightarrow> if trailer = [13, 10] then Returned (Ok (), r, w) else transfer_trailers r w))"
  by auto
termination
  by (relation "measure (\<lambda>(r, _). reader_size r)") (auto dest!: read_crlf_line_size)

declare transfer_trailers.simps [simp del]

definition chunk_length :: "bytes \<Rightarrow> anyhow + nat" where
  "chunk_length line =
     and_then (with_context ''invalid HTTP chunk header'' (ok_or [Utf8Cause] (from_utf8 (take (length line - 2) line)))) (\<lambda>line_text.
     let chunk_len_text = trim (takeWhile (\<lambda>c. c \<noteq> CHR '';'') line_text) in
     with_context (''invalid HTTP chunk size '' @ chunk_len_text) (ok_or [ParseIntCause] (parse_radix 16 (2 ^ 64) chunk_len_text)))"

function transfer_chunked_body :: "bool \<Rightarrow> http_reader \<Rightarrow> sink \<Rightarrow> ((anyhow + unit) \<times> http_reader \<times> sink) run" where
  "transfer_chunked_body checks r w =
     (case read_crlf_line r of
        Blocked \<Rightarrow> Blocked
      | Panicked \<Rightarrow> Panicked
      | Returned (Inl e, r) \<Rightarrow> Returned (Err e, r, w)
      | Returned (Inr line, r) \<Rightarrow>
          (case write_all line w of
             (Inl e, w) \<Rightarrow> Returned (Err [IoCause e], r, w)
           | (Inr _, w) \<Rightarrow>
               (case chunk_length line of
                  Inl e \<Rightarrow> Returned (Err e, r, w)
                | Inr chunk_len \<Rightarrow>
                    if chunk_len = 0 then transfer_trailers r w
                    else (case usize_add checks chunk_len 2 of
                        None \<Rightarrow> Panicked
                      | Some n \<Rightarrow>
                          (case transfer_exact_bytes n r w of
                             Blocked \<Rightarrow> Blocked
                           | Panicked \<Rightarrow> Panicked
                           | Returned (Inl e, r, w) \<Rightarrow> Returned (Err e, r, w)
                           | Returned (Inr _, r, w) \<Rightarrow> transfer_chunked_body checks r w)))))"
  by auto
termination
  by (relation "measure (\<lambda>(_, r, _). reader_size r)") (auto dest!: read_crlf_line_size transfer_exact_bytes_size)

declare transfer_chunked_body.simps [simp del]

definition transfer_body :: "bool \<Rightarrow> BodyKind \<Rightarrow> http_reader \<Rightarrow> sink \<Rightarrow> ((anyhow + unit) \<times> http_reader \<times> sink) run" where
  "transfer_body checks body_kind r w =
     (case body_kind of
        NoBody \<Rightarrow> Returned (Ok (), r, w)
      | ContentLength n \<Rightarrow> transfer_exact_bytes n r w
      | Chunked \<Rightarrow> transfer_chunked_body checks r w
      | UntilEof \<Rightarrow> transfer_until_eof r w)"

section \<open>The pieces of a stream do not matter\<close>

text \<open>The bytes that a reader can still deliver.\<close>

definition reader_bytes :: "http_reader \<Rightarrow> bytes" where
  "reader_bytes r = hr_buffer r @ stream_of (hr_reads r)"

lemma reader_bytes_simps [simp]: "reader_bytes \<lparr>hr_reads = rs, hr_buffer = b\<rparr> = b @ stream_of rs"
  by (simp add: reader_bytes_def)

lemma http_read_stream:
  assumes "stream_of rs \<noteq> []" and "0 < cap"
  shows "\<exists>d rs'. http_read cap rs = Some (Ok d, rs') \<and> d \<noteq> [] \<and> stream_of rs = d @ stream_of rs' \<and> length d \<le> cap"
  using assms by (cases rs rule: stream_of.cases) (auto split: if_splits)

lemma find_window_append:
  assumes "find_window pat (xs @ ys) = Some n" and "pat \<noteq> []"
  shows "find_window pat xs = (if n + length pat \<le> length xs then Some n else None)"
  using assms(1)
proof (induction xs arbitrary: n)
  case Nil
  then show ?case using assms(2) by simp
next
  case (Cons x xs)
  show ?case
  proof (cases "prefix pat (x # xs @ ys)")
    case True
    have "prefix pat (x # xs) \<longleftrightarrow> length pat \<le> length (x # xs)"
      using True prefix_length_prefix[of pat "x # xs @ ys" "x # xs"] prefix_length_le[of pat "x # xs"] by auto
    moreover have "find_window pat xs = None" if "\<not> length pat \<le> length (x # xs)"
      using that find_window_bound[of pat xs] by (cases "find_window pat xs") auto
    ultimately show ?thesis using True Cons.prems by auto
  next
    case False
    then have "\<not> prefix pat (x # xs)" by (metis append_Cons prefix_prefix)
    with False Cons show ?thesis by (auto split: if_splits)
  qed
qed

text \<open>The first occurrence of a pattern in a reader's bytes, as far as they are in its buffer.\<close>

lemma find_in_buffer:
  assumes "reader_bytes r = pre @ pat @ rest" and "find_window pat (pre @ pat @ rest) = Some (length pre)" and "pat \<noteq> []"
  shows "length pre + length pat \<le> length (hr_buffer r) \<Longrightarrow> find_window pat (hr_buffer r) = Some (length pre) \<and>
      take (length pre) (hr_buffer r) = pre \<and> take (length pre + length pat) (hr_buffer r) = pre @ pat \<and>
      drop (length pre + length pat) (hr_buffer r) @ stream_of (hr_reads r) = rest"
    "length (hr_buffer r) < length pre + length pat \<Longrightarrow> find_window pat (hr_buffer r) = None \<and> stream_of (hr_reads r) \<noteq> []"
proof -
  note f = find_window_append[OF assms(2)[folded assms(1), unfolded reader_bytes_def] assms(3)]
  have eq: "hr_buffer r @ stream_of (hr_reads r) = pre @ pat @ rest" using assms(1) by (simp add: reader_bytes_def)
  {
    assume len: "length pre + length pat \<le> length (hr_buffer r)"
    have "take n (hr_buffer r) = take n (pre @ pat @ rest)" if "n \<le> length (hr_buffer r)" for n
      using arg_cong[OF eq, of "take n"] that by simp
    moreover have "drop n (hr_buffer r) @ stream_of (hr_reads r) = drop n (pre @ pat @ rest)" if "n \<le> length (hr_buffer r)" for n
      using arg_cong[OF eq, of "drop n"] that by simp
    ultimately show "find_window pat (hr_buffer r) = Some (length pre) \<and>
      take (length pre) (hr_buffer r) = pre \<and> take (length pre + length pat) (hr_buffer r) = pre @ pat \<and>
      drop (length pre + length pat) (hr_buffer r) @ stream_of (hr_reads r) = rest"
      using f len by simp
  }
  assume len: "length (hr_buffer r) < length pre + length pat"
  then show "find_window pat (hr_buffer r) = None \<and> stream_of (hr_reads r) \<noteq> []"
    using f arg_cong[OF eq, of length] by auto
qed

lemma read_crlf_line_stream:
  assumes "reader_bytes r = line @ [13, 10] @ rest" and "13 \<notin> set line" and "length line < MAX_CHUNK_LINE_SIZE"
  shows "\<exists>r'. read_crlf_line r = Returned (Ok (line @ [13, 10]), r') \<and> reader_bytes r' = rest"
  using assms(1)
proof (induction r rule: read_crlf_line.induct)
  case (1 r)
  have first: "find_window [13, 10] (line @ [13, 10] @ rest) = Some (length line)"
    using assms(2) by (induction line) auto
  note find = find_in_buffer[OF "1.prems" first]
  show ?case
  proof (cases "length line + 2 \<le> length (hr_buffer r)")
    case True
    with find(1) show ?thesis by (simp add: read_crlf_line.simps[of r] find_crlf_def reader_bytes_def)
  next
    case False
    with find(2) have none: "find_crlf (hr_buffer r) = None" and ne: "stream_of (hr_reads r) \<noteq> []" by (simp_all add: find_crlf_def)
    obtain d rs where d: "http_read 1024 (hr_reads r) = Some (Ok d, rs)" "d \<noteq> []" "stream_of (hr_reads r) = d @ stream_of rs"
      using http_read_stream[OF ne, of 1024] by auto
    have small: "\<not> MAX_CHUNK_LINE_SIZE < length (hr_buffer r)" using False assms(3) by simp
    have "\<exists>r'. read_crlf_line \<lparr>hr_reads = rs, hr_buffer = hr_buffer r @ d\<rparr> = Returned (Ok (line @ [13, 10]), r') \<and> reader_bytes r' = rest"
      using "1.IH"[OF none small d(1) refl refl d(2)] "1.prems" d(3) by (simp add: reader_bytes_def)
    then show ?thesis using none small d(1,2) by (simp add: read_crlf_line.simps[of r])
  qed
qed

lemma read_http_head_stream:
  assumes "reader_bytes r = head @ [13, 10, 13, 10] @ rest" and "find_header_end (head @ [13, 10, 13, 10] @ rest) = Some (length head)"
    and "length head + 2052 \<le> MAX_HTTP_HEADER_SIZE"
  shows "\<exists>r'. read_http_head r = Returned (Ok (Some head), r') \<and> reader_bytes r' = rest"
  using assms(1)
proof (induction r rule: read_http_head.induct)
  case (1 r)
  note find = find_in_buffer[OF "1.prems" assms(2)[unfolded find_header_end_def]]
  show ?case
  proof (cases "length head + 4 \<le> length (hr_buffer r)")
    case True
    with find(1) show ?thesis by (simp add: read_http_head.simps[of r] find_header_end_def reader_bytes_def numeral_eq_Suc)
  next
    case False
    with find(2) have none: "find_header_end (hr_buffer r) = None" and ne: "stream_of (hr_reads r) \<noteq> []" by (simp_all add: find_header_end_def)
    obtain d rs where d: "http_read 2048 (hr_reads r) = Some (Ok d, rs)" "d \<noteq> []" "stream_of (hr_reads r) = d @ stream_of rs"
      "length d \<le> 2048"
      using http_read_stream[OF ne, of 2048] by auto
    let ?r = "\<lparr>hr_reads = rs, hr_buffer = hr_buffer r @ d\<rparr>"
    have small: "\<not> MAX_HTTP_HEADER_SIZE < length (hr_buffer ?r)" using False assms(3) d(4) by simp
    have "\<exists>r'. read_http_head ?r = Returned (Ok (Some head), r') \<and> reader_bytes r' = rest"
      using "1.IH"[OF none d(1) refl refl d(2) refl small] "1.prems" d(3) by (simp add: reader_bytes_def)
    then show ?thesis using none small d(1,2) by (simp add: read_http_head.simps[of r])
  qed
qed

lemma copy_bytes_stream:
  assumes "stream_of rs = body @ rest" and "failing w = None"
  shows "\<exists>rs'. copy_bytes (Some (length body)) rs w = Returned (Ok (), rs', w\<lparr>written := written w @ body\<rparr>) \<and> stream_of rs' = rest"
  using assms
proof (induction "reads_size rs" arbitrary: rs body w rule: less_induct)
  case less
  show ?case
  proof (cases "body = []")
    case True
    with less.prems show ?thesis by (simp add: copy_bytes.simps)
  next
    case False
    then obtain d rs1 where d: "http_read (copy_room (Some (length body))) rs = Some (Ok d, rs1)" "d \<noteq> []" "stream_of rs = d @ stream_of rs1"
      "length d \<le> length body"
      using http_read_stream[of rs "copy_room (Some (length body))"] less.prems(1) by (auto simp: copy_room_def)
    then obtain more where more: "body = d @ more" "stream_of rs1 = more @ rest"
      using less.prems(1) by (auto simp: append_eq_append_conv2)
    let ?w = "w\<lparr>written := written w @ d\<rparr>"
    have "reads_size rs1 < reads_size rs" using http_read_size(1)[OF d(1)] d(2) by simp
    from less.hyps[OF this more(2), of ?w] less.prems(2)
    obtain rs' where "copy_bytes (Some (length more)) rs1 ?w = Returned (Ok (), rs', w\<lparr>written := written w @ body\<rparr>)" "stream_of rs' = rest"
      using more(1) by auto
    moreover have "copy_bytes (Some (length body)) rs w = copy_bytes (Some (length more)) rs1 ?w"
      using d(1,2) less.prems(2) more(1) by (simp add: copy_bytes.simps[of "Some (length d + length more)" rs] write_all_def)
    ultimately show ?thesis by simp
  qed
qed

lemma transfer_exact_bytes_stream:
  assumes "reader_bytes r = body @ rest" and "failing w = None"
  shows "\<exists>r'. transfer_exact_bytes (length body) r w = Returned (Ok (), r', w\<lparr>written := written w @ body\<rparr>) \<and> reader_bytes r' = rest"
proof -
  let ?b = "hr_buffer r" and ?n = "min (length (hr_buffer r)) (length body)"
  have eq: "?b @ stream_of (hr_reads r) = body @ rest" using assms(1) by (simp add: reader_bytes_def)
  have part: "take ?n ?b @ drop ?n body = body" "drop ?n ?b @ stream_of (hr_reads r) = drop ?n body @ rest"
    using eq by (auto simp: append_eq_append_conv2 min_def)
  have first: "(if 0 < ?n then write_all (take ?n ?b) w else (Ok (), w)) = (Ok (), w\<lparr>written := written w @ take ?n ?b\<rparr>)"
    using assms(2) by (simp add: write_all_def)
  have unfold: "transfer_exact_bytes (length body) r w =
      (case copy_bytes (Some (length (drop ?n body))) (hr_reads r) (w\<lparr>written := written w @ take ?n ?b\<rparr>) of
         Blocked \<Rightarrow> Blocked
       | Panicked \<Rightarrow> Panicked
       | Returned (result, rs, v) \<Rightarrow> Returned (result, \<lparr>hr_reads = rs, hr_buffer = drop ?n ?b\<rparr>, v))"
    unfolding transfer_exact_bytes_def Let_def first length_drop by simp
  show ?thesis
  proof (cases "length body \<le> length ?b")
    case True
    then have "drop ?n body = []" "reader_bytes \<lparr>hr_reads = hr_reads r, hr_buffer = drop ?n ?b\<rparr> = rest"
      using part(2) by (simp_all add: min_def)
    then show ?thesis using part(1) unfolding unfold by (simp add: copy_bytes.simps)
  next
    case False
    then have "stream_of (hr_reads r) = drop ?n body @ rest" using part(2) by (simp add: min_def)
    from copy_bytes_stream[OF this, of "w\<lparr>written := written w @ take ?n ?b\<rparr>"] assms(2)
    obtain rs' where "copy_bytes (Some (length (drop ?n body))) (hr_reads r) (w\<lparr>written := written w @ take ?n ?b\<rparr>) =
        Returned (Ok (), rs', w\<lparr>written := written w @ body\<rparr>)" "stream_of rs' = rest"
      using part(1) by auto
    with False show ?thesis unfolding unfold by (simp add: min_def)
  qed
qed

section \<open>Chunked bodies\<close>

text \<open>
  A chunked body is a list of chunks, each with its size line and data, a last size line, and
  trailer lines; a size line may carry extensions.
\<close>

type_synonym chunk = "bytes \<times> bytes"

definition line_bytes :: "bytes \<Rightarrow> bytes" where
  "line_bytes l = l @ [13, 10]"

definition chunked_bytes :: "chunk list \<Rightarrow> bytes \<Rightarrow> bytes list \<Rightarrow> bytes" where
  "chunked_bytes cs final trailers =
     concat (map (\<lambda>(size, data). line_bytes size @ data @ [13, 10]) cs) @ line_bytes final @
     concat (map line_bytes trailers) @ [13, 10]"

definition line_ok :: "bytes \<Rightarrow> bool" where
  "line_ok l \<longleftrightarrow> 13 \<notin> set l \<and> length l < MAX_CHUNK_LINE_SIZE"

definition chunked_ok :: "chunk list \<Rightarrow> bytes \<Rightarrow> bytes list \<Rightarrow> bool" where
  "chunked_ok cs final trailers \<longleftrightarrow>
     list_all (\<lambda>(size, data). line_ok size \<and> chunk_length (line_bytes size) = Ok (length data) \<and> data \<noteq> [] \<and> length data + 2 < 2 ^ 64) cs \<and>
     line_ok final \<and> chunk_length (line_bytes final) = Ok 0 \<and> list_all (\<lambda>t. line_ok t \<and> t \<noteq> []) trailers"

lemma read_line_stream:
  assumes "reader_bytes r = line_bytes l @ rest" and "line_ok l"
  shows "\<exists>r'. read_crlf_line r = Returned (Ok (line_bytes l), r') \<and> reader_bytes r' = rest"
  using read_crlf_line_stream[of r l rest] assms by (simp add: line_bytes_def line_ok_def)

lemma transfer_trailers_stream:
  assumes "reader_bytes r = concat (map line_bytes trailers) @ [13, 10] @ rest" and "list_all (\<lambda>t. line_ok t \<and> t \<noteq> []) trailers"
    and "failing w = None"
  shows "\<exists>r'. transfer_trailers r w = Returned (Ok (), r', w\<lparr>written := written w @ concat (map line_bytes trailers) @ [13, 10]\<rparr>) \<and>
    reader_bytes r' = rest"
  using assms
proof (induction trailers arbitrary: r w)
  case Nil
  then obtain r' where "read_crlf_line r = Returned (Ok [13, 10], r')" "reader_bytes r' = rest"
    using read_line_stream[of r "[]" rest] by (auto simp: line_bytes_def line_ok_def MAX_CHUNK_LINE_SIZE_def)
  then show ?case using Nil.prems(3) by (simp add: transfer_trailers.simps[of r] write_all_def)
next
  case (Cons t trailers)
  let ?w = "w\<lparr>written := written w @ line_bytes t\<rparr>"
  obtain r1 where r1: "read_crlf_line r = Returned (Ok (line_bytes t), r1)"
    "reader_bytes r1 = concat (map line_bytes trailers) @ [13, 10] @ rest"
    using read_line_stream[of r t] Cons.prems(1,2) by auto
  have "line_bytes t \<noteq> [13, 10]" using Cons.prems(2) by (simp add: line_bytes_def)
  then have "transfer_trailers r w = transfer_trailers r1 ?w"
    using r1(1) Cons.prems(3) by (simp add: transfer_trailers.simps[of r] write_all_def)
  then show ?case using Cons.IH[OF r1(2), of ?w] Cons.prems(2,3) by simp
qed

lemma transfer_chunked_stream:
  assumes "reader_bytes r = chunked_bytes cs final trailers @ rest" and "chunked_ok cs final trailers" and "failing w = None"
  shows "\<exists>r'. transfer_chunked_body checks r w =
      Returned (Ok (), r', w\<lparr>written := written w @ chunked_bytes cs final trailers\<rparr>) \<and> reader_bytes r' = rest"
  using assms
proof (induction cs arbitrary: r w)
  case Nil
  let ?w = "w\<lparr>written := written w @ line_bytes final\<rparr>"
  obtain r1 where r1: "read_crlf_line r = Returned (Ok (line_bytes final), r1)"
    "reader_bytes r1 = concat (map line_bytes trailers) @ [13, 10] @ rest"
    using read_line_stream[of r final] Nil.prems(1,2) by (auto simp: chunked_bytes_def chunked_ok_def)
  have "transfer_chunked_body checks r w = transfer_trailers r1 ?w"
    using r1(1) Nil.prems(2,3) by (simp add: transfer_chunked_body.simps[of checks r] write_all_def chunked_ok_def)
  then show ?case
    using transfer_trailers_stream[OF r1(2), of ?w] Nil.prems(2,3) by (simp add: chunked_bytes_def chunked_ok_def)
next
  case (Cons c cs)
  obtain size data where c: "c = (size, data)" by (cases c)
  let ?more = "chunked_bytes cs final trailers @ rest" and ?w = "w\<lparr>written := written w @ line_bytes size\<rparr>"
  have ok: "line_ok size" "chunk_length (line_bytes size) = Ok (length data)" "data \<noteq> []" "length data + 2 < 2 ^ 64"
    "chunked_ok cs final trailers" using Cons.prems(2) c by (auto simp: chunked_ok_def)
  obtain r1 where r1: "read_crlf_line r = Returned (Ok (line_bytes size), r1)" "reader_bytes r1 = (data @ [13, 10]) @ ?more"
    using read_line_stream[of r size] Cons.prems(1) ok(1) c by (auto simp: chunked_bytes_def)
  obtain r2 where r2: "transfer_exact_bytes (length data + 2) r1 ?w =
      Returned (Ok (), r2, ?w\<lparr>written := written ?w @ data @ [13, 10]\<rparr>)" "reader_bytes r2 = ?more"
    using transfer_exact_bytes_stream[OF r1(2), of ?w] Cons.prems(3) by auto
  have "transfer_chunked_body checks r w = transfer_chunked_body checks r2 (?w\<lparr>written := written ?w @ data @ [13, 10]\<rparr>)"
    using r1(1) r2(1) ok(2-4) Cons.prems(3)
    by (simp add: transfer_chunked_body.simps[of checks r] write_all_def usize_add_def)
  then show ?case using Cons.IH[OF r2(2) ok(5), of "?w\<lparr>written := written ?w @ data @ [13, 10]\<rparr>"] Cons.prems(3) c
    by (simp add: chunked_bytes_def)
qed

text \<open>The usual size line, without extensions.\<close>

lemma hex_line:
  assumes "n < 2 ^ 64"
  shows "chunk_length (line_bytes (as_bytes (print_radix 16 n))) = Ok n" "13 \<notin> set (as_bytes (print_radix 16 n))"
proof -
  have c: "is_digit_char c" if "c \<in> set (print_radix 16 n)" for c using that print_radix_chars(1)[of 16 c n] by simp
  have g: "graphic c \<and> c \<noteq> CHR '';'' \<and> of_char c \<noteq> (13 :: u8)" if "is_digit_char c" for c
  proof -
    have "48 \<le> (of_char c :: nat)" "(of_char c :: nat) \<noteq> 59" "(of_char c :: nat) < 127"
      using that by (auto simp: is_digit_char_def to_digit_def Let_def split: if_splits)
    then show ?thesis by (auto simp: graphic_def word_unat_eq_iff unat_of_char)
  qed
  show "13 \<notin> set (as_bytes (print_radix 16 n))" using c g by (auto simp: as_bytes_def)
  have tw: "takeWhile (\<lambda>c. c \<noteq> CHR '';'') (print_radix 16 n) = print_radix 16 n" using c g by (simp add: takeWhile_eq_all_conv)
  have "trim (print_radix 16 n) = print_radix 16 n"
    using c g hd_in_set[OF print_radix_not_Nil] last_in_set[OF print_radix_not_Nil] by (intro trim_id) blast
  moreover have "from_utf8 (as_bytes (print_radix 16 n)) = Some (print_radix 16 n)"
    using str_ok_print_radix[of 16 n] by (simp add: from_utf8_def str_ok_def)
  ultimately show "chunk_length (line_bytes (as_bytes (print_radix 16 n))) = Ok n"
    using assms by (simp add: chunk_length_def line_bytes_def Let_def tw parse_radix_print)
qed

section \<open>Properties\<close>

text \<open>What a message body of each kind looks like on the wire.\<close>

inductive framed :: "BodyKind \<Rightarrow> bytes \<Rightarrow> bool" where
  "framed NoBody []"
| "framed (ContentLength (length body)) body"
| "chunked_ok cs final trailers \<Longrightarrow> framed Chunked (chunked_bytes cs final trailers)"

text \<open>
  C34: The proxy relays a body exactly, however the network cut it into pieces. For a body with a
  length or a chunked body, the writer receives the bytes of the body, size lines, extensions and
  trailers included, and the reader is left at the first byte after the body, so the next message
  on the connection is read from its beginning.
\<close>

theorem http_body_relayed:
  assumes "framed kind body" and "reader_bytes r = body @ rest" and "failing w = None"
  shows "\<exists>r'. transfer_body checks kind r w = Returned (Ok (), r', w\<lparr>written := written w @ body\<rparr>) \<and> reader_bytes r' = rest"
  using assms
proof (cases rule: framed.cases)
  case 1
  then show ?thesis using assms(2) by (simp add: transfer_body_def)
next
  case 2
  then show ?thesis using transfer_exact_bytes_stream[OF assms(2,3)] by (simp add: transfer_body_def)
next
  case (3 cs final trailers)
  then show ?thesis using transfer_chunked_stream[OF _ 3(3) assms(3)] assms(2) by (simp add: transfer_body_def)
qed

theorem http_body_relayed_witness:
  "\<exists>r'. transfer_body True Chunked \<lparr>hr_reads = [Ok [13, 10, 104], Ok [105, 13], Ok [10, 48, 13, 10, 13, 10, 71]], hr_buffer = [50]\<rparr> new_vec =
     Returned (Ok (), r', new_vec\<lparr>written := [50, 13, 10, 104, 105, 13, 10, 48, 13, 10, 13, 10]\<rparr>) \<and> reader_bytes r' = [71]"
proof -
  have "as_bytes (print_radix 16 2) = [50]" "as_bytes (print_radix 16 0) = [48]" by (simp add: print_radix.simps, code_simp)+
  then have "chunked_ok [([50], [104, 105])] [48] []"
    using hex_line[of 2] hex_line[of 0] by (simp add: chunked_ok_def line_ok_def MAX_CHUNK_LINE_SIZE_def)
  from http_body_relayed[OF framed.intros(3)[OF this], of "\<lparr>hr_reads = [Ok [13, 10, 104], Ok [105, 13], Ok [10, 48, 13, 10, 13, 10, 71]],
      hr_buffer = [50]\<rparr>" "[71]" new_vec True]
  show ?thesis by (simp add: chunked_bytes_def line_bytes_def new_vec_def)
qed

text \<open>
  C35: A chunk of the largest size stops the proxy or desynchronises it. The two bytes after the
  chunk are added to its size without a check: in a build with overflow checks the connection's
  task panics, and otherwise the sum wraps to one, so the proxy reads the next size line one byte
  into the chunk's data.
\<close>

theorem chunk_size_overflows:
  assumes "reader_bytes r = line_bytes (as_bytes (print_radix 16 (2 ^ 64 - 1))) @ b # rest" and "failing w = None"
  shows "transfer_chunked_body True r w = Panicked \<and>
    (\<exists>r' w'. transfer_chunked_body False r w = transfer_chunked_body False r' w' \<and> reader_bytes r' = rest)"
proof -
  let ?n = "2 ^ 64 - 1 :: nat" and ?l = "as_bytes (print_radix 16 (2 ^ 64 - 1))"
  have "length (print_radix 16 ?n) \<le> 16" by (rule length_print_radix) simp_all
  then have "line_ok ?l" using hex_line(2)[of ?n] by (simp add: line_ok_def MAX_CHUNK_LINE_SIZE_def)
  then obtain r1 where r1: "read_crlf_line r = Returned (Ok (line_bytes ?l), r1)" "reader_bytes r1 = [b] @ rest"
    using read_line_stream[OF assms(1)] by auto
  note n = hex_line(1)[of ?n]
  let ?w = "w\<lparr>written := written w @ line_bytes ?l\<rparr>"
  obtain r2 where r2: "transfer_exact_bytes 1 r1 ?w = Returned (Ok (), r2, ?w\<lparr>written := written ?w @ [b]\<rparr>)" "reader_bytes r2 = rest"
    using transfer_exact_bytes_stream[OF r1(2), of ?w] assms(2) by auto
  have "transfer_chunked_body True r w = Panicked"
    using r1(1) n assms(2) by (simp add: transfer_chunked_body.simps[of True r] write_all_def usize_add_def)
  moreover have "transfer_chunked_body False r w = transfer_chunked_body False r2 (?w\<lparr>written := written ?w @ [b]\<rparr>)"
    using r1(1) r2(1) n assms(2) by (simp add: transfer_chunked_body.simps[of False r] write_all_def usize_add_def)
  ultimately show ?thesis using r2(2) by blast
qed

theorem chunk_size_overflows_witness:
  "transfer_chunked_body True \<lparr>hr_reads = [], hr_buffer = line_bytes (as_bytes (print_radix 16 (2 ^ 64 - 1))) @ [1]\<rparr> new_vec = Panicked"
  using chunk_size_overflows[of "\<lparr>hr_reads = [], hr_buffer = line_bytes (as_bytes (print_radix 16 (2 ^ 64 - 1))) @ [1]\<rparr>" 1 "[]" new_vec]
  by (simp add: new_vec_def)

end
