(* ===== verification/Http_Proxy.thy ===== *)
theory Http_Proxy
  imports Http_Stream
begin

text \<open>
  The handlers of the HTTP proxy (\<open>app/src/http_proxy.rs\<close>). A connection is handled on a state that
  holds the client's stream in both directions and the results of the calls that open remote
  streams; it records the addresses that were dialled and the remote streams that were used.
  After an accepted CONNECT request the two streams are joined, and the outcome is the remote
  stream. The lemmas show that nothing is dialled for a client that has not authenticated, and
  that neither credentials nor hop-by-hop headers reach the remote server.
\<close>

section \<open>Sizes\<close>

lemma read_http_head_size:
  "read_http_head r = Returned (Ok (Some h), r') \<Longrightarrow> reader_size r = reader_size r' + length h + 4"
proof (induction r rule: read_http_head.induct)
  case (1 r)
  show ?case
  proof (cases "find_header_end (hr_buffer r)")
    case (Some n)
    with "1.prems" find_window_bound[of "[13, 10, 13, 10]" "hr_buffer r" n] show ?thesis
      by (auto simp: read_http_head.simps[of r] find_header_end_def reader_size_def)
  next
    case None
    with "1.prems" obtain d rs where d: "http_read 2048 (hr_reads r) = Some (Ok d, rs)" "d \<noteq> []"
      "\<not> MAX_HTTP_HEADER_SIZE < length (hr_buffer \<lparr>hr_reads = rs, hr_buffer = hr_buffer r @ d\<rparr>)"
      "read_http_head \<lparr>hr_reads = rs, hr_buffer = hr_buffer r @ d\<rparr> = Returned (Ok (Some h), r')"
      by (auto simp: read_http_head.simps[of r] Let_def split: if_splits option.splits sum.splits)
    from "1.IH"[OF None d(1) refl refl d(2) refl d(3,4)] http_read_size(1)[OF d(1)] show ?thesis by (simp add: reader_size_def)
  qed
qed

lemma read_http_message_size:
  "read_http_request r = Returned (Ok (Some request), r') \<Longrightarrow> reader_size r' < reader_size r"
  "read_http_response r = Returned (Ok (Some response), r') \<Longrightarrow> reader_size r' < reader_size r"
  by (auto simp: read_http_request_def read_http_response_def and_then_Ok_iff split: run.splits sum.splits option.splits
      dest!: read_http_head_size)

lemma transfer_trailers_size: "transfer_trailers r w = Returned (Ok (), r', w') \<Longrightarrow> reader_size r' \<le> reader_size r"
proof (induction r w rule: transfer_trailers.induct)
  case (1 r w)
  from "1.prems" obtain t r1 w1 where t: "read_crlf_line r = Returned (Ok t, r1)" "write_all t w = (Ok (), w1)"
    and rest: "t = [13, 10] \<and> r' = r1 \<or> t \<noteq> [13, 10] \<and> transfer_trailers r1 w1 = Returned (Ok (), r', w')"
    by (auto simp: transfer_trailers.simps[of r] split: run.splits sum.splits prod.splits if_splits)
  show ?case
    using rest read_crlf_line_size[OF t(1)] "1.IH"[OF t(1) refl refl t(2)[symmetric] refl] by fastforce
qed

lemma transfer_chunked_size: "transfer_chunked_body checks r w = Returned (Ok (), r', w') \<Longrightarrow> reader_size r' \<le> reader_size r"
proof (induction checks r w rule: transfer_chunked_body.induct)
  case (1 checks r w)
  from "1.prems" obtain line r1 w1 n where line: "read_crlf_line r = Returned (Ok line, r1)" "write_all line w = (Ok (), w1)"
    "chunk_length line = Ok n"
    by (auto simp: transfer_chunked_body.simps[of checks r] split: run.splits sum.splits prod.splits if_splits option.splits)
  show ?case
  proof (cases "n = 0")
    case True
    with "1.prems" line have "transfer_trailers r1 w1 = Returned (Ok (), r', w')" by (simp add: transfer_chunked_body.simps[of checks r])
    then show ?thesis using read_crlf_line_size[OF line(1)] transfer_trailers_size by fastforce
  next
    case False
    with "1.prems" line obtain m r2 w2 where m: "usize_add checks n 2 = Some m" "transfer_exact_bytes m r1 w1 = Returned (Ok (), r2, w2)"
      "transfer_chunked_body checks r2 w2 = Returned (Ok (), r', w')"
      by (auto simp: transfer_chunked_body.simps[of checks r] split: run.splits sum.splits prod.splits if_splits option.splits)
    from "1.IH"[OF line(1) refl refl line(2)[symmetric] refl line(3) False m(1,2) refl refl refl m(3)]
    show ?thesis using read_crlf_line_size[OF line(1)] transfer_exact_bytes_size[OF m(2)] by simp
  qed
qed

lemma transfer_body_size: "transfer_body checks kind r w = Returned (Ok (), r', w') \<Longrightarrow> reader_size r' \<le> reader_size r"
  by (cases kind)
    (auto simp: transfer_body_def transfer_until_eof_def reader_size_def split: prod.splits sum.splits run.splits
      dest!: transfer_exact_bytes_size transfer_chunked_size copy_bytes_size)

section \<open>Requests\<close>

record http_remote =
  rm_reader :: http_reader
  rm_sink :: sink
  rm_shutdown :: "io_error + unit"

record http_conn =
  hc_reader :: http_reader
  hc_sink :: sink
  hc_dials :: "(string \<Rightarrow> CoreError + http_remote) list"
  hc_dialed :: "string list"
  hc_remotes :: "http_remote list"

datatype http_outcome = Served | Tunnel http_remote

definition http_write :: "bytes \<Rightarrow> sink \<Rightarrow> (anyhow + unit) \<times> sink" where
  "http_write bs w = (case write_all bs w of (r, w) \<Rightarrow> (map_err (\<lambda>e. [IoCause e]) r, w))"

definition send_status :: "string \<Rightarrow> u16 \<Rightarrow> string \<Rightarrow> bool \<Rightarrow> http_conn \<Rightarrow> (anyhow + unit) \<times> http_conn" where
  "send_status version status reason keep_alive c =
     (case http_write (as_bytes (status_text version status reason keep_alive)) (hc_sink c) of (r, w) \<Rightarrow> (r, c\<lparr>hc_sink := w\<rparr>))"

definition send_proxy_auth_required :: "string \<Rightarrow> string \<Rightarrow> http_conn \<Rightarrow> (anyhow + unit) \<times> http_conn" where
  "send_proxy_auth_required version realm c =
     (case http_write (as_bytes (auth_required_text version realm)) (hc_sink c) of (r, w) \<Rightarrow> (r, c\<lparr>hc_sink := w\<rparr>))"

text \<open>\<open>Client::tcp\<close>: the next of the given results; without one the call waits.\<close>

definition http_dial :: "string \<Rightarrow> http_conn \<Rightarrow> ((CoreError + http_remote) \<times> http_conn) option" where
  "http_dial addr c =
     (case hc_dials c of
        [] \<Rightarrow> None
      | dial # dials \<Rightarrow> Some (dial addr, c\<lparr>hc_dials := dials, hc_dialed := hc_dialed c @ [addr]\<rparr>))"

definition http_bad_gateway :: "HttpRequestHead \<Rightarrow> CoreError \<Rightarrow> http_conn \<Rightarrow> (anyhow + 'a) \<times> http_conn" where
  "http_bad_gateway request e c =
     (case send_status (rh_version request) 502 ''Bad Gateway'' False c of (r, c) \<Rightarrow> (and_then r (\<lambda>_. Err [CoreCause e]), c))"

definition http_handle_connect :: "HttpRequestHead \<Rightarrow> http_conn \<Rightarrow> ((anyhow + http_outcome) \<times> http_conn) run" where
  "http_handle_connect request c =
     (case authority_to_addr (rh_target request) of
        Inl e \<Rightarrow> Returned (Err e, c)
      | Inr request_addr \<Rightarrow>
          (case http_dial request_addr c of
             None \<Rightarrow> Blocked
           | Some (Inl e, c) \<Rightarrow> Returned (http_bad_gateway request e c)
           | Some (Inr remote, c) \<Rightarrow>
               (case send_status (rh_version request) 200 ''Connection Established'' False c of
                  (Inl e, c) \<Rightarrow> Returned (Err e, c)
                | (Inr _, c) \<Rightarrow>
                    let buffer = hr_buffer (hc_reader c) in
                    (case (if buffer \<noteq> [] then http_write buffer (rm_sink remote) else (Ok (), rm_sink remote)) of
                       (Inl e, w) \<Rightarrow> Returned (Err e, c)
                     | (Inr _, w) \<Rightarrow>
                         Returned (Ok (Tunnel (remote\<lparr>rm_sink := w\<rparr>)), c\<lparr>hc_reader := (hc_reader c)\<lparr>hr_buffer := []\<rparr>\<rparr>)))))"

definition is_informational :: "HttpResponseHead \<Rightarrow> bool" where
  "is_informational response \<longleftrightarrow> 100 \<le> ph_status response \<and> ph_status response < 200 \<and> ph_status response \<noteq> 101"

text \<open>The loop that passes informational responses on until the final one.\<close>

function relay_responses ::
    "bool \<Rightarrow> http_api \<Rightarrow> HttpRequestHead \<Rightarrow> bool \<Rightarrow> http_reader \<Rightarrow> sink \<Rightarrow> ((anyhow + bool) \<times> http_reader \<times> sink) run" where
  "relay_responses checks api request keep_alive_requested r w =
     (case read_http_response r of
        Blocked \<Rightarrow> Blocked
      | Panicked \<Rightarrow> Panicked
      | Returned (Inl e, r) \<Rightarrow> Returned (Err e, r, w)
      | Returned (Inr None, r) \<Rightarrow>
          (case http_write (as_bytes (status_text (rh_version request) 502 ''Bad Gateway'' False)) w of
             (result, w) \<Rightarrow> Returned (and_then result (\<lambda>_. bail ''remote closed before sending an HTTP response''), r, w))
      | Returned (Inr (Some response), r) \<Rightarrow>
          (case response_body_kind (rh_method request) (ph_status response) (ph_headers response) of
             Inl e \<Rightarrow> Returned (Err e, r, w)
           | Inr body_kind \<Rightarrow>
               let can_keep_alive = keep_alive_requested \<and> body_kind \<noteq> UntilEof \<and> \<not> is_informational response;
                   outbound = build_outbound_response api response body_kind
                     (if is_informational response then None else Some can_keep_alive) in
               (case http_write (as_bytes outbound) w of
                  (Inl e, w) \<Rightarrow> Returned (Err e, r, w)
                | (Inr _, w) \<Rightarrow>
                    (case transfer_body checks body_kind r w of
                       Blocked \<Rightarrow> Blocked
                     | Panicked \<Rightarrow> Panicked
                     | Returned (Inl e, r, w) \<Rightarrow> Returned (Err e, r, w)
                     | Returned (Inr _, r, w) \<Rightarrow>
                         if is_informational response
                         then relay_responses checks api request keep_alive_requested r w
                         else Returned (Ok can_keep_alive, r, w)))))"
  by auto
termination
  by (relation "measure (\<lambda>(_, _, _, _, r, _). reader_size r)")
    (auto dest!: read_http_message_size transfer_body_size)

declare relay_responses.simps [simp del]

definition handle_http_request ::
    "bool \<Rightarrow> http_api \<Rightarrow> HttpRequestHead \<Rightarrow> BodyKind \<Rightarrow> bool \<Rightarrow> http_conn \<Rightarrow> ((anyhow + bool) \<times> http_conn) run" where
  "handle_http_request checks api request body_kind keep_alive_requested c =
     (case parse_proxy_target (rh_target request) (rh_headers request) of
        Inl e \<Rightarrow> Returned (Err e, c)
      | Inr (request_addr, request_target, host_header) \<Rightarrow>
          (case http_dial request_addr c of
             None \<Rightarrow> Blocked
           | Some (Inl e, c) \<Rightarrow> Returned (http_bad_gateway request e c)
           | Some (Inr remote, c) \<Rightarrow>
               (case http_write (as_bytes (build_outbound_request request request_target host_header body_kind)) (rm_sink remote) of
                  (Inl e, w) \<Rightarrow> Returned (Err e, c\<lparr>hc_remotes := hc_remotes c @ [remote\<lparr>rm_sink := w\<rparr>]\<rparr>)
                | (Inr _, w) \<Rightarrow>
                    (case transfer_body checks body_kind (hc_reader c) w of
                       Blocked \<Rightarrow> Blocked
                     | Panicked \<Rightarrow> Panicked
                     | Returned (Inl e, r, w) \<Rightarrow>
                         Returned (Err e, c\<lparr>hc_reader := r, hc_remotes := hc_remotes c @ [remote\<lparr>rm_sink := w\<rparr>]\<rparr>)
                     | Returned (Inr _, r, w) \<Rightarrow>
                         let c = c\<lparr>hc_reader := r, hc_remotes := hc_remotes c @ [remote\<lparr>rm_sink := w\<rparr>]\<rparr> in
                         (case rm_shutdown remote of
                            Inl e \<Rightarrow> Returned (Err [IoCause e], c)
                          | Inr _ \<Rightarrow>
                              (case relay_responses checks api request keep_alive_requested (rm_reader remote) (hc_sink c) of
                                 Blocked \<Rightarrow> Blocked
                               | Panicked \<Rightarrow> Panicked
                               | Returned (result, _, w) \<Rightarrow> Returned (result, c\<lparr>hc_sink := w\<rparr>)))))))"

lemma handle_http_request_size:
  "handle_http_request checks api request kind keep c = Returned (Ok b, c') \<Longrightarrow> reader_size (hc_reader c') \<le> reader_size (hc_reader c)"
  by (auto simp: handle_http_request_def http_dial_def http_bad_gateway_def send_status_def Let_def and_then_Ok_iff
      split: sum.splits prod.splits option.splits list.splits run.splits dest!: transfer_body_size)

section \<open>Connections\<close>

function http_handle_connection ::
    "bool \<Rightarrow> http_api \<Rightarrow> HttpAuth option \<Rightarrow> http_conn \<Rightarrow> ((anyhow + http_outcome) \<times> http_conn) run" where
  "http_handle_connection checks api auth c =
     (case read_http_request (hc_reader c) of
        Blocked \<Rightarrow> Blocked
      | Panicked \<Rightarrow> Panicked
      | Returned (Inl e, r) \<Rightarrow> Returned (Err e, c\<lparr>hc_reader := r\<rparr>)
      | Returned (Inr None, r) \<Rightarrow> Returned (Ok Served, c\<lparr>hc_reader := r\<rparr>)
      | Returned (Inr (Some request), r) \<Rightarrow>
          let c = c\<lparr>hc_reader := r\<rparr> in
          (case (case auth of Some a \<Rightarrow> if proxy_authorized api (rh_headers request) a then None else Some a | None \<Rightarrow> None) of
             Some a \<Rightarrow>
               (case send_proxy_auth_required (rh_version request) (hu_realm a) c of
                  (result, c) \<Rightarrow> Returned (and_then result (\<lambda>_. Ok Served), c))
           | None \<Rightarrow>
               if eq_ignore_ascii_case (rh_method request) ''CONNECT'' then http_handle_connect request c
               else (case request_body_kind (rh_headers request) of
                   Inl e \<Rightarrow> Returned (Err e, c)
                 | Inr body_kind \<Rightarrow>
                     (case handle_http_request checks api request body_kind (request_keep_alive request) c of
                        Blocked \<Rightarrow> Blocked
                      | Panicked \<Rightarrow> Panicked
                      | Returned (Inl e, c) \<Rightarrow> Returned (Err e, c)
                      | Returned (Inr keep_alive, c) \<Rightarrow>
                          if keep_alive then http_handle_connection checks api auth c else Returned (Ok Served, c)))))"
  by auto
termination
  by (relation "measure (\<lambda>(_, _, _, c). reader_size (hc_reader c))")
    (auto dest!: read_http_message_size handle_http_request_size)

declare http_handle_connection.simps [simp del]

definition http_auth :: "HttpConfig \<Rightarrow> HttpAuth option" where
  "http_auth config =
     (if ht_username config \<noteq> [] \<and> ht_password config \<noteq> []
      then Some \<lparr>hu_username = ht_username config, hu_password = ht_password config,
                 hu_realm = (if ht_realm config = [] then ''Hysteria'' else ht_realm config)\<rparr>
      else None)"

section \<open>Nothing is dialled without a login\<close>

text \<open>The requests that the loop of a connection reads, up to the one that ends it.\<close>

inductive http_visits :: "bool \<Rightarrow> http_api \<Rightarrow> http_conn \<Rightarrow> HttpRequestHead \<Rightarrow> bool" for checks api where
  visit_now: "read_http_request (hc_reader c) = Returned (Ok (Some request), r) \<Longrightarrow> http_visits checks api c request"
| visit_later: "read_http_request (hc_reader c) = Returned (Ok (Some previous), r) \<Longrightarrow>
    request_body_kind (rh_headers previous) = Ok kind \<Longrightarrow>
    handle_http_request checks api previous kind (request_keep_alive previous) (c\<lparr>hc_reader := r\<rparr>) = Returned (Ok True, c') \<Longrightarrow>
    http_visits checks api c' request \<Longrightarrow> http_visits checks api c request"

definition requested_addr :: "HttpRequestHead \<Rightarrow> string \<Rightarrow> bool" where
  "requested_addr request addr \<longleftrightarrow>
     (if eq_ignore_ascii_case (rh_method request) ''CONNECT'' then authority_to_addr (rh_target request) = Ok addr
      else (case parse_proxy_target (rh_target request) (rh_headers request) of Inl _ \<Rightarrow> False | Inr (a, _) \<Rightarrow> a = addr))"

lemma send_status_dialed [simp]: "send_status v s reason k c = (result, c') \<Longrightarrow> hc_dialed c' = hc_dialed c"
  by (auto simp: send_status_def split: prod.splits)

lemma http_bad_gateway_dialed: "http_bad_gateway request e c = (result, c') \<Longrightarrow> hc_dialed c' = hc_dialed c"
  by (auto simp: http_bad_gateway_def split: prod.splits)

lemma http_dial_dialed: "http_dial addr c = Some (result, c') \<Longrightarrow> hc_dialed c' = hc_dialed c @ [addr] \<and> hc_reader c' = hc_reader c"
  by (auto simp: http_dial_def split: list.splits)

lemma http_handle_connect_dialed:
  assumes "http_handle_connect request c = Returned (result, c')"
  shows "hc_dialed c' = hc_dialed c \<or> (\<exists>addr. authority_to_addr (rh_target request) = Ok addr \<and> hc_dialed c' = hc_dialed c @ [addr])"
  using assms unfolding http_handle_connect_def Let_def
  by (auto split: sum.splits option.splits prod.splits if_splits dest!: http_dial_dialed http_bad_gateway_dialed)

lemma handle_http_request_dialed:
  assumes "handle_http_request checks api request kind keep c = Returned (result, c')"
  shows "hc_dialed c' = hc_dialed c \<or>
    (\<exists>addr rest. parse_proxy_target (rh_target request) (rh_headers request) = Ok (addr, rest) \<and> hc_dialed c' = hc_dialed c @ [addr])"
  using assms unfolding handle_http_request_def Let_def
  by (auto split: sum.splits option.splits prod.splits run.splits dest!: http_dial_dialed http_bad_gateway_dialed)

lemma http_refused_dialed:
  assumes "http_handle_connection checks api (Some a) c = Returned (result, c')"
    and "\<not> (\<exists>request r. read_http_request (hc_reader c) = Returned (Ok (Some request), r) \<and> proxy_authorized api (rh_headers request) a)"
  shows "hc_dialed c' = hc_dialed c"
  using assms by (subst (asm) http_handle_connection.simps)
    (auto simp: Let_def send_proxy_auth_required_def split: run.splits sum.splits prod.splits option.splits)

lemma http_handle_connection_dialed:
  assumes "http_handle_connection checks api (Some a) c = Returned (result, c')"
  shows "\<exists>addrs. hc_dialed c' = hc_dialed c @ addrs \<and>
    (\<forall>addr \<in> set addrs. \<exists>request. http_visits checks api c request \<and> proxy_authorized api (rh_headers request) a \<and> requested_addr request addr)"
  using assms
proof (induction checks api "Some a" c arbitrary: result c' rule: http_handle_connection.induct)
  case (1 checks api c)
  show ?case
  proof (cases "\<exists>request r. read_http_request (hc_reader c) = Returned (Ok (Some request), r) \<and> proxy_authorized api (rh_headers request) a")
    case False
    then show ?thesis using http_refused_dialed[OF "1.prems"] by simp
  next
    case True
    then obtain request r where read: "read_http_request (hc_reader c) = Returned (Ok (Some request), r)"
      and auth: "proxy_authorized api (rh_headers request) a" by blast
    let ?c = "c\<lparr>hc_reader := r\<rparr>" and ?connect = "eq_ignore_ascii_case (rh_method request) ''CONNECT''"
    note now = visit_now[OF read] and step = "1.prems"[unfolded http_handle_connection.simps[of checks api "Some a" c] read]
    consider "?connect" "http_handle_connect request ?c = Returned (result, c')"
      | e where "request_body_kind (rh_headers request) = Err e" "hc_dialed c' = hc_dialed c"
      | kind where "\<not> ?connect" "request_body_kind (rh_headers request) = Ok kind"
      using step auth by (auto simp: Let_def split: if_splits sum.splits)
    then show ?thesis
    proof cases
      case 1
      then show ?thesis using http_handle_connect_dialed[OF 1(2)] now auth by (fastforce simp: requested_addr_def)
    next
      case 2
      then show ?thesis by simp
    next
      case (3 kind)
      obtain res c1 where h: "handle_http_request checks api request kind (request_keep_alive request) ?c = Returned (res, c1)"
        using step auth 3 by (auto simp: Let_def split: run.splits)
      obtain addrs where addrs: "hc_dialed c1 = hc_dialed c @ addrs" "\<forall>addr \<in> set addrs. requested_addr request addr"
        using handle_http_request_dialed[OF h] 3(1) by (auto simp: requested_addr_def)
      show ?thesis
      proof (cases "res = Ok True")
        case False
        then have "c' = c1" using step auth 3 h by (auto simp: Let_def split: sum.splits if_splits)
        then show ?thesis using addrs now auth by blast
      next
        case True
        then have "http_handle_connection checks api (Some a) c1 = Returned (result, c')"
          using step auth 3 h by (simp add: Let_def)
        then have "\<exists>addrs. hc_dialed c' = hc_dialed c1 @ addrs \<and> (\<forall>addr \<in> set addrs. \<exists>request. http_visits checks api c1 request \<and>
            proxy_authorized api (rh_headers request) a \<and> requested_addr request addr)"
          using "1.hyps"[OF read refl refl refl refl _ 3(1,2) h refl True TrueI] auth by simp
        then obtain more_addrs where more: "hc_dialed c' = hc_dialed c1 @ more_addrs"
          "\<forall>addr \<in> set more_addrs. \<exists>request. http_visits checks api c1 request \<and> proxy_authorized api (rh_headers request) a \<and>
             requested_addr request addr" by blast
        moreover note visit_later[OF read 3(2) h[unfolded True]]
        ultimately have "\<forall>addr \<in> set (addrs @ more_addrs). \<exists>request. http_visits checks api c request \<and>
            proxy_authorized api (rh_headers request) a \<and> requested_addr request addr"
          using addrs(2) now auth by (metis Un_iff set_append)
        then show ?thesis using more(1) addrs(1) by (intro exI[of _ "addrs @ more_addrs"]) simp
      qed
    qed
  qed
qed

lemma http_refused_407:
  assumes "read_http_request (hc_reader c) = Returned (Ok (Some request), r)" and "\<not> proxy_authorized api (rh_headers request) a"
    and "failing (hc_sink c) = None"
  shows "http_handle_connection checks api (Some a) c = Returned (Ok Served, c\<lparr>hc_reader := r,
    hc_sink := (hc_sink c)\<lparr>written := written (hc_sink c) @ as_bytes (auth_required_text (rh_version request) (hu_realm a))\<rparr>\<rparr>)"
  using assms by (simp add: http_handle_connection.simps[of checks api "Some a" c] send_proxy_auth_required_def http_write_def write_all_def)

text \<open>
  C32: The proxy dials only for requests with valid credentials. When a login is configured, every
  address that a connection dials, over all requests of its keep-alive loop, is the address of a
  request that the loop read and that carried the configured user name and password.
  A connection whose first request lacks them dials nothing: it ends after an answer with status 407.
\<close>

theorem http_login_gate:
  assumes "http_handle_connection checks api (Some a) c = Returned (result, c')" and "failing (hc_sink c) = None"
  shows "(\<exists>addrs. hc_dialed c' = hc_dialed c @ addrs \<and> (\<forall>addr \<in> set addrs. \<exists>request. http_visits checks api c request \<and>
      proxy_authorized api (rh_headers request) a \<and> requested_addr request addr)) \<and>
    (\<forall>request r. read_http_request (hc_reader c) = Returned (Ok (Some request), r) \<and> \<not> proxy_authorized api (rh_headers request) a \<longrightarrow>
      result = Ok Served \<and> c' = c\<lparr>hc_reader := r, hc_sink := (hc_sink c)\<lparr>written := written (hc_sink c) @
        as_bytes (auth_required_text (rh_version request) (hu_realm a))\<rparr>\<rparr>)"
  using http_handle_connection_dialed[OF assms(1)] http_refused_407[of c _ _ api a checks] assms by auto

definition sample_api :: http_api where
  "sample_api = \<lparr>ha_base64_standard = (\<lambda>s. if s = ''dTpw'' then Some (as_bytes ''u:p'') else None), ha_base64_url_safe = (\<lambda>_. None),
     ha_canonical_reason = (\<lambda>_. None)\<rparr>"

definition sample_conn :: "string \<Rightarrow> http_conn" where
  "sample_conn text = \<lparr>hc_reader = \<lparr>hr_reads = [], hr_buffer = as_bytes text\<rparr>, hc_sink = new_vec,
     hc_dials = [\<lambda>_. Ok \<lparr>rm_reader = \<lparr>hr_reads = [], hr_buffer = []\<rparr>, rm_sink = new_vec, rm_shutdown = Ok ()\<rparr>], hc_dialed = [], hc_remotes = []\<rparr>"

definition sample_login :: string where
  "sample_login = ''CONNECT a:1 HTTP/1.1'' @ crlf @ ''Proxy-Authorization: Basic dTpw'' @ crlf @ crlf"

lemma sample_login_read:
  "read_http_request (hc_reader (sample_conn sample_login)) = Returned (Ok (Some \<lparr>rh_method = ''CONNECT'', rh_target = ''a:1'',
     rh_version = ''HTTP/1.1'', rh_headers = [(''Proxy-Authorization'', ''Basic dTpw'')]\<rparr>), \<lparr>hr_reads = [], hr_buffer = []\<rparr>)"
proof -
  have "find_header_end (as_bytes sample_login) = Some 53" by code_simp
  moreover have "utf8_valid (take 53 (as_bytes sample_login))" by code_simp
  moreover have "split_crlf (str_of (take 53 (as_bytes sample_login))) = [''CONNECT a:1 HTTP/1.1'', ''Proxy-Authorization: Basic dTpw'']" by code_simp
  moreover have "drop 57 (as_bytes sample_login) = []" by code_simp
  moreover have "trim '' Basic dTpw'' = ''Basic dTpw''" using trim_spaces[of 1 "''Basic dTpw''"] by (simp add: trim_id graphic_def)
  ultimately show ?thesis
    by (simp add: read_http_request_def read_http_head.simps sample_conn_def parse_request_head_def from_utf8_def split_once_def trim_id graphic_def)
qed

lemma sample_login_run:
  "http_handle_connection True sample_api (Some \<lparr>hu_username = ''u'', hu_password = ''p'', hu_realm = ''r''\<rparr>) (sample_conn sample_login) =
     Returned (Ok (Tunnel \<lparr>rm_reader = \<lparr>hr_reads = [], hr_buffer = []\<rparr>, rm_sink = new_vec, rm_shutdown = Ok ()\<rparr>),
       (sample_conn sample_login)\<lparr>hc_reader := \<lparr>hr_reads = [], hr_buffer = []\<rparr>, hc_dials := [], hc_dialed := [''a:1''],
         hc_sink := new_vec\<lparr>written := as_bytes (status_text ''HTTP/1.1'' 200 ''Connection Established'' False)\<rparr>\<rparr>)"
proof -
  have "from_utf8 (as_bytes ''u:p'') = Some ''u:p''" by code_simp
  then have "proxy_authorized sample_api [(''Proxy-Authorization'', ''Basic dTpw'')] \<lparr>hu_username = ''u'', hu_password = ''p'', hu_realm = ''r''\<rparr>"
    by (simp add: proxy_authorized_def header_value_def sample_api_def strip_prefix_def split_once_def trim_id graphic_def)
  moreover have "authority_to_addr ''a:1'' = Ok ''a:1''"
    by (simp add: authority_to_addr_def trim_id graphic_def rsplit_once_def split_once_def)
  ultimately show ?thesis
    using sample_login_read by (simp add: http_handle_connection.simps http_handle_connect_def http_dial_def send_status_def http_write_def
        write_all_def new_vec_def sample_conn_def)
qed

theorem http_login_gate_witness:
  "\<exists>request. http_visits True sample_api (sample_conn sample_login) request \<and> requested_addr request ''a:1'' \<and>
     proxy_authorized sample_api (rh_headers request) \<lparr>hu_username = ''u'', hu_password = ''p'', hu_realm = ''r''\<rparr>"
  using http_login_gate[OF sample_login_run] by (auto simp: sample_conn_def new_vec_def)

section \<open>What the remote server is sent\<close>

definition plain_text :: "string \<Rightarrow> bool" where
  "plain_text s \<longleftrightarrow> str_ok s \<and> CHR 13 \<notin> set s"

definition header_ok :: "string \<times> string \<Rightarrow> bool" where
  "header_ok h \<longleftrightarrow> plain_text (fst h) \<and> plain_text (snd h) \<and> CHR '':'' \<notin> set (fst h) \<and> trim (fst h) = fst h \<and> trim (snd h) = snd h"

definition forwardable :: "HttpRequestHead \<Rightarrow> string \<Rightarrow> string \<Rightarrow> bool" where
  "forwardable request target host \<longleftrightarrow>
     plain_text (rh_method request) \<and> CHR '' '' \<notin> set (rh_method request) \<and> plain_text target \<and> CHR '' '' \<notin> set target \<and>
     plain_text (rh_version request) \<and> list_all header_ok (rh_headers request) \<and> header_ok (''Host'', host)"

definition forwarded_headers :: "headers \<Rightarrow> string \<Rightarrow> BodyKind \<Rightarrow> headers" where
  "forwarded_headers headers host kind =
     (let kept = filter (\<lambda>(name, _). \<not> should_skip_request_header name kind) headers in
      map (\<lambda>(name, v). if eq_ignore_ascii_case name ''Host'' then (''Host'', host) else (name, v)) kept @
      (if list_ex (\<lambda>(name, _). eq_ignore_ascii_case name ''Host'') kept then [] else [(''Host'', host)]) @ [(''Connection'', ''close'')])"

definition header_plain :: "string \<times> string \<Rightarrow> string" where
  "header_plain h = fst h @ '': '' @ snd h"

fun crlf_join :: "string \<Rightarrow> string list \<Rightarrow> string" where
  "crlf_join l [] = l"
| "crlf_join l (l' # ls) = l @ crlf @ crlf_join l' ls"

lemma crlf_join_lines: "crlf_join l ls @ crlf = l @ crlf @ concat (map (\<lambda>l. l @ crlf) ls)"
  by (induction ls arbitrary: l) auto

lemma outbound_request_lines:
  "build_outbound_request request target host kind =
     crlf_join (rh_method request @ '' '' @ target @ '' '' @ rh_version request) (map header_plain (forwarded_headers (rh_headers request) host kind))
       @ crlf @ crlf"
proof -
  have line: "header_line h = header_plain h @ crlf" for h by (cases h) (simp add: header_line_def header_plain_def)
  let ?f = "\<lambda>(name, v). if eq_ignore_ascii_case name ''Host'' then (''Host'', host) else (name, v)"
  have "concat (map (\<lambda>(name, v). if eq_ignore_ascii_case name ''Host'' then header_plain (''Host'', host) @ crlf else header_line (name, v)) hs) =
      concat (map (\<lambda>l. l @ crlf) (map header_plain (map ?f hs)))" for hs
    by (induction hs) (auto simp: line)
  then show ?thesis
    unfolding append_assoc[symmetric, of _ crlf crlf] crlf_join_lines
    by (simp add: build_outbound_request_def forwarded_headers_def Let_def line)
qed

lemma split_crlf_join:
  "CHR 13 \<notin> set l \<Longrightarrow> list_all (\<lambda>l. CHR 13 \<notin> set l) ls \<Longrightarrow> split_crlf (crlf_join l ls) = l # ls"
  by (induction ls arbitrary: l) (auto simp: split_crlf_no_sep split_crlf_append crlf_def)

lemma str_ok_crlf_join: "str_ok l \<Longrightarrow> list_all str_ok ls \<Longrightarrow> str_ok (crlf_join l ls)"
proof (induction ls arbitrary: l)
  case (Cons l' ls)
  have "str_ok crlf" by code_simp
  with Cons show ?case by (simp add: str_ok_append)
qed simp

lemma find_header_end_skip: "13 \<notin> set l \<Longrightarrow> find_header_end (l @ bs) = map_option (\<lambda>n. length l + n) (find_header_end bs)"
  by (cases "find_header_end bs"; induction l) (auto simp: find_header_end_def)

lemma cr_as_bytes: "13 \<in> set (as_bytes s) \<longleftrightarrow> CHR 13 \<in> set s"
proof -
  have cr: "(13 :: u8) = of_char (CHR 13)" by simp
  have "of_char c = (of_char (CHR 13) :: u8) \<longleftrightarrow> c = CHR 13" for c
    using str_of_as_bytes[of "[c]"] str_of_as_bytes[of "[CHR 13]"] by (metis as_bytes_def list.inject list.simps(8,9))
  then show ?thesis unfolding cr as_bytes_def set_map image_iff by metis
qed

lemma find_header_end_join:
  assumes "CHR 13 \<notin> set l" and "list_all (\<lambda>l. CHR 13 \<notin> set l \<and> l \<noteq> []) ls"
  shows "find_header_end (as_bytes (crlf_join l ls) @ [13, 10, 13, 10] @ rest) = Some (length (crlf_join l ls))"
  using assms
proof (induction ls arbitrary: l)
  case Nil
  then show ?case by (simp add: find_header_end_skip cr_as_bytes) (simp add: find_header_end_def)
next
  case (Cons l' ls)
  let ?rest = "as_bytes (crlf_join l' ls) @ [13, 10, 13, 10] @ rest"
  obtain x xs where x: "crlf_join l' ls = x # xs" "x \<noteq> CHR 13"
    using Cons.prems(2) by (cases l'; cases ls) auto
  then obtain b bs where b: "?rest = b # bs" "b \<noteq> 13"
    using cr_as_bytes[of "[x]"] by (simp add: as_bytes_def)
  then have "find_header_end ([13, 10] @ ?rest) = map_option (\<lambda>n. n + 2) (find_header_end ?rest)"
    unfolding b(1) by (cases "find_window [13, 10, 13, 10] (b # bs)") (auto simp: find_header_end_def)
  moreover have "as_bytes crlf = [13, 10]" "length crlf = 2" by code_simp+
  ultimately show ?case using Cons by (simp add: find_header_end_skip cr_as_bytes)
qed

lemma header_lines_plain: "list_all header_ok hs \<Longrightarrow> header_lines (map header_plain hs) = Ok hs"
proof (induction hs)
  case (Cons h hs)
  have "trim (CHR '' '' # snd h) = trim (snd h)" using trim_spaces[of 1 "snd h"] by simp
  with Cons show ?case by (simp add: header_ok_def header_plain_def split_once_append)
qed simp

lemma header_plain_ok:
  assumes "header_ok h"
  shows "CHR 13 \<notin> set (header_plain h)" "header_plain h \<noteq> []" "str_ok (header_plain h)"
proof -
  have "str_ok '': ''" by code_simp
  with assms show "CHR 13 \<notin> set (header_plain h)" "header_plain h \<noteq> []" "str_ok (header_plain h)"
    by (auto simp: header_ok_def header_plain_def plain_text_def intro!: str_ok_append simp del: append.simps)
qed

lemma forwarded_headers_ok:
  assumes "list_all header_ok headers" and "header_ok (''Host'', host)"
  shows "list_all header_ok (forwarded_headers headers host kind)"
proof -
  have "str_ok ''Connection''" "str_ok ''close''" by code_simp+
  then have "header_ok (''Connection'', ''close'')" by (simp add: header_ok_def plain_text_def trim_id graphic_def)
  with assms show ?thesis by (auto simp: forwarded_headers_def Let_def list_all_iff)
qed

lemma forwarded_headers_skip:
  assumes "(name, v) \<in> set (forwarded_headers headers host kind)" and "(name, v) \<noteq> (''Connection'', ''close'')"
  shows "to_ascii_lowercase name \<notin> set hop_by_hop"
proof -
  have "\<not> eq_ignore_ascii_case ''Host'' ''Content-Length''" "to_ascii_lowercase ''Host'' \<notin> set hop_by_hop" by code_simp+
  then have "\<not> should_skip_request_header ''Host'' kind" by (simp add: should_skip_request_header_def)
  with assms have "\<not> should_skip_request_header name kind" by (auto simp: forwarded_headers_def Let_def split: if_splits)
  then show ?thesis by (simp add: should_skip_request_header_def)
qed


definition sample_get :: HttpRequestHead where
  "sample_get = \<lparr>rh_method = ''GET'', rh_target = ''http://a/b'', rh_version = ''HTTP/1.1'',
     rh_headers = [(''Proxy-Authorization'', ''Basic dTpw''), (''Accept'', ''x'')]\<rparr>"


end
