(* ===== verification/Spec2Isabelle.thy ===== *)
theory Spec2Isabelle
  imports Runtime_IO Socket Udp_Client Udp_Server Client Mobile_Controller Config Share Udp_Forwarding Http_Proxy
begin

text \<open>
  \<^bold>\<open>Verification of RUST-HYSTERIA\<close>

  The program is a proxy over QUIC. A client and a server authenticate over HTTP/3
  (\<open>core/src/client.rs\<close>, \<open>core/src/server.rs\<close>), relay TCP connections over QUIC streams with a small
  framing protocol (\<open>core/src/protocol\<close>, \<open>core/src/runtime_io.rs\<close>, \<open>core/src/relay.rs\<close>) and UDP packets
  over QUIC datagrams (\<open>core/src/udp.rs\<close>, \<open>core/src/frag.rs\<close>), optionally with a rate limit and with
  an obfuscating socket below QUIC. The command line program (\<open>app/src\<close>) reads a configuration and
  offers the client's connection to local programs as a SOCKS5 server, as an HTTP proxy and as UDP
  forwarders. The mobile application (\<open>mobile/src\<close>) has a SOCKS5 server of its own with a DNS proxy.

  \<^bold>\<open>Conventions\<close>

  Definitions have the names of the Rust items, or those names with a prefix where two files share
  one, and records have their fields under a short prefix. A \<open>Result\<close> is a sum with \<open>Ok\<close> and
  \<open>Err\<close>, and \<open>?\<close> is \<open>and_then\<close> or \<open>io_then\<close>. A panic is \<open>None\<close> or \<open>Panicked\<close>; waiting
  for ever is \<open>Blocked\<close>. Machine integers are words, \<open>usize\<close> is \<open>nat\<close>, and where the code adds
  without a check a parameter \<open>checks\<close> says whether the build has overflow checks. Floating-point
  rounding is a parameter \<open>fl\<close>. Concurrent tasks are steps of one state between which any
  interleaving is allowed; a step reaches from one lock or suspension point to the next. Streams
  are either the bytes to come with how they end, or the list of what the reads return.

  \<^bold>\<open>Library\<close>

  \<^item> \<open>Prelude\<close>: machine words, results, panics, buffers, chunks, runs of a step function; the
    interface \<open>panic_free\<close> of a state machine whose invariant excludes panics.
  \<^item> \<open>Rust_Std\<close>, \<open>Rust_Text\<close>, \<open>Net_Addr\<close>, \<open>Hex\<close>: what the code uses of the standard library: byte
    sources and sinks, big-endian words, UTF-8 and its lossy repair, numbers as text, trimming and
    splitting, IP and socket addresses as text with their round trip.
  \<^item> \<open>Errors\<close>, \<open>Anyhow\<close>: \<open>core/src/errors.rs\<close>, the error chains of the applications and the code that
    reads and writes one TCP stream.

  \<^bold>\<open>Core\<close>

  \<^item> \<open>Varint\<close>: \<open>core/src/varint.rs\<close>; round trip of all readers and canonical reading.
  \<^item> \<open>Protocol\<close>: \<open>core/src/protocol/proxy.rs\<close>, \<open>padding.rs\<close>; round trip of UDP messages, safety of
    the parser on arbitrary datagrams.
  \<^item> \<open>Runtime_IO\<close>: \<open>core/src/runtime_io.rs\<close>; the asynchronous readers agree with the blocking ones.
  \<^item> \<open>Frag\<close>: \<open>core/src/frag.rs\<close>; fragments fit, are reassembled in any order, and never panic.
  \<^item> \<open>Obfs\<close>, \<open>Socket\<close>: \<open>extras/src/obfs.rs\<close>, \<open>core/src/socket.rs\<close>; through the interfaces \<open>obfuscator\<close>
    and \<open>obfs_socket\<close>, a received batch is the batch that was sent.
  \<^item> \<open>Limit\<close>: \<open>core/src/limit.rs\<close>; the token bucket never grants more than its rate and burst, a
    request within the burst is served, and a larger one is not.
  \<^item> \<open>Udp_Send\<close>, \<open>Udp_Client\<close>, \<open>Udp_Server\<close>: \<open>core/src/udp.rs\<close>; end-to-end delivery, and the session
    tables of both sides under all interleavings.
  \<^item> \<open>Auth\<close>, \<open>Endpoint\<close>, \<open>Server\<close>, \<open>Client\<close>: \<open>core/src/protocol/auth.rs\<close>, \<open>quic.rs\<close>, \<open>server.rs\<close>,
    \<open>client.rs\<close>, \<open>health.rs\<close>; both sides of a handshake agree, only authenticated connections are
    served, a pinned certificate is enforced, and TCP requests reach the server as they were made.
  \<^item> \<open>Relay\<close>: \<open>core/src/relay.rs\<close>, \<open>stream.rs\<close>; bytes are relayed in order and the relay ends.
  \<^item> \<open>Speedtest\<close>: \<open>extras/src/speedtest.rs\<close>; the amount asked for is the amount transferred.

  \<^bold>\<open>Applications\<close>

  \<^item> \<open>Config_Data\<close>, \<open>Config\<close>: \<open>app/src/config.rs\<close>; what an accepted configuration satisfies, and that
    a configured certificate pin is used.
  \<^item> \<open>Share\<close>: \<open>app/src/share.rs\<close>; a shared URI gives back the configuration.
  \<^item> \<open>Socks5\<close>: \<open>app/src/socks5.rs\<close>; no request is read without a login, datagrams round trip, and an
    association serves one peer.
  \<^item> \<open>Udp_Forwarding\<close>: \<open>app/src/udp_forwarding.rs\<close>; replies reach the peer whose session they are for.
  \<^item> \<open>Http_Text\<close>, \<open>Http_Stream\<close>, \<open>Http_Proxy\<close>: \<open>app/src/http_proxy.rs\<close>; nothing is dialled without a
    login, a rewritten request is read as it was meant and without hop-by-hop headers, and bodies
    are relayed exactly however the network cuts them.
  \<^item> \<open>Dns_Proxy\<close>, \<open>Local_Socks\<close>: \<open>mobile/src/dns_proxy.rs\<close>, \<open>local_socks.rs\<close>; every readable query is
    answered, also over TCP and in order, and queries stay out of the proxied session.
  \<^item> \<open>Mobile_Controller\<close>: the connection controller of \<open>mobile/src/main.rs\<close>; its tasks follow its
    connection, at most one reconnect is pending, and a disconnect is final.

  Some properties state what the code does where that is unlikely to be meant: a starving sender,
  truncated fragment counts, a panic on a short segment, races of session tables, a chunk size
  that overflows, and a notice about a lost connection that ends its successor.

  \<^bold>\<open>Loops\<close>

  No definition has fuel. Loops over a stream recurse on the bytes that are left, loops over the
  steps of tasks on the list of steps, and a wait on a clock on the list of the clock's readings, so
  that a longer list is a longer wait; that a wait ends is stated for every list that is long enough.

  \<^bold>\<open>Not modelled\<close>

  \<^item> QUIC, TLS, HTTP/3, DNS resolution, hashing, base64, URL and YAML parsing: third-party crates,
    parameters of the definitions that call them.
  \<^item> The accept loops and \<open>app/src/main.rs\<close>, \<open>app/src/cli.rs\<close>: they bind sockets, spawn the modelled
    handlers, print and parse arguments with derive macros.
  \<^item> \<open>app/src/speedtest.rs\<close> and \<open>app/src/udp_bench.rs\<close>: commands that measure a live connection and
    print the measurements; the speed test protocol itself is modelled.
  \<^item> The rest of \<open>mobile/src/main.rs\<close>: the user interface with its labels and styles, and reading a
    form into a client configuration, which repeats much of \<open>app/src/config.rs\<close>; the outcome of
    connecting is a parameter of the controller.
  \<^item> \<open>mobile/src/android_bridge.rs\<close>, \<open>vpn_tun2socks.rs\<close>: calls into the Java runtime and control of a
    helper library; their results are parameters of the controller.
  \<^item> Copying between two joined streams in the proxies, which the asynchronous runtime does.
\<close>

end
